(* ===== verification/Dada_Prelude.thy ===== *)
theory Dada_Prelude
  imports Main "HOL-Library.Word"
begin

text \<open>
  Shared vocabulary of the development: the result type of a C function that acts on shared
  state (it returns, fails, sleeps, or runs into undefined behaviour), the two control
  constructs the models are written with (sequencing and counted loops), the integer types,
  and the generic lemmas on words, counted loops and finite windows of numbers that the
  component theories share.
\<close>

type_synonym u64 = "64 word"
type_synonym u32 = "32 word"
type_synonym u8 = "8 word"
type_synonym key_t = "32 word"

named_theorems outcome_simps \<open>equations that evaluate the outcome combinators\<close>
named_theorems ring_defs \<open>definitions of the ring buffer operations\<close>

section \<open>Outcomes of a C function over shared state\<close>

text \<open>
  \<open>Done x s\<close>: the function returned normally (0, or the pointer or number \<open>x\<close>) with
  state \<open>s\<close>. \<open>Err c s\<close>: it returned the error code \<open>c\<close> (a negative number, or 0 for a NULL
  pointer) and left \<open>s\<close>. \<open>Wait s\<close>: with no action of another process it never returns; it
  sleeps in \<open>s\<close>, which holds every effect of the statements already executed.
  \<open>Crash\<close>: undefined behaviour or a failed assertion.
\<close>

datatype ('a, 's) outcome = Done 'a 's | Err int 's | Wait 's | Crash

fun andthen :: "('a, 's) outcome \<Rightarrow> ('a \<Rightarrow> 's \<Rightarrow> ('b, 's) outcome) \<Rightarrow> ('b, 's) outcome" where
  "andthen (Done a s) k = k a s"
| "andthen (Err c s) k = Err c s"
| "andthen (Wait s) k = Wait s"
| "andthen Crash k = Crash"

text \<open>The call's return value is ignored by the caller.\<close>

fun ignore :: "('a, 's) outcome \<Rightarrow> (unit, 's) outcome" where
  "ignore (Done a s) = Done () s"
| "ignore (Err c s) = Done () s"
| "ignore (Wait s) = Wait s"
| "ignore Crash = Crash"

text \<open>The caller tests the result for an error and returns its own code.\<close>

fun fail_as :: "int \<Rightarrow> ('a, 's) outcome \<Rightarrow> ('a, 's) outcome" where
  "fail_as c (Err d s) = Err c s"
| "fail_as c (Done a s) = Done a s"
| "fail_as c (Wait s) = Wait s"
| "fail_as c Crash = Crash"

text \<open>The number a call returns, \<open>c\<close> for an error.\<close>

fun value_of :: "int \<Rightarrow> (int, 's) outcome \<Rightarrow> (int, 's) outcome" where
  "value_of c (Done a s) = Done a s"
| "value_of c (Err d s) = Done c s"
| "value_of c (Wait s) = Wait s"
| "value_of c Crash = Crash"

text \<open>A count of bytes that is compared as an unsigned number: an error is more than any count.\<close>

fun unsigned_count :: "(nat, 's) outcome \<Rightarrow> (nat, 's) outcome" where
  "unsigned_count (Done k s) = Done k s"
| "unsigned_count (Err d s) = Done (2 ^ 64 - 1) s"
| "unsigned_count (Wait s) = Wait s"
| "unsigned_count Crash = Crash"

text \<open>The state an outcome leaves behind.\<close>

fun final_state :: "('a, 's) outcome \<Rightarrow> 's option" where
  "final_state (Done a s) = Some s"
| "final_state (Err c s) = Some s"
| "final_state (Wait s) = Some s"
| "final_state Crash = None"

lemma andthen_eq_Done [outcome_simps]:
  "andthen out k = Done b s' \<longleftrightarrow> (\<exists>a s. out = Done a s \<and> k a s = Done b s')"
  by (cases out) auto

lemma ignore_eq_Done [outcome_simps]:
  "ignore out = Done u s \<longleftrightarrow> (\<exists>a. out = Done a s) \<or> (\<exists>c. out = Err c s)"
  by (cases out) auto

lemma fail_as_eq_Done [simp]: "fail_as c out = Done a s \<longleftrightarrow> out = Done a s"
  by (cases out) auto

lemma andthen_assoc:
  "andthen (andthen out f) g = andthen out (\<lambda>a s. andthen (f a s) g)"
  by (cases out) auto

lemma andthen_cong: "(\<And>a s. out = Done a s \<Longrightarrow> f a s = g a s) \<Longrightarrow> andthen out f = andthen out g"
  by (cases out) auto

lemma map_outcome_Done: "map_outcome f g out = Done b t \<longleftrightarrow> (\<exists>a s. out = Done a s \<and> b = f a \<and> t = g s)"
  by (cases out) auto

lemma andthen_Done_unit [simp]: "andthen out (\<lambda>u s. Done () s) = out"
  for out :: "(unit, 's) outcome"
  by (cases out) auto

text \<open>
  A property of the state that every continuation keeps survives sequencing, whatever the
  outcome. It is stated for a relation between the state before and after.
\<close>

definition keeps :: "('s \<Rightarrow> bool) \<Rightarrow> ('a, 's) outcome \<Rightarrow> bool" where
  "keeps P out \<longleftrightarrow> (\<forall>s. final_state out = Some s \<longrightarrow> P s)"

lemma keeps_simps [simp]:
  "keeps P (Done a s) = P s" "keeps P (Err c s) = P s" "keeps P (Wait s) = P s" "keeps P Crash"
  by (auto simp: keeps_def)

lemma keeps_andthen:
  "keeps P out \<Longrightarrow> (\<And>a s. P s \<Longrightarrow> keeps P (k a s)) \<Longrightarrow> keeps P (andthen out k)"
  by (cases out) auto

lemma keeps_ignore [simp]: "keeps P (ignore out) = keeps P out"
  by (cases out) auto

lemma keeps_fail_as [simp]: "keeps P (fail_as c out) = keeps P out"
  by (cases out) auto

text \<open>
  The call returns or sleeps, and if it sleeps then in a state with the property \<open>P\<close>: it does not fail
  and its behaviour is defined.
\<close>

definition sleeps_only :: "('s \<Rightarrow> bool) \<Rightarrow> ('a, 's) outcome \<Rightarrow> bool" where
  "sleeps_only P out \<longleftrightarrow> (case out of Done a s \<Rightarrow> True | Wait s \<Rightarrow> P s | _ \<Rightarrow> False)"

lemma sleeps_only_simps [simp]:
  "sleeps_only P (Done a s)" "\<not> sleeps_only P (Err c s)" "sleeps_only P (Wait s) = P s"
  "\<not> sleeps_only P Crash"
  by (simp_all add: sleeps_only_def)

lemma sleeps_only_andthen:
  "sleeps_only P out \<Longrightarrow> (\<And>a s. out = Done a s \<Longrightarrow> sleeps_only P (k a s)) \<Longrightarrow>
    sleeps_only P (andthen out k)"
  by (cases out) auto

lemma sleeps_only_fail_as [simp]: "sleeps_only P (fail_as c out) = sleeps_only P out"
  by (cases out) auto

lemma sleeps_only_mono: "sleeps_only P out \<Longrightarrow> (\<And>s. P s \<Longrightarrow> Q s) \<Longrightarrow> sleeps_only Q out"
  by (cases out) auto

section \<open>Counted loops\<close>

text \<open>
  \<open>for_loop i n f\<close> is \<open>for (k = i; k < i + n; k++) if (f(k) < 0) return -1;\<close>: the body's first
  failure leaves the loop.
\<close>

fun for_loop :: "nat \<Rightarrow> nat \<Rightarrow> (nat \<Rightarrow> 's \<Rightarrow> (unit, 's) outcome) \<Rightarrow> 's \<Rightarrow> (unit, 's) outcome" where
  "for_loop i 0 f s = Done () s"
| "for_loop i (Suc n) f s = andthen (f i s) (\<lambda>_ s'. for_loop (Suc i) n f s')"

lemma all_interval_Suc:
  "(\<forall>i. lo \<le> i \<and> i < lo + Suc n \<longrightarrow> P i) \<longleftrightarrow> P lo \<and> (\<forall>i. Suc lo \<le> i \<and> i < Suc lo + n \<longrightarrow> P i)"
proof (intro iffI conjI allI impI)
  fix i
  assume P: "P lo \<and> (\<forall>i. Suc lo \<le> i \<and> i < Suc lo + n \<longrightarrow> P i)" and i: "lo \<le> i \<and> i < lo + Suc n"
  show "P i" using P i by (cases "i = lo") auto
qed auto

lemma keeps_for_loop:
  "(\<And>k s. P s \<Longrightarrow> keeps P (f k s)) \<Longrightarrow> P s \<Longrightarrow> keeps P (for_loop i n f s)"
  by (induction n arbitrary: i s) (auto intro!: keeps_andthen)

section \<open>Machine integers\<close>

text \<open>An argument of C type \<open>short\<close>: the low 16 bits, read as a signed number.\<close>

definition short_of :: "'a::len word \<Rightarrow> int" where
  "short_of w = sint (ucast w :: 16 word)"

lemma short_of_small: "unat w < 32768 \<Longrightarrow> short_of w = int (unat w)"
  for w :: u64
proof -
  assume a: "unat w < 32768"
  have "uint w < 32768"
    unfolding uint_nat using a by (metis of_nat_less_iff of_nat_numeral)
  then have "signed_take_bit 15 (uint w) = uint w"
    by (intro signed_take_bit_int_eq_self) (auto intro: order_trans [OF _ uint_ge_0])
  then show ?thesis
    unfolding uint_nat [symmetric] by (simp add: short_of_def signed_ucast_eq)
qed

lemma nat_int_step [simp]:
  "nat (int v + 1) = Suc v" "nat (1 + int v) = Suc v" "nat (int v - 1) = v - 1"
  by arith+

lemma unat_add1: "unat w < 2 ^ 64 - 1 \<Longrightarrow> unat (w + 1) = Suc (unat w)"
  for w :: u64
  by (simp add: unat_word_ariths)

lemma unat_u64_bound: "unat w < 2 ^ 64"
  for w :: u64
  by (rule order_less_le_trans [OF unsigned_less]) simp

lemma unat_add1_less: "lo < hi \<Longrightarrow> unat (lo + 1) = Suc (unat lo)"
  for lo hi :: u64
  using unat_u64_bound [of hi] by (intro unat_add1) (simp add: word_less_nat_alt)

lemma unat_of_nat_u64 [simp]: "a < 2 ^ 64 \<Longrightarrow> unat (of_nat a :: u64) = a"
  by (simp add: unat_of_nat)

lemma of_nat_u64_inj: "a < 2 ^ 64 \<Longrightarrow> b < 2 ^ 64 \<Longrightarrow> (of_nat a :: u64) = of_nat b \<longleftrightarrow> a = b"
  using unat_of_nat_u64 [of a] unat_of_nat_u64 [of b] by metis

lemma sint_small: "unat w < 2 ^ 63 \<Longrightarrow> sint w = int (unat w)"
  for w :: u64
proof -
  assume "unat w < 2 ^ 63"
  then have "int (unat w) < int (2 ^ 63)" by (simp only: of_nat_less_iff)
  then have "uint w < 2 ^ 63" by simp
  then have "signed_take_bit 63 (uint w) = uint w"
    by (intro signed_take_bit_int_eq_self) (auto intro: order_trans [OF _ uint_ge_0])
  then show ?thesis by (simp add: sint_uint)
qed

end
