(* ===== verification/Ipc_State.thy ===== *)
theory Ipc_State
  imports Dada_Prelude
begin

text \<open>
  The state of a ring buffer and the semaphore operations on it: the structures of
  src/ipcbuf.h (\<open>ipcsync_t\<close>, the shared memory with the arrays that follow it, and
  \<open>ipcbuf_t\<close>, a process's handle) and \<open>ipc_semop\<close> and \<open>ipc_semtimedop\<close> of src/ipcutil.c.

  A function of the library that takes an \<open>ipcbuf_t*\<close> is modelled on the pair of the handle
  and the ring it is connected to. Both are extensible records, so a function of
  src/ipcbuf.c applies to the larger handle \<open>ipcio_t\<close> as it does in C, where the code casts.
  The kernel identifies semaphores by (set, number); a ring owns the connection set and one
  data set per reader.
\<close>

section \<open>Data of src/ipcbuf.h\<close>

text \<open>The states of a process (\<open>#define IPCBUF_DISCON 0\<close> and so on in src/ipcbuf.c).\<close>

datatype ipc_state =
    IPCBUF_DISCON | IPCBUF_VIEWER
  | IPCBUF_WRITER | IPCBUF_WRITING | IPCBUF_WCHANGE
  | IPCBUF_READER | IPCBUF_READING | IPCBUF_RSTOP
  | IPCBUF_VIEWING | IPCBUF_VSTOP

text \<open>The semaphores of the connection set and of a reader's data set.\<close>

datatype conn_sem = IPCBUF_WRITE | IPCBUF_READ

datatype data_sem =
    IPCBUF_SODACK | IPCBUF_EODACK | IPCBUF_FULL | IPCBUF_CLEAR | IPCBUF_READER_CONN

abbreviation IPCBUF_XFERS :: u64 where "IPCBUF_XFERS \<equiv> 8"
abbreviation IPCBUF_READERS :: nat where "IPCBUF_READERS \<equiv> 8"

record ipcsync =
  semkey_connect :: key_t
  semkey_data :: "nat \<Rightarrow> key_t"
  nbufs :: u64
  bufsz :: u64
  w_buf_next :: u64
  w_buf_curr :: u64
  w_state :: ipc_state
  w_xfer :: u64
  r_bufs :: "nat \<Rightarrow> u64"
  r_states :: "nat \<Rightarrow> ipc_state"
  r_xfers :: "nat \<Rightarrow> u64"
  n_readers :: nat
  s_buf :: "nat \<Rightarrow> u64"
  s_byte :: "nat \<Rightarrow> u64"
  eod :: "nat \<Rightarrow> bool"
  e_buf :: "nat \<Rightarrow> u64"
  e_byte :: "nat \<Rightarrow> u64"
  on_device_id :: int

text \<open>
  The shared memory of a ring: the structure, the \<open>count\<close> and \<open>shmkey\<close> arrays the code puts
  behind it, the sub-blocks' contents and the kernel's semaphore values. \<open>count\<close> is an array
  of C \<open>char\<close>, only incremented, decremented and compared with 0.
\<close>

record ring = ipcsync +
  count :: "nat \<Rightarrow> u8"
  shmkey :: "nat \<Rightarrow> key_t"
  mem :: "nat \<Rightarrow> u8 list"
  sem_connect :: "conn_sem \<Rightarrow> nat"
  sem_data :: "nat \<Rightarrow> data_sem \<Rightarrow> nat"

text \<open>
  A process's handle. An identifier or address of a kernel object is the key the object was
  allocated under, \<open>None\<close> standing for -1 or NULL; an unallocated C array is \<open>[]\<close>.
\<close>

record ipcbuf =
  state :: ipc_state
  syncid :: "key_t option"
  semid_connect :: "key_t option"
  semid_data :: "key_t option list"
  shmid :: "key_t option list"
  sync_ptr :: "key_t option"
  buffer :: "key_t option list"
  viewbuf :: u64
  xfer :: u64
  soclock_buf :: u64
  iread :: int

text \<open>The array element an \<open>xfer\<close> number selects, and the block a buffer count selects.\<close>

definition slot :: "u64 \<Rightarrow> nat" where
  "slot x = unat (x mod IPCBUF_XFERS)"

definition block :: "'r ring_scheme \<Rightarrow> u64 \<Rightarrow> nat" where
  "block r b = unat (b mod nbufs r)"

lemma slot_less: "slot x < 8"
  by (simp add: slot_def unat_mod)

lemma unat_mod_XFERS [simp]: "slot (x mod IPCBUF_XFERS) = slot x"
  by (simp add: slot_def unat_mod)

section \<open>Semaphore operations\<close>

datatype sem_addr = Conn conn_sem | Data nat data_sem

fun sem_get :: "sem_addr \<Rightarrow> 'r ring_scheme \<Rightarrow> nat" where
  "sem_get (Conn k) r = sem_connect r k"
| "sem_get (Data i k) r = sem_data r i k"

fun sem_set :: "sem_addr \<Rightarrow> nat \<Rightarrow> 'r ring_scheme \<Rightarrow> 'r ring_scheme" where
  "sem_set (Conn k) v r = r\<lparr>sem_connect := (sem_connect r)(k := v)\<rparr>"
| "sem_set (Data i k) v r = r\<lparr>sem_data := (sem_data r)(i := (sem_data r i)(k := v))\<rparr>"

text \<open>Flags of semop(2), and the greatest value of a semaphore (Linux).\<close>

abbreviation IPC_NOWAIT :: int where "IPC_NOWAIT \<equiv> 2048"
abbreviation SEM_UNDO :: int where "SEM_UNDO \<equiv> 4096"
abbreviation SEMVMX :: int where "SEMVMX \<equiv> 32767"

text \<open>
  semop(2) with one operation on a semaphore of value \<open>v\<close>: the new value, a failure
  (ERANGE, or EAGAIN under IPC_NOWAIT), or sleep. SEM_UNDO acts only when the process exits.
\<close>

datatype sem_result = Sem_value nat | Sem_fails | Sem_sleeps

definition semop :: "int \<Rightarrow> int \<Rightarrow> nat \<Rightarrow> sem_result" where
  "semop sem_op flag v =
     (if sem_op > 0 then
        if int v + sem_op > SEMVMX then Sem_fails else Sem_value (v + nat sem_op)
      else if sem_op = 0 then
        if v = 0 then Sem_value 0
        else if (flag div IPC_NOWAIT) mod 2 = 1 then Sem_fails else Sem_sleeps
      else if - sem_op \<le> int v then Sem_value (v - nat (- sem_op))
      else if (flag div IPC_NOWAIT) mod 2 = 1 then Sem_fails else Sem_sleeps)"

definition ipc_semop ::
  "sem_addr \<Rightarrow> int \<Rightarrow> int \<Rightarrow> 'h \<times> 'r ring_scheme \<Rightarrow> (unit, 'h \<times> 'r ring_scheme) outcome" where
  "ipc_semop sem sem_op flag = (\<lambda>(id, r).
     case semop sem_op flag (sem_get sem r) of
       Sem_value v \<Rightarrow> Done () (id, sem_set sem v r)
     | Sem_fails \<Rightarrow> Err (-1) (id, r)
     | Sem_sleeps \<Rightarrow> Wait (id, r))"

text \<open>
  \<open>ipc_semtimedop\<close>: with a timeout of 0 it is \<open>ipc_semop\<close>; otherwise a sleep ends when the
  timeout expires, with EAGAIN, and the function returns 1. A failure is EAGAIN (return 1)
  under IPC_NOWAIT and ERANGE (return -1) otherwise.
\<close>

definition ipc_semtimedop ::
  "sem_addr \<Rightarrow> int \<Rightarrow> int \<Rightarrow> u64 \<Rightarrow> 'h \<times> 'r ring_scheme \<Rightarrow> (int, 'h \<times> 'r ring_scheme) outcome" where
  "ipc_semtimedop sem sem_op flag timeout = (\<lambda>(id, r).
     if timeout = 0 then andthen (ipc_semop sem sem_op flag (id, r)) (\<lambda>_. Done 0)
     else case semop sem_op flag (sem_get sem r) of
       Sem_value v \<Rightarrow> Done 0 (id, sem_set sem v r)
     | Sem_fails \<Rightarrow> if sem_op > 0 then Err (-1) (id, r) else Done 1 (id, r)
     | Sem_sleeps \<Rightarrow> Done 1 (id, r))"

text \<open>The time structure \<open>ipc_semtimedop\<close> hands to the kernel: (seconds, nanoseconds).\<close>

definition semtimedop_timespec :: "u64 \<Rightarrow> u64 \<times> u64" where
  "semtimedop_timespec timeout =
     (if timeout \<ge> 1000000000
      then (timeout div 1000000000, timeout - (timeout div 1000000000) * 1000000000)
      else (0, timeout))"

end
