(* ===== verification/Ipcbuf_Writer.thy ===== *)
theory Ipcbuf_Writer
  imports Ipc_State
begin

text \<open>
  The functions of src/ipcbuf.c for the process that writes: the writer lock, the
  start-of-data and end-of-data flags, and the cycle \<open>ipcbuf_get_next_write\<close>,
  \<open>ipcbuf_mark_filled\<close>. The lemmas give each function's effect where it returns, and the
  fields no writer function changes.
\<close>

type_synonym ('h, 'r) buf_st = "'h ipcbuf_scheme \<times> 'r ring_scheme"

section \<open>The writer lock\<close>

definition ipcbuf_is_writer :: "('h, 'r) buf_st \<Rightarrow> bool" where
  "ipcbuf_is_writer = (\<lambda>(id, r).
     state id = IPCBUF_WRITER \<or> state id = IPCBUF_WCHANGE \<or> state id = IPCBUF_WRITING)"

definition ipcbuf_is_writing :: "('h, 'r) buf_st \<Rightarrow> bool" where
  "ipcbuf_is_writing = (\<lambda>(id, r). state id = IPCBUF_WRITING)"

definition ipcbuf_is_wchange :: "('h, 'r) buf_st \<Rightarrow> bool" where
  "ipcbuf_is_wchange = (\<lambda>(id, r). state id = IPCBUF_WCHANGE)"

definition ipcbuf_lock_write :: "('h, 'r) buf_st \<Rightarrow> (unit, ('h, 'r) buf_st) outcome" where
  "ipcbuf_lock_write = (\<lambda>(id, r).
     if state id \<noteq> IPCBUF_VIEWER then Err (-1) (id, r)
     else andthen (ipc_semop (Conn IPCBUF_WRITE) (-1) SEM_UNDO (id, r)) (\<lambda>_ (id, r).
       let st = (if w_state r = IPCBUF_DISCON then IPCBUF_WCHANGE else IPCBUF_WRITING)
       in Done () (id\<lparr>state := st, xfer := w_xfer r mod IPCBUF_XFERS\<rparr>, r\<lparr>w_state := st\<rparr>)))"

definition ipcbuf_unlock_write :: "('h, 'r) buf_st \<Rightarrow> (unit, ('h, 'r) buf_st) outcome" where
  "ipcbuf_unlock_write = (\<lambda>(id, r).
     if \<not> ipcbuf_is_writer (id, r) then Err (-1) (id, r)
     else andthen (ipc_semop (Conn IPCBUF_WRITE) 1 SEM_UNDO (id, r)) (\<lambda>_ (id, r).
       Done () (id\<lparr>state := IPCBUF_VIEWER\<rparr>, r\<lparr>w_state := IPCBUF_DISCON\<rparr>)))"

definition ipcbuf_relock_write :: "('h, 'r) buf_st \<Rightarrow> (unit, ('h, 'r) buf_st) outcome" where
  "ipcbuf_relock_write = (\<lambda>(id, r).
     if \<not> ipcbuf_is_writer (id, r) then Err (-1) (id, r)
     else Done () (id\<lparr>state := IPCBUF_WCHANGE, xfer := w_xfer r mod IPCBUF_XFERS\<rparr>,
                   r\<lparr>w_state := IPCBUF_WCHANGE\<rparr>))"

section \<open>Start of data and end of data\<close>

definition ipcbuf_enable_eod :: "('h, 'r) buf_st \<Rightarrow> (unit, ('h, 'r) buf_st) outcome" where
  "ipcbuf_enable_eod = (\<lambda>(id, r).
     if state id \<noteq> IPCBUF_WRITING then Err (-1) (id, r)
     else Done () (id\<lparr>state := IPCBUF_WCHANGE\<rparr>, r\<lparr>w_state := IPCBUF_WCHANGE\<rparr>))"

definition ipcbuf_disable_sod :: "('h, 'r) buf_st \<Rightarrow> (unit, ('h, 'r) buf_st) outcome" where
  "ipcbuf_disable_sod = (\<lambda>(id, r).
     if state id \<noteq> IPCBUF_WCHANGE then Err (-1) (id, r)
     else Done () (id\<lparr>state := IPCBUF_WRITER\<rparr>, r\<lparr>w_state := IPCBUF_WRITER\<rparr>))"

definition ipcbuf_get_sod_minbuf :: "('h, 'r) buf_st \<Rightarrow> u64" where
  "ipcbuf_get_sod_minbuf = (\<lambda>(id, r).
     let new_bufs_written = w_buf_next r - soclock_buf id
     in if new_bufs_written < nbufs r then soclock_buf id
        else w_buf_next r - nbufs r + 1)"

text \<open>
  The loop of \<open>ipcbuf_enable_sod\<close> over the buffers written before start-of-data was raised:
  \<open>for (new_bufs = lo; new_bufs < hi; new_bufs++) count[new_bufs % nbufs]++\<close>.
\<close>

function bump_counts :: "u64 \<Rightarrow> u64 \<Rightarrow> u64 \<Rightarrow> (nat \<Rightarrow> u8) \<Rightarrow> (nat \<Rightarrow> u8)" where
  "bump_counts nb lo hi c =
     (if lo < hi
      then bump_counts nb (lo + 1) hi (c(unat (lo mod nb) := c (unat (lo mod nb)) + 1))
      else c)"
  by pat_completeness auto
termination
  by (relation "measure (\<lambda>(nb, lo, hi, c). unat hi - unat lo)")
    (auto simp: unat_add1_less word_less_nat_alt [symmetric] intro!: diff_less_mono2)

declare bump_counts.simps [simp del]

definition ipcbuf_enable_sod ::
  "u64 \<Rightarrow> u64 \<Rightarrow> ('h, 'r) buf_st \<Rightarrow> (unit, ('h, 'r) buf_st) outcome" where
  "ipcbuf_enable_sod start_buf start_byte = (\<lambda>(id, r).
     if state id \<noteq> IPCBUF_WRITER \<and> state id \<noteq> IPCBUF_WCHANGE then Err (-1) (id, r)
     else if start_buf > w_buf_next r then Err (-1) (id, r)
     else if start_buf < ipcbuf_get_sod_minbuf (id, r) then Err (-1) (id, r)
     else if start_byte > bufsz r then Err (-1) (id, r)
     else andthen (for_loop 0 (n_readers r)
                     (\<lambda>i. ipc_semop (Data i IPCBUF_SODACK) (-1) 0) (id, r)) (\<lambda>_ (id, r).
       let x = slot (w_xfer r);
           id = id\<lparr>xfer := w_xfer r mod IPCBUF_XFERS\<rparr>;
           r = r\<lparr>s_buf := (s_buf r)(x := start_buf), s_byte := (s_byte r)(x := start_byte)\<rparr>;
           r = (if w_buf_curr r = 0 then r\<lparr>eod := (eod r)(x := False)\<rparr> else r)
       in if nbufs r = 0 \<and> start_buf < w_buf_curr r then Crash
          else
            let r = r\<lparr>count := bump_counts (nbufs r) start_buf (w_buf_curr r) (count r)\<rparr>;
                new_bufs = w_buf_curr r - start_buf;
                id = id\<lparr>state := IPCBUF_WRITING\<rparr>;
                r = r\<lparr>w_state := IPCBUF_WRITING\<rparr>
            in for_loop 0 (n_readers r)
                 (\<lambda>i s. if new_bufs \<noteq> 0
                        then ipc_semop (Data i IPCBUF_FULL) (short_of new_bufs) 0 s
                        else Done () s) (id, r)))"

section \<open>The write cycle\<close>

text \<open>
  The loop \<open>while (id->count[bufnum])\<close> of \<open>ipcbuf_get_next_write\<close> with as many iterations as
  the count says (only the writer changes \<open>count\<close>); \<open>reclaim_unfold\<close> below is the loop as the
  code has it.
\<close>

definition wait_clear :: "('h, 'r) buf_st \<Rightarrow> (unit, ('h, 'r) buf_st) outcome" where
  "wait_clear = (\<lambda>(id, r).
     for_loop 0 (n_readers r) (\<lambda>i. ipc_semop (Data i IPCBUF_CLEAR) (-1) 0) (id, r))"

fun reclaim_loop :: "nat \<Rightarrow> nat \<Rightarrow> ('h, 'r) buf_st \<Rightarrow> (unit, ('h, 'r) buf_st) outcome" where
  "reclaim_loop 0 b s = Done () s"
| "reclaim_loop (Suc n) b s = andthen (wait_clear s) (\<lambda>_ (id, r).
     reclaim_loop n b (id, r\<lparr>count := (count r)(b := count r b - 1)\<rparr>))"

definition reclaim :: "nat \<Rightarrow> ('h, 'r) buf_st \<Rightarrow> (unit, ('h, 'r) buf_st) outcome" where
  "reclaim b = (\<lambda>(id, r). reclaim_loop (unat (count r b)) b (id, r))"

text \<open>\<open>ipcbuf_get_next_write\<close> returns the address of a sub-block: here, its number in the ring.\<close>

definition ipcbuf_get_next_write :: "('h, 'r) buf_st \<Rightarrow> (nat, ('h, 'r) buf_st) outcome" where
  "ipcbuf_get_next_write = (\<lambda>(id, r).
     if \<not> ipcbuf_is_writer (id, r) then Err 0 (id, r)
     else andthen
       (if state id = IPCBUF_WCHANGE
        then fail_as 0 (ipcbuf_enable_sod (w_buf_curr r) 0 (id, r))
        else Done () (id, r)) (\<lambda>_ (id, r).
       if nbufs r = 0 then Crash
       else let bufnum = block r (w_buf_next r)
            in andthen (fail_as 0 (reclaim bufnum (id, r))) (\<lambda>_ (id, r).
                 Done bufnum (id, r\<lparr>w_buf_next := w_buf_next r + 1\<rparr>))))"

text \<open>
  \<open>ipcbuf_zero_next_write\<close> polls until every reader has a cleared buffer to its credit, then
  zeroes the next sub-block.
\<close>

definition ipcbuf_zero_next_write :: "('h, 'r) buf_st \<Rightarrow> (unit, ('h, 'r) buf_st) outcome" where
  "ipcbuf_zero_next_write = (\<lambda>(id, r).
     if \<not> ipcbuf_is_writer (id, r) then Err (-1) (id, r)
     else if nbufs r = 0 then Crash
     else if \<exists>i \<in> set [0..<n_readers r]. sem_data r i IPCBUF_CLEAR = 0 then Wait (id, r)
     else Done () (id, r\<lparr>mem := (mem r)(block r (w_buf_next r) := replicate (unat (bufsz r)) 0)\<rparr>))"

definition ipcbuf_mark_filled ::
  "u64 \<Rightarrow> ('h, 'r) buf_st \<Rightarrow> (unit, ('h, 'r) buf_st) outcome" where
  "ipcbuf_mark_filled nbytes = (\<lambda>(id, r).
     if \<not> ipcbuf_is_writer (id, r) then Err (-1) (id, r)
     else if state id = IPCBUF_WRITER then Done () (id, r\<lparr>w_buf_curr := w_buf_curr r + 1\<rparr>)
     else andthen
       (if state id = IPCBUF_WCHANGE \<or> nbytes < bufsz r
        then andthen (for_loop 0 (n_readers r)
                        (\<lambda>i. ipc_semop (Data i IPCBUF_EODACK) (-1) 0) (id, r)) (\<lambda>_ (id, r).
          let x = slot (xfer id);
              r = r\<lparr>e_buf := (e_buf r)(x := w_buf_curr r), e_byte := (e_byte r)(x := nbytes),
                     eod := (eod r)(x := True), w_xfer := w_xfer r + 1\<rparr>;
              id = id\<lparr>xfer := w_xfer r mod IPCBUF_XFERS, state := IPCBUF_WRITER\<rparr>;
              r = r\<lparr>w_state := IPCBUF_WRITER\<rparr>
          in if nbytes = 0 then ignore (ipcbuf_get_next_write (id, r)) else Done () (id, r))
        else Done () (id, r)) (\<lambda>_ (id, r).
       if nbufs r = 0 then Crash
       else
         let bufnum = block r (w_buf_curr r);
             r = r\<lparr>count := (count r)(bufnum := count r bufnum + 1),
                    w_buf_curr := w_buf_curr r + 1\<rparr>
         in for_loop 0 (n_readers r) (\<lambda>i. ipc_semop (Data i IPCBUF_FULL) 1 0) (id, r)))"

definition ipcbuf_set_soclock_buf :: "('h, 'r) buf_st \<Rightarrow> (u64, ('h, 'r) buf_st) outcome" where
  "ipcbuf_set_soclock_buf = (\<lambda>(id, r).
     let b = (if w_xfer r > 0 then e_buf r (slot (w_xfer r - 1)) + 1 else 0)
     in Done b (id\<lparr>soclock_buf := b\<rparr>, r))"

end
