(* ===== verification/Ipcbuf_Reader.thy ===== *)
theory Ipcbuf_Reader
  imports Ipcbuf_Writer
begin

text \<open>
  The functions of src/ipcbuf.c for the processes that read: the reader locks (a ring has up
  to \<open>n_readers\<close> readers, each with its own semaphores and counters), the read cycle
  \<open>ipcbuf_get_next_read\<close>, \<open>ipcbuf_mark_cleared\<close>, the viewers that look at the ring without
  taking part in it, the resets and the position functions.
\<close>

definition ipcbuf_is_reader :: "('h, 'r) buf_st \<Rightarrow> bool" where
  "ipcbuf_is_reader = (\<lambda>(id, r).
     state id = IPCBUF_READER \<or> state id = IPCBUF_READING \<or> state id = IPCBUF_RSTOP)"

definition ipcbuf_eod :: "('h, 'r) buf_st \<Rightarrow> bool" where
  "ipcbuf_eod = (\<lambda>(id, r). state id = IPCBUF_RSTOP \<or> state id = IPCBUF_VSTOP)"

definition ipcbuf_sod :: "('h, 'r) buf_st \<Rightarrow> bool" where
  "ipcbuf_sod = (\<lambda>(id, r). state id = IPCBUF_READING \<or> state id = IPCBUF_WRITING)"

section \<open>The reader locks\<close>

text \<open>
  \<open>ipcbuf_lock_read\<close> orders the readers' slots by the number of buffers read, least first. For
  each place it scans all slots for the least \<open>r_bufs\<close> not yet used, starting from the value
  UINT64_MAX; \<open>oldest_scan\<close> is one such scan, \<open>None\<close> an entry of \<open>xfers_pos\<close> never written.
\<close>

fun oldest_scan ::
  "(nat \<Rightarrow> u64) \<Rightarrow> nat option list \<Rightarrow> nat \<Rightarrow> nat \<Rightarrow> u64 \<Rightarrow> nat option \<Rightarrow> nat option" where
  "oldest_scan rb used i 0 v best = best"
| "oldest_scan rb used i (Suc n) v best =
     (if rb i < v \<and> Some i \<notin> set used then oldest_scan rb used (Suc i) n (rb i) (Some i)
      else oldest_scan rb used (Suc i) n v best)"

fun order_readers :: "(nat \<Rightarrow> u64) \<Rightarrow> nat \<Rightarrow> nat \<Rightarrow> nat option list \<Rightarrow> nat option list" where
  "order_readers rb n 0 used = used"
| "order_readers rb n (Suc k) used =
     order_readers rb n k (used @ [oldest_scan rb used 0 n (- 1) None])"

text \<open>
  The loop that takes the first slot whose READER_CONN can be decremented at once. With an
  operation of -1 under IPC_NOWAIT the only failure is EAGAIN, which the loop skips.
\<close>

fun take_reader_conn ::
  "nat option list \<Rightarrow> ('h, 'r) buf_st \<Rightarrow> (unit, ('h, 'r) buf_st) outcome" where
  "take_reader_conn [] s = Err (-1) s"
| "take_reader_conn (None # ps) s = Crash"
| "take_reader_conn (Some i # ps) s =
     (case ipc_semop (Data i IPCBUF_READER_CONN) (-1) (IPC_NOWAIT + SEM_UNDO) s of
        Done _ s' \<Rightarrow> Done () ((fst s')\<lparr>iread := int i\<rparr>, snd s')
      | Err c s' \<Rightarrow> take_reader_conn ps s'
      | Wait s' \<Rightarrow> Wait s'
      | Crash \<Rightarrow> Crash)"

definition ipcbuf_lock_read :: "('h, 'r) buf_st \<Rightarrow> (unit, ('h, 'r) buf_st) outcome" where
  "ipcbuf_lock_read = (\<lambda>(id, r).
     if state id \<noteq> IPCBUF_VIEWER then Err (-1) (id, r)
     else if iread id \<noteq> -1 then Err (-1) (id, r)
     else andthen (ipc_semop (Conn IPCBUF_READ) (-1) SEM_UNDO (id, r)) (\<lambda>_ (id, r).
       let xfers_pos = order_readers (r_bufs r) (n_readers r) (n_readers r) []
       in andthen (take_reader_conn xfers_pos (id, r)) (\<lambda>_ (id, r).
         let i = nat (iread id);
             st = (if r_states r i = IPCBUF_DISCON then IPCBUF_READER else IPCBUF_READING)
         in Done () (id\<lparr>state := st, xfer := r_xfers r i mod IPCBUF_XFERS\<rparr>,
                     r\<lparr>r_states := (r_states r)(i := st)\<rparr>))))"

definition ipcbuf_unlock_read :: "('h, 'r) buf_st \<Rightarrow> (unit, ('h, 'r) buf_st) outcome" where
  "ipcbuf_unlock_read = (\<lambda>(id, r).
     if \<not> ipcbuf_is_reader (id, r) then Err (-1) (id, r)
     else if iread id < 0 \<or> iread id \<ge> int (n_readers r) then Err (-1) (id, r)
     else
       let i = nat (iread id)
       in andthen (ipc_semop (Data i IPCBUF_READER_CONN) 1 SEM_UNDO (id, r)) (\<lambda>_ s.
          andthen (ipc_semop (Conn IPCBUF_READ) 1 SEM_UNDO s) (\<lambda>_ (id, r).
            Done () (id\<lparr>state := IPCBUF_VIEWER, iread := -1\<rparr>,
                     r\<lparr>r_states := (r_states r)(i := IPCBUF_DISCON)\<rparr>))))"

section \<open>The read cycle\<close>

text \<open>
  A read returns the address of the first valid byte, as (sub-block, offset), and the number
  of valid bytes. \<open>start_byte\<close> and the byte count are unsigned 64-bit numbers.
\<close>

record read_ptr =
  rp_block :: nat
  rp_offset :: u64
  rp_bytes :: u64

text \<open>The number of valid bytes, for the transfer of the handle and reader \<open>i\<close>.\<close>

definition bytes_available :: "nat \<Rightarrow> u64 \<Rightarrow> ('h, 'r) buf_st \<Rightarrow> u64" where
  "bytes_available i start_byte = (\<lambda>(id, r).
     if eod r (slot (xfer id)) \<and> r_bufs r i = e_buf r (slot (xfer id))
     then e_byte r (slot (xfer id)) - start_byte
     else bufsz r - start_byte)"

definition get_next_read_reader ::
  "int \<Rightarrow> ('h, 'r) buf_st \<Rightarrow> (read_ptr, ('h, 'r) buf_st) outcome" where
  "get_next_read_reader flag = (\<lambda>(id, r).
     let i = nat (iread id) in
     andthen (fail_as 0 (ipc_semop (Data i IPCBUF_FULL) (-1) flag (id, r))) (\<lambda>_ (id, r).
     andthen
       (if state id = IPCBUF_READER then
          let x = slot (r_xfers r i);
              id = id\<lparr>xfer := r_xfers r i mod IPCBUF_XFERS, state := IPCBUF_READING\<rparr>;
              r = r\<lparr>r_states := (r_states r)(i := IPCBUF_READING),
                     r_bufs := (r_bufs r)(i := s_buf r x)\<rparr>
          in andthen (fail_as 0 (ipc_semop (Data i IPCBUF_SODACK) 1 flag (id, r)))
               (\<lambda>_ (id, r). Done (s_byte r x) (id, r))
        else Done 0 (id, r)) (\<lambda>start_byte (id, r).
       if nbufs r = 0 then Crash
       else Done \<lparr>rp_block = block r (r_bufs r i), rp_offset = start_byte,
                  rp_bytes = bytes_available i start_byte (id, r)\<rparr> (id, r))))"

text \<open>
  A viewer keeps its own position \<open>viewbuf\<close>, which it moves to the newest complete buffer when
  it starts and keeps within the last \<open>nbufs\<close> buffers. It polls shared memory: with no action
  of the writer the loop \<open>while (sync->w_buf_curr <= id->viewbuf)\<close> either ends at once, ends
  in state VSTOP at the end of the transfer, or never ends.
\<close>

definition viewer_start :: "('h, 'r) buf_st \<Rightarrow> u64 \<times> ('h, 'r) buf_st" where
  "viewer_start = (\<lambda>(id, r).
     if state id = IPCBUF_VIEWER then
       let x = slot (r_xfers r 0);
           id = id\<lparr>xfer := r_xfers r 0 mod IPCBUF_XFERS, state := IPCBUF_VIEWING,
                    viewbuf := s_buf r x\<rparr>
       in if w_buf_curr r > viewbuf id + 1
          then (0, (id\<lparr>viewbuf := w_buf_curr r - 1\<rparr>, r))
          else (s_byte r x, (id, r))
     else (0, (id, r)))"

definition get_next_read_viewer ::
  "('h, 'r) buf_st \<Rightarrow> (read_ptr, ('h, 'r) buf_st) outcome" where
  "get_next_read_viewer s =
    (let (start_byte, (id, r)) = viewer_start s;
         x = slot (xfer id);
         stop = eod r x \<and> r_bufs r 0 \<noteq> 0 \<and> r_bufs r 0 = e_buf r x
     in if w_buf_curr r \<le> viewbuf id \<and> \<not> stop then Wait (id, r)
        else
          let id = (if w_buf_curr r \<le> viewbuf id then id\<lparr>state := IPCBUF_VSTOP\<rparr> else id);
              id = (if viewbuf id + nbufs r < w_buf_curr r
                    then id\<lparr>viewbuf := w_buf_curr r - nbufs r + 1\<rparr> else id);
              bufnum = viewbuf id;
              id = id\<lparr>viewbuf := viewbuf id + 1\<rparr>
          in if nbufs r = 0 then Crash
             else Done \<lparr>rp_block = block r bufnum, rp_offset = start_byte,
                        rp_bytes = bytes_available 0 start_byte (id, r)\<rparr> (id, r))"

definition ipcbuf_get_next_read_work ::
  "int \<Rightarrow> ('h, 'r) buf_st \<Rightarrow> (read_ptr, ('h, 'r) buf_st) outcome" where
  "ipcbuf_get_next_read_work flag s =
     (if ipcbuf_eod s then Err 0 s
      else if ipcbuf_is_reader s then get_next_read_reader flag s
      else get_next_read_viewer s)"

definition ipcbuf_get_next_read ::
  "('h, 'r) buf_st \<Rightarrow> (read_ptr, ('h, 'r) buf_st) outcome" where
  "ipcbuf_get_next_read = ipcbuf_get_next_read_work 0"

text \<open>
  \<open>ipcbuf_get_next_readable\<close>, for viewers: the oldest buffer some reader still needs. The least
  of the readers' counts, with the loop index left at \<open>max 1 n_readers\<close> as the C loop leaves
  it: the code then uses that index to read \<open>r_bufs\<close> once more.
\<close>

fun least_r_buf :: "(nat \<Rightarrow> u64) \<Rightarrow> nat \<Rightarrow> nat \<Rightarrow> u64 \<Rightarrow> u64" where
  "least_r_buf rb i 0 v = v"
| "least_r_buf rb i (Suc n) v = least_r_buf rb (Suc i) n (if rb i < v then rb i else v)"

definition ipcbuf_get_next_readable ::
  "bool \<Rightarrow> ('h, 'r) buf_st \<Rightarrow> (read_ptr, ('h, 'r) buf_st) outcome" where
  "ipcbuf_get_next_readable interrupt = (\<lambda>(id, r).
     if ipcbuf_eod (id, r) then Err 0 (id, r)
     else if state id \<noteq> IPCBUF_VIEWER \<and> state id \<noteq> IPCBUF_VIEWING then Err 0 (id, r)
     else
       let x = slot (r_xfers r 0);
           start_byte = s_byte r x;
           id = id\<lparr>xfer := r_xfers r 0 mod IPCBUF_XFERS,
                    viewbuf := least_r_buf (r_bufs r) 1 (n_readers r - 1) (r_bufs r 0)\<rparr>;
           i = max 1 (n_readers r)
       in if w_buf_curr r \<le> viewbuf id then
            (if interrupt then Err 0 (id, r) else Wait (id, r))
          else if nbufs r = 0 then Crash
          else
            let id = id\<lparr>state := IPCBUF_VIEWING\<rparr>
            in if eod r x \<and> i \<ge> IPCBUF_READERS then Crash
               else Done \<lparr>rp_block = block r (viewbuf id), rp_offset = start_byte,
                          rp_bytes = bytes_available i start_byte (id, r)\<rparr> (id, r))"

definition ipcbuf_mark_cleared :: "('h, 'r) buf_st \<Rightarrow> (unit, ('h, 'r) buf_st) outcome" where
  "ipcbuf_mark_cleared = (\<lambda>(id, r).
     let i = nat (iread id) in
     if state id \<noteq> IPCBUF_READING then Err (-1) (id, r)
     else andthen (ipc_semop (Data i IPCBUF_CLEAR) 1 0 (id, r)) (\<lambda>_ (id, r).
       let x = slot (xfer id)
       in if eod r x \<and> r_bufs r i = e_buf r x then
            ipc_semop (Data i IPCBUF_EODACK) 1 0
              (id\<lparr>state := IPCBUF_RSTOP, xfer := (r_xfers r i + 1) mod IPCBUF_XFERS\<rparr>,
               r\<lparr>r_states := (r_states r)(i := IPCBUF_RSTOP),
                 r_bufs := (r_bufs r)(i := r_bufs r i + 1),
                 r_xfers := (r_xfers r)(i := r_xfers r i + 1)\<rparr>)
          else Done () (id, r\<lparr>r_bufs := (r_bufs r)(i := r_bufs r i + 1)\<rparr>)))"

section \<open>Positions\<close>

definition ipcbuf_tell :: "u64 \<Rightarrow> ('h, 'r) buf_st \<Rightarrow> u64" where
  "ipcbuf_tell bufnum = (\<lambda>(id, r).
     let x = slot (xfer id)
     in if bufnum \<le> s_buf r x then 0
        else (bufnum - s_buf r x) * bufsz r - s_byte r x)"

text \<open>The result type is \<open>int64_t\<close>: the unsigned position is converted to a signed one.\<close>

definition ipcbuf_tell_write :: "('h, 'r) buf_st \<Rightarrow> int" where
  "ipcbuf_tell_write = (\<lambda>(id, r).
     if ipcbuf_eod (id, r) then -1
     else if \<not> ipcbuf_is_writer (id, r) then -1
     else sint (ipcbuf_tell (w_buf_curr r) (id, r)))"

definition ipcbuf_tell_read :: "('h, 'r) buf_st \<Rightarrow> int" where
  "ipcbuf_tell_read = (\<lambda>(id, r).
     if ipcbuf_eod (id, r) then -1
     else if state id = IPCBUF_READING then sint (ipcbuf_tell (r_bufs r (nat (iread id))) (id, r))
     else if state id = IPCBUF_VIEWING then sint (ipcbuf_tell (viewbuf id) (id, r))
     else 0)"

section \<open>Resets\<close>

text \<open>
  \<open>ipcbuf_reset\<close>: for a reader at end of data, back to waiting for the next transfer; for the
  writer, wait until every reader has cleared every buffer, then start again from buffer 0.
\<close>

fun reclaim_all :: "nat \<Rightarrow> nat \<Rightarrow> ('h, 'r) buf_st \<Rightarrow> (unit, ('h, 'r) buf_st) outcome" where
  "reclaim_all b 0 s = Done () s"
| "reclaim_all b (Suc n) s = andthen (reclaim b s) (\<lambda>_ s'. reclaim_all (Suc b) n s')"

definition reset_reader :: "nat \<Rightarrow> ('h, 'r) buf_st \<Rightarrow> (unit, ('h, 'r) buf_st) outcome" where
  "reset_reader i s =
     andthen (ipc_semop (Data i IPCBUF_SODACK) (-8) 0 s) (\<lambda>_ s.
     andthen (ipc_semop (Data i IPCBUF_EODACK) (-8) 0 s) (\<lambda>_ s.
     andthen (ipc_semop (Data i IPCBUF_SODACK) 8 0 s) (\<lambda>_ s.
     andthen (ipc_semop (Data i IPCBUF_EODACK) 8 0 s) (\<lambda>_ (id, r).
       Done () (id, r\<lparr>r_bufs := (r_bufs r)(i := 0), r_xfers := (r_xfers r)(i := 0)\<rparr>)))))"

definition ipcbuf_reset :: "('h, 'r) buf_st \<Rightarrow> (unit, ('h, 'r) buf_st) outcome" where
  "ipcbuf_reset = (\<lambda>(id, r).
     if state id = IPCBUF_RSTOP then
       Done () (id\<lparr>state := IPCBUF_READER\<rparr>,
                r\<lparr>r_states := (r_states r)(nat (iread id) := IPCBUF_READER)\<rparr>)
     else if \<not> ipcbuf_is_writer (id, r) then Err (-1) (id, r)
     else if w_buf_curr r = 0 \<and> w_buf_next r = 0 then Done () (id, r)
     else andthen (reclaim_all 0 (unat (nbufs r)) (id, r)) (\<lambda>_ (id, r).
          andthen (for_loop 0 (n_readers r) reset_reader (id, r)) (\<lambda>_ (id, r).
            Done () (id, r\<lparr>w_buf_curr := 0, w_buf_next := 0, w_xfer := 0,
                           eod := (\<lambda>x. if x < 8 then True else eod r x)\<rparr>))))"

definition ipcbuf_hard_reset :: "('h, 'r) buf_st \<Rightarrow> (unit, ('h, 'r) buf_st) outcome" where
  "ipcbuf_hard_reset = (\<lambda>(id, r).
     Done () (id, r\<lparr>w_buf_curr := 0, w_buf_next := 0, w_xfer := 0,
       eod := (\<lambda>x. if x < 8 then True else eod r x),
       r_bufs := (\<lambda>i. if i < n_readers r then 0 else r_bufs r i),
       r_xfers := (\<lambda>i. if i < n_readers r then 0 else r_xfers r i),
       sem_data := (\<lambda>i. if i < n_readers r
                        then (sem_data r i)(IPCBUF_FULL := 0, IPCBUF_CLEAR := 0)
                        else sem_data r i)\<rparr>))"

end
