(* ===== verification/Ipcbuf_Effects.thy ===== *)
theory Ipcbuf_Effects
  imports Ipcbuf_Reader
begin

text \<open>
  The effect of the functions of Ipcbuf_Writer and Ipcbuf_Reader where they return: what each
  does to the semaphores, counters and flags, written as one update of the ring, with the
  conditions under which it returned. The proofs about the ring in use rest on these.
\<close>

section \<open>Semaphores\<close>

lemma semop_value:
  "c \<noteq> 0 \<Longrightarrow> semop c fl v = Sem_value w \<longleftrightarrow>
     w = nat (int v + c) \<and> 0 \<le> int v + c \<and> (c > 0 \<longrightarrow> int v + c \<le> SEMVMX)"
  by (auto simp: semop_def split: if_splits)

text \<open>Add \<open>c\<close> to semaphore \<open>q\<close> of the readers from \<open>lo\<close> below \<open>hi\<close>.\<close>

definition add_at :: "nat \<Rightarrow> nat \<Rightarrow> data_sem \<Rightarrow> int \<Rightarrow> (nat \<Rightarrow> data_sem \<Rightarrow> nat) \<Rightarrow>
    nat \<Rightarrow> data_sem \<Rightarrow> nat" where
  "add_at lo hi q c f = (\<lambda>i k.
     if lo \<le> i \<and> i < hi \<and> k = q then nat (int (f i k) + c) else f i k)"

definition add_sem :: "nat \<Rightarrow> nat \<Rightarrow> data_sem \<Rightarrow> int \<Rightarrow> 'r ring_scheme \<Rightarrow> 'r ring_scheme" where
  "add_sem lo hi q c r = r\<lparr>sem_data := add_at lo hi q c (sem_data r)\<rparr>"

lemma add_sem_simps [simp]:
  "nbufs (add_sem lo hi q c r) = nbufs r" "bufsz (add_sem lo hi q c r) = bufsz r"
  "w_buf_next (add_sem lo hi q c r) = w_buf_next r"
  "w_buf_curr (add_sem lo hi q c r) = w_buf_curr r"
  "w_state (add_sem lo hi q c r) = w_state r" "w_xfer (add_sem lo hi q c r) = w_xfer r"
  "r_bufs (add_sem lo hi q c r) = r_bufs r" "r_states (add_sem lo hi q c r) = r_states r"
  "r_xfers (add_sem lo hi q c r) = r_xfers r" "n_readers (add_sem lo hi q c r) = n_readers r"
  "s_buf (add_sem lo hi q c r) = s_buf r" "s_byte (add_sem lo hi q c r) = s_byte r"
  "eod (add_sem lo hi q c r) = eod r" "e_buf (add_sem lo hi q c r) = e_buf r"
  "e_byte (add_sem lo hi q c r) = e_byte r" "count (add_sem lo hi q c r) = count r"
  "mem (add_sem lo hi q c r) = mem r" "sem_connect (add_sem lo hi q c r) = sem_connect r"
  "block (add_sem lo hi q c r) = block r"
  by (simp_all add: add_sem_def block_def fun_eq_iff)

text \<open>Changes of other fields move out of the change of the semaphores.\<close>

lemma add_sem_updates [simp]:
  "add_sem lo hi q c (r\<lparr>count := v1\<rparr>) = (add_sem lo hi q c r)\<lparr>count := v1\<rparr>"
  "add_sem lo hi q c (r\<lparr>eod := v2\<rparr>) = (add_sem lo hi q c r)\<lparr>eod := v2\<rparr>"
  "add_sem lo hi q c (r\<lparr>e_buf := v3\<rparr>) = (add_sem lo hi q c r)\<lparr>e_buf := v3\<rparr>"
  "add_sem lo hi q c (r\<lparr>e_byte := v4\<rparr>) = (add_sem lo hi q c r)\<lparr>e_byte := v4\<rparr>"
  "add_sem lo hi q c (r\<lparr>w_xfer := v5\<rparr>) = (add_sem lo hi q c r)\<lparr>w_xfer := v5\<rparr>"
  "add_sem lo hi q c (r\<lparr>w_state := v6\<rparr>) = (add_sem lo hi q c r)\<lparr>w_state := v6\<rparr>"
  "add_sem lo hi q c (r\<lparr>w_buf_curr := v7\<rparr>) = (add_sem lo hi q c r)\<lparr>w_buf_curr := v7\<rparr>"
  "add_sem lo hi q c (r\<lparr>w_buf_next := v8\<rparr>) = (add_sem lo hi q c r)\<lparr>w_buf_next := v8\<rparr>"
  "add_sem lo hi q c (r\<lparr>s_buf := v9\<rparr>) = (add_sem lo hi q c r)\<lparr>s_buf := v9\<rparr>"
  "add_sem lo hi q c (r\<lparr>s_byte := v10\<rparr>) = (add_sem lo hi q c r)\<lparr>s_byte := v10\<rparr>"
  "add_sem lo hi q c (r\<lparr>r_states := v11\<rparr>) = (add_sem lo hi q c r)\<lparr>r_states := v11\<rparr>"
  "add_sem lo hi q c (r\<lparr>r_bufs := v12\<rparr>) = (add_sem lo hi q c r)\<lparr>r_bufs := v12\<rparr>"
  "add_sem lo hi q c (r\<lparr>r_xfers := v13\<rparr>) = (add_sem lo hi q c r)\<lparr>r_xfers := v13\<rparr>"
  by (simp_all add: add_sem_def)

lemma sem_data_add_sem:
  "sem_data (add_sem lo hi q c r) i k =
     (if lo \<le> i \<and> i < hi \<and> k = q then nat (int (sem_data r i q) + c) else sem_data r i k)"
  by (simp add: add_sem_def add_at_def)

lemma sem_data_add_one:
  "sem_data (add_sem i (Suc i) q c r) j k =
     (if j = i \<and> k = q then nat (int (sem_data r j k) + c) else sem_data r j k)"
  by (simp add: sem_data_add_sem)

lemma add_sem_other [simp]: "j \<noteq> i \<Longrightarrow> sem_data (add_sem i (Suc i) q c r) j = sem_data r j"
  by (auto simp: sem_data_add_sem fun_eq_iff)

lemma add_at_trivial [simp]: "add_at lo lo q c f = f" "add_at lo hi q 0 f = f"
  by (auto simp: add_at_def fun_eq_iff)

lemma add_sem_trivial [simp]: "add_sem lo lo q c r = r" "add_sem lo hi q 0 r = r"
  by (simp_all add: add_sem_def)

lemma ipc_semop_Done:
  "ipc_semop sem c fl (h, r) = Done u s' \<longleftrightarrow>
     (\<exists>w. semop c fl (sem_get sem r) = Sem_value w \<and> s' = (h, sem_set sem w r))"
  by (auto simp: ipc_semop_def split: sem_result.splits)

lemma ipc_semop_Data:
  assumes "c \<noteq> 0"
  shows "ipc_semop (Data i q) c fl (h, r) = Done u s' \<longleftrightarrow>
    s' = (h, add_sem i (Suc i) q c r) \<and> 0 \<le> int (sem_data r i q) + c \<and>
    (c > 0 \<longrightarrow> int (sem_data r i q) + c \<le> SEMVMX)"
proof -
  have "add_at i (Suc i) q c f = f(i := (f i)(q := nat (int (f i q) + c)))" for f
    by (auto simp: add_at_def fun_eq_iff)
  then show ?thesis
    using assms by (auto simp: ipc_semop_Done add_sem_def semop_value)
qed

lemma ipc_semop_Conn:
  assumes "c \<noteq> 0"
  shows "ipc_semop (Conn k) c fl (h, r) = Done u s' \<longleftrightarrow>
    s' = (h, r\<lparr>sem_connect := (sem_connect r)(k := nat (int (sem_connect r k) + c))\<rparr>) \<and>
    0 \<le> int (sem_connect r k) + c \<and> (c > 0 \<longrightarrow> int (sem_connect r k) + c \<le> SEMVMX)"
  using assms by (auto simp: ipc_semop_Done semop_value)

lemma add_sem_Suc: "lo < hi \<Longrightarrow> add_sem (Suc lo) hi q c (add_sem lo (Suc lo) q c r) = add_sem lo hi q c r"
  (is "_ \<Longrightarrow> ?thesis")
proof -
  have "lo < hi \<Longrightarrow> add_at (Suc lo) hi q c (add_at lo (Suc lo) q c f) = add_at lo hi q c f" for f
    by (auto simp: add_at_def fun_eq_iff)
  then show "lo < hi \<Longrightarrow> ?thesis" by (simp add: add_sem_def)
qed

lemma add_sem_add_sem [simp]:
  assumes "\<forall>i < hi. 0 \<le> int (sem_data r i q) + c"
  shows "add_sem 0 hi q d (add_sem 0 hi q c r) = add_sem 0 hi q (c + d) r"
proof -
  have "add_at 0 hi q d (add_at 0 hi q c (sem_data r)) = add_at 0 hi q (c + d) (sem_data r)"
    using assms by (auto simp: add_at_def fun_eq_iff)
  then show ?thesis by (simp add: add_sem_def)
qed

text \<open>One semaphore operation per reader: all succeed, or the loop does not return.\<close>

lemma semop_loop:
  assumes "c \<noteq> 0"
  shows "for_loop lo n (\<lambda>i. ipc_semop (Data i q) c fl) (h, r) = Done u s' \<longleftrightarrow>
    s' = (h, add_sem lo (lo + n) q c r) \<and>
    (\<forall>i. lo \<le> i \<and> i < lo + n \<longrightarrow> 0 \<le> int (sem_data r i q) + c \<and>
       (c > 0 \<longrightarrow> int (sem_data r i q) + c \<le> SEMVMX))"
proof (induction n arbitrary: lo r)
  case 0
  then show ?case by auto
next
  case (Suc n)
  let ?ok = "\<lambda>r i. 0 \<le> int (sem_data r i q) + c \<and> (c > 0 \<longrightarrow> int (sem_data r i q) + c \<le> SEMVMX)"
  let ?r = "add_sem lo (Suc lo) q c r"
  have ok: "?ok ?r i = ?ok r i" if "Suc lo \<le> i" for i
    using that by (simp add: sem_data_add_sem)
  have "for_loop lo (Suc n) (\<lambda>i. ipc_semop (Data i q) c fl) (h, r) = Done u s' \<longleftrightarrow>
      ?ok r lo \<and> s' = (h, add_sem (Suc lo) (Suc lo + n) q c ?r) \<and>
      (\<forall>i. Suc lo \<le> i \<and> i < Suc lo + n \<longrightarrow> ?ok ?r i)"
    using ipc_semop_Data [OF assms, of lo q fl h r "()" "(h, ?r)"] Suc.IH [of "Suc lo" ?r]
    by (auto simp: outcome_simps ipc_semop_Data [OF assms])
  also have "\<dots> \<longleftrightarrow> s' = (h, add_sem lo (lo + Suc n) q c r) \<and>
      ?ok r lo \<and> (\<forall>i. Suc lo \<le> i \<and> i < Suc lo + n \<longrightarrow> ?ok r i)"
    using ok by (simp add: add_sem_Suc cong: conj_cong) blast
  also have "(?ok r lo \<and> (\<forall>i. Suc lo \<le> i \<and> i < Suc lo + n \<longrightarrow> ?ok r i)) \<longleftrightarrow>
      (\<forall>i. lo \<le> i \<and> i < lo + Suc n \<longrightarrow> ?ok r i)"
    by (rule all_interval_Suc [symmetric])
  finally show ?case .
qed

lemmas semop_loop0 = semop_loop [where lo = 0, simplified]

lemma for_loop_skip [simp]: "for_loop lo n (\<lambda>i s. Done () s) s = Done () s"
  by (induction n arbitrary: lo) auto

section \<open>The writer\<close>

lemma enable_sod_at_curr:
  assumes "ipcbuf_enable_sod (w_buf_curr r) 0 (h, r) = Done u s'"
  shows "\<forall>i < n_readers r. 1 \<le> sem_data r i IPCBUF_SODACK"
    and "s' = (h\<lparr>xfer := w_xfer r mod IPCBUF_XFERS, state := IPCBUF_WRITING\<rparr>,
      (add_sem 0 (n_readers r) IPCBUF_SODACK (-1) r)
        \<lparr>w_state := IPCBUF_WRITING, s_buf := (s_buf r)(slot (w_xfer r) := w_buf_curr r),
         s_byte := (s_byte r)(slot (w_xfer r) := 0),
         eod := (if w_buf_curr r = 0 then (eod r)(slot (w_xfer r) := False) else eod r)\<rparr>)"
  using assms
  by (auto simp: ipcbuf_enable_sod_def outcome_simps semop_loop0 Let_def
        bump_counts.simps [of _ "w_buf_curr r"] split: if_splits)

lemma reclaim_loop_Done:
  "reclaim_loop k b (h, r) = Done u s' \<longleftrightarrow>
     s' = (h, (add_sem 0 (n_readers r) IPCBUF_CLEAR (- int k) r)
                \<lparr>count := (count r)(b := count r b - of_nat k)\<rparr>) \<and>
     (\<forall>i < n_readers r. k \<le> sem_data r i IPCBUF_CLEAR)"
proof (induction k arbitrary: r)
  case 0
  then show ?case by auto
next
  case (Suc k)
  let ?r = "add_sem 0 (n_readers r) IPCBUF_CLEAR (-1) r"
  let ?r1 = "?r\<lparr>count := (count ?r)(b := count ?r b - 1)\<rparr>"
  have "reclaim_loop (Suc k) b (h, r) = Done u s' \<longleftrightarrow>
      (\<forall>i < n_readers r. 1 \<le> sem_data r i IPCBUF_CLEAR) \<and> reclaim_loop k b (h, ?r1) = Done u s'"
    by (auto simp: outcome_simps wait_clear_def semop_loop0)
  moreover have "(add_sem 0 (n_readers ?r1) IPCBUF_CLEAR (- int k) ?r1)
        \<lparr>count := (count ?r1)(b := count ?r1 b - of_nat k)\<rparr> =
      (add_sem 0 (n_readers r) IPCBUF_CLEAR (- int (Suc k)) r)
        \<lparr>count := (count r)(b := count r b - of_nat (Suc k))\<rparr>"
    if "\<forall>i < n_readers r. 1 \<le> sem_data r i IPCBUF_CLEAR"
    using that by (simp add: algebra_simps)
  moreover have "(\<forall>i < n_readers r. k \<le> sem_data ?r1 i IPCBUF_CLEAR) \<longleftrightarrow>
      (\<forall>i < n_readers r. Suc k \<le> sem_data r i IPCBUF_CLEAR)"
    if pos: "\<forall>i < n_readers r. 1 \<le> sem_data r i IPCBUF_CLEAR"
  proof -
    have "k \<le> sem_data ?r1 i IPCBUF_CLEAR \<longleftrightarrow> Suc k \<le> sem_data r i IPCBUF_CLEAR"
      if "i < n_readers r" for i
    proof -
      from pos that have "1 \<le> sem_data r i IPCBUF_CLEAR" by blast
      with that show ?thesis by (simp add: sem_data_add_sem) arith
    qed
    then show ?thesis by blast
  qed
  moreover have "(\<forall>i < n_readers r. Suc k \<le> sem_data r i IPCBUF_CLEAR) \<Longrightarrow>
      (\<forall>i < n_readers r. 1 \<le> sem_data r i IPCBUF_CLEAR)"
    by fastforce
  moreover have "n_readers ?r1 = n_readers r" by simp
  ultimately show ?case
    using Suc.IH [of ?r1]
    by (cases "\<forall>i < n_readers r. 1 \<le> sem_data r i IPCBUF_CLEAR") (simp_all only: simp_thms, blast+)
qed

lemma reclaim_Done:
  "reclaim b (h, r) = Done u s' \<longleftrightarrow>
     s' = (h, (add_sem 0 (n_readers r) IPCBUF_CLEAR (- int (unat (count r b))) r)
                \<lparr>count := (count r)(b := 0)\<rparr>) \<and>
     (\<forall>i < n_readers r. unat (count r b) \<le> sem_data r i IPCBUF_CLEAR)"
  by (simp add: reclaim_def reclaim_loop_Done)

text \<open>The loop of \<open>ipcbuf_get_next_write\<close> as written: while the count is not 0, take a clear
  from every reader and decrement it.\<close>

lemma reclaim_unfold:
  "reclaim b (h, r) =
     (if count r b = 0 then Done () (h, r)
      else andthen (wait_clear (h, r)) (\<lambda>_ (h, r).
             reclaim b (h, r\<lparr>count := (count r)(b := count r b - 1)\<rparr>)))"
proof (cases "count r b = 0")
  case False
  then obtain k where k: "unat (count r b) = Suc k"
    by (metis not0_implies_Suc unat_eq_zero)
  have "wait_clear (h, r) = Done () s' \<Longrightarrow> unat (count (snd s') b - 1) = k \<and> fst s' = h" for s'
    using k False by (auto simp: wait_clear_def semop_loop0 unat_minus_one)
  with False k show ?thesis
    by (cases "wait_clear (h, r)") (auto simp: reclaim_def)
qed (simp add: reclaim_def)

lemma get_next_write_Done:
  assumes "ipcbuf_get_next_write (h, r) = Done b s'"
  obtains h' r' where
    "ipcbuf_is_writer (h, r)"
    "(h', r') = (h, r) \<and> state h \<noteq> IPCBUF_WCHANGE \<or>
     state h = IPCBUF_WCHANGE \<and> ipcbuf_enable_sod (w_buf_curr r) 0 (h, r) = Done () (h', r')"
    "nbufs r' \<noteq> 0" "b = block r' (w_buf_next r')"
    "\<forall>i < n_readers r'. unat (count r' b) \<le> sem_data r' i IPCBUF_CLEAR"
    "s' = (h', (add_sem 0 (n_readers r') IPCBUF_CLEAR (- int (unat (count r' b))) r')
                 \<lparr>count := (count r')(b := 0), w_buf_next := w_buf_next r' + 1\<rparr>)"
  using assms
  by (auto simp: ipcbuf_get_next_write_def outcome_simps reclaim_Done Let_def split: if_splits)

lemma mark_filled_Done:
  assumes "ipcbuf_mark_filled n (h, r) = Done u s'" and "state h \<noteq> IPCBUF_WRITER" and "n \<noteq> 0"
  defines "x \<equiv> slot (xfer h)"
    and "b \<equiv> block r (w_buf_curr r)"
    and "m \<equiv> n_readers r"
  shows "ipcbuf_is_writer (h, r)" "nbufs r \<noteq> 0"
    and "state h = IPCBUF_WCHANGE \<or> n < bufsz r \<Longrightarrow>
       (\<forall>i < m. 1 \<le> sem_data r i IPCBUF_EODACK) \<and>
       s' = (h\<lparr>xfer := (w_xfer r + 1) mod IPCBUF_XFERS, state := IPCBUF_WRITER\<rparr>,
         add_sem 0 m IPCBUF_FULL 1 (add_sem 0 m IPCBUF_EODACK (-1)
           (r\<lparr>e_buf := (e_buf r)(x := w_buf_curr r), e_byte := (e_byte r)(x := n),
              eod := (eod r)(x := True), w_xfer := w_xfer r + 1, w_state := IPCBUF_WRITER,
              count := (count r)(b := count r b + 1), w_buf_curr := w_buf_curr r + 1\<rparr>)))"
    and "\<not> (state h = IPCBUF_WCHANGE \<or> n < bufsz r) \<Longrightarrow>
       s' = (h, add_sem 0 m IPCBUF_FULL 1
         (r\<lparr>count := (count r)(b := count r b + 1), w_buf_curr := w_buf_curr r + 1\<rparr>))"
  using assms
  by (auto simp: ipcbuf_mark_filled_def outcome_simps semop_loop0 Let_def block_def
      split: if_splits)

section \<open>A reader\<close>

lemma get_next_read_Done:
  assumes "ipcbuf_get_next_read (h, r) = Done p s'" and "ipcbuf_is_reader (h, r)"
  defines "i \<equiv> nat (iread h)"
    and "x \<equiv> slot (r_xfers r (nat (iread h)))"
  shows "state h \<noteq> IPCBUF_RSTOP" "nbufs r \<noteq> 0" "1 \<le> sem_data r i IPCBUF_FULL"
    and "state h = IPCBUF_READING \<Longrightarrow>
      s' = (h, add_sem i (Suc i) IPCBUF_FULL (-1) r) \<and>
      p = \<lparr>rp_block = block r (r_bufs r i), rp_offset = 0,
           rp_bytes = bytes_available i 0 (h, r)\<rparr>"
    and "state h = IPCBUF_READER \<Longrightarrow>
      s' = (h\<lparr>state := IPCBUF_READING, xfer := r_xfers r i mod IPCBUF_XFERS\<rparr>,
        (add_sem i (Suc i) IPCBUF_SODACK 1 (add_sem i (Suc i) IPCBUF_FULL (-1) r))
          \<lparr>r_bufs := (r_bufs r)(i := s_buf r x),
           r_states := (r_states r)(i := IPCBUF_READING)\<rparr>) \<and>
      p = \<lparr>rp_block = block r (s_buf r x), rp_offset = s_byte r x,
           rp_bytes = bytes_available i (s_byte r x) s'\<rparr>"
  using assms
  by (auto simp: ipcbuf_get_next_read_def ipcbuf_get_next_read_work_def ipcbuf_eod_def
      ipcbuf_is_reader_def get_next_read_reader_def outcome_simps ipc_semop_Data Let_def
      bytes_available_def block_def split: if_splits)

lemma mark_cleared_Done:
  assumes "ipcbuf_mark_cleared (h, r) = Done u s'"
  defines "i \<equiv> nat (iread h)"
    and "x \<equiv> slot (xfer h)"
  shows "state h = IPCBUF_READING"
    and "\<not> (eod r x \<and> r_bufs r i = e_buf r x) \<Longrightarrow>
      s' = (h, (add_sem i (Suc i) IPCBUF_CLEAR 1 r)
                 \<lparr>r_bufs := (r_bufs r)(i := r_bufs r i + 1)\<rparr>)"
    and "eod r x \<and> r_bufs r i = e_buf r x \<Longrightarrow>
      s' = (h\<lparr>state := IPCBUF_RSTOP, xfer := (r_xfers r i + 1) mod IPCBUF_XFERS\<rparr>,
        (add_sem i (Suc i) IPCBUF_EODACK 1 (add_sem i (Suc i) IPCBUF_CLEAR 1 r))
          \<lparr>r_states := (r_states r)(i := IPCBUF_RSTOP),
           r_bufs := (r_bufs r)(i := r_bufs r i + 1),
           r_xfers := (r_xfers r)(i := r_xfers r i + 1)\<rparr>)"
  using assms
  by (auto simp: ipcbuf_mark_cleared_def outcome_simps ipc_semop_Data Let_def split: if_splits)

end
