(* ===== verification/Step_Systems.thy ===== *)
theory Step_Systems
  imports Main
begin

text \<open>
  Systems that make steps: runs, and the two interfaces between a step relation and what is
  proved of it, an invariant every step keeps and a simulation by the step relation of a
  specification.
\<close>

inductive run :: "('s \<Rightarrow> 'e \<Rightarrow> 's \<Rightarrow> bool) \<Rightarrow> 's \<Rightarrow> 'e list \<Rightarrow> 's \<Rightarrow> bool"
  for step :: "'s \<Rightarrow> 'e \<Rightarrow> 's \<Rightarrow> bool" and s :: 's where
  run_Nil: "run step s [] s"
| run_snoc: "run step s es t \<Longrightarrow> step t e u \<Longrightarrow> run step s (es @ [e]) u"

inductive_cases run_NilE [elim!]: "run step s [] t"
inductive_cases run_snocE: "run step s (es @ [e]) u"

lemma run_Cons: "step s e t \<Longrightarrow> run step t es u \<Longrightarrow> run step s (e # es) u"
proof (rotate_tac, induction rule: run.induct)
  case run_Nil
  then show ?case using run.run_snoc [OF run.run_Nil, of step s e t] by simp
next
  case (run_snoc es t' e' u)
  then show ?case using run.run_snoc [of step s "e # es" t' e' u] by simp
qed

lemma run_two: "step s e t \<Longrightarrow> step t f u \<Longrightarrow> run step s [e, f] u"
  by (rule run_Cons, assumption, rule run_Cons, assumption, rule run.run_Nil)

locale invariant_system =
  fixes step :: "'s \<Rightarrow> 'e \<Rightarrow> 's \<Rightarrow> bool" and inv :: "'s \<Rightarrow> bool"
  assumes step_inv: "inv s \<Longrightarrow> step s e t \<Longrightarrow> inv t"
begin

lemma run_inv: "run step s es t \<Longrightarrow> inv s \<Longrightarrow> inv t"
  by (induction rule: run.induct) (auto intro: step_inv)

end

locale forward_simulation =
  fixes cstep :: "'c \<Rightarrow> 'e \<Rightarrow> 'c \<Rightarrow> bool" and astep :: "'a \<Rightarrow> 'e \<Rightarrow> 'a \<Rightarrow> bool"
    and rel :: "'c \<Rightarrow> 'a \<Rightarrow> bool"
  assumes simulates: "rel c a \<Longrightarrow> cstep c e c' \<Longrightarrow> \<exists>a'. astep a e a' \<and> rel c' a'"
begin

lemma run_simulates: "run cstep c es c' \<Longrightarrow> rel c a \<Longrightarrow> \<exists>a'. run astep a es a' \<and> rel c' a'"
proof (induction rule: run.induct)
  case run_Nil
  then show ?case by (auto intro: run.run_Nil)
next
  case (run_snoc es t e u)
  then obtain a' where "run astep a es a'" "rel t a'" by blast
  moreover from simulates [OF this(2) run_snoc.hyps(2)]
  obtain a'' where "astep a' e a''" "rel u a''" by blast
  ultimately show ?case by (auto intro: run.run_snoc)
qed

lemma invariant_system_image: "invariant_system cstep (\<lambda>c. \<exists>a. rel c a)"
  by (rule invariant_system.intro) (metis simulates)

end

end
