(* ===== verification/Ring_Spec.thy ===== *)
theory Ring_Spec
  imports Dada_Prelude Step_Systems "HOL-Library.Sublist"
begin

text \<open>
  What a ring promises its clients: a stream of blocks. The writer appends blocks of bytes,
  some of them marked as the last of a transfer; every reader receives all of them, in order,
  each once, and learns which ones end a transfer.
\<close>

section \<open>The stream of blocks\<close>

text \<open>
  Events of a ring in use. \<open>Opened b\<close>: the writer received sub-block \<open>b\<close> to fill.
  \<open>Posted d l\<close>: it declared a block filled with the bytes \<open>d\<close>, the last of a transfer if \<open>l\<close>.
  \<open>Took i d\<close>: reader \<open>i\<close> received a block holding \<open>d\<close>. \<open>Cleared i l\<close>: it released that block
  and, if \<open>l\<close>, was told of the end of the transfer. \<open>Internal\<close>: anything no client sees.
\<close>

datatype ring_event =
    Opened nat | Posted "u8 list" bool | Took nat "u8 list" | Cleared nat bool | Internal

record stream =
  posted :: "(u8 list \<times> bool) list"
  got :: "nat \<Rightarrow> nat"
  holding :: "nat \<Rightarrow> bool"

definition empty_stream :: stream where
  "empty_stream = \<lparr>posted = [], got = (\<lambda>_. 0), holding = (\<lambda>_. False)\<rparr>"

inductive stream_step :: "stream \<Rightarrow> ring_event \<Rightarrow> stream \<Rightarrow> bool" where
  opened: "stream_step a (Opened b) a"
| internal: "stream_step a Internal a"
| posted: "stream_step a (Posted d l) (a\<lparr>posted := posted a @ [(d, l)]\<rparr>)"
| took: "\<not> holding a i \<Longrightarrow> got a i < length (posted a) \<Longrightarrow> d = fst (posted a ! got a i) \<Longrightarrow>
    stream_step a (Took i d) (a\<lparr>holding := (holding a)(i := True)\<rparr>)"
| cleared: "holding a i \<Longrightarrow> l = snd (posted a ! got a i) \<Longrightarrow>
    stream_step a (Cleared i l)
      (a\<lparr>got := (got a)(i := Suc (got a i)), holding := (holding a)(i := False)\<rparr>)"

inductive_cases stream_PostedE: "stream_step a (Posted d l) a'"
inductive_cases stream_TookE: "stream_step a (Took i d) a'"
inductive_cases stream_ClearedE: "stream_step a (Cleared i l) a'"

text \<open>What the writer sent and what reader \<open>i\<close> received in a list of events.\<close>

fun sent :: "ring_event list \<Rightarrow> u8 list list" where
  "sent [] = []"
| "sent (Posted d l # es) = d # sent es"
| "sent (e # es) = sent es"

fun received :: "nat \<Rightarrow> ring_event list \<Rightarrow> u8 list list" where
  "received i [] = []"
| "received i (Took j d # es) = (if i = j then d # received i es else received i es)"
| "received i (e # es) = received i es"

text \<open>Which of the blocks sent, and of the blocks reader \<open>i\<close> released, ended a transfer.\<close>

fun sent_marks :: "ring_event list \<Rightarrow> bool list" where
  "sent_marks [] = []"
| "sent_marks (Posted d l # es) = l # sent_marks es"
| "sent_marks (e # es) = sent_marks es"

fun cleared_marks :: "nat \<Rightarrow> ring_event list \<Rightarrow> bool list" where
  "cleared_marks i [] = []"
| "cleared_marks i (Cleared j l # es) =
     (if i = j then l # cleared_marks i es else cleared_marks i es)"
| "cleared_marks i (e # es) = cleared_marks i es"

lemma sent_append [simp]: "sent (es @ fs) = sent es @ sent fs"
  by (induction es rule: sent.induct) auto

lemma received_append [simp]: "received i (es @ fs) = received i es @ received i fs"
  by (induction i es rule: received.induct) auto

lemma sent_marks_append [simp]: "sent_marks (es @ fs) = sent_marks es @ sent_marks fs"
  by (induction es rule: sent_marks.induct) auto

lemma cleared_marks_append [simp]:
  "cleared_marks i (es @ fs) = cleared_marks i es @ cleared_marks i fs"
  by (induction i es rule: cleared_marks.induct) auto

lemma length_sent_marks [simp]: "length (sent_marks es) = length (sent es)"
  by (induction es rule: sent_marks.induct) auto

definition stream_ok :: "ring_event list \<Rightarrow> stream \<Rightarrow> bool" where
  "stream_ok es a \<longleftrightarrow> map fst (posted a) = sent es \<and> map snd (posted a) = sent_marks es \<and>
     (\<forall>i. got a i + (if holding a i then 1 else 0) \<le> length (posted a) \<and>
          received i es = take (got a i + (if holding a i then 1 else 0)) (sent es) \<and>
          cleared_marks i es = take (got a i) (sent_marks es))"

lemma stream_ok_step: "stream_step a e a' \<Longrightarrow> stream_ok es a \<Longrightarrow> stream_ok (es @ [e]) a'"
proof (induction rule: stream_step.induct)
  case (took a i d)
  then have s: "sent es = map fst (posted a)" by (simp add: stream_ok_def)
  have "take (Suc (got a i)) (sent es) = take (got a i) (sent es) @ [d]"
    using took by (simp add: s take_Suc_conv_app_nth)
  with took show ?case by (auto simp: stream_ok_def)
next
  case (posted a d l)
  then have s: "sent es = map fst (stream.posted a)" "sent_marks es = map snd (stream.posted a)"
    by (simp_all add: stream_ok_def)
  have "got a j \<le> length (stream.posted a)" for j
    using posted by (auto simp: stream_ok_def dest: spec [of _ j] intro: order_trans [OF le_add1])
  with posted show ?case by (auto simp: stream_ok_def s le_SucI)
next
  case (cleared a i l)
  let ?a = "a\<lparr>got := (got a)(i := Suc (got a i)), holding := (holding a)(i := False)\<rparr>"
  have g: "got ?a j + (if holding ?a j then 1 else 0) = got a j + (if holding a j then 1 else 0)" for j
    using cleared.hyps by simp
  have s: "sent_marks es = map snd (stream.posted a)" and len: "got a i < length (stream.posted a)"
    using cleared by (auto simp: stream_ok_def dest!: spec [of _ i])
  have "take (Suc (got a i)) (sent_marks es) = take (got a i) (sent_marks es) @ [l]"
    using cleared.hyps len by (simp add: s take_Suc_conv_app_nth)
  with cleared.prems g show ?case unfolding stream_ok_def by simp
qed (auto simp: stream_ok_def)

lemma stream_run_ok: "run stream_step empty_stream es a \<Longrightarrow> stream_ok es a"
proof (induction rule: run.induct)
  case run_Nil
  show ?case by (simp add: stream_ok_def empty_stream_def)
qed (auto intro: stream_ok_step)

text \<open>Every reader receives, in order and each once, a prefix of the blocks sent.\<close>

lemma stream_okD:
  assumes "stream_ok es a"
  shows "prefix (received i es) (sent es)" "prefix (cleared_marks i es) (sent_marks es)"
    "got a i = length (cleared_marks i es)" "length (posted a) = length (sent es)"
proof -
  have a: "map fst (posted a) = sent es" "map snd (posted a) = sent_marks es"
    "got a i + (if holding a i then 1 else 0) \<le> length (posted a)"
    "received i es = take (got a i + (if holding a i then 1 else 0)) (sent es)"
    "cleared_marks i es = take (got a i) (sent_marks es)"
    using assms by (auto simp: stream_ok_def)
  show "prefix (received i es) (sent es)" "prefix (cleared_marks i es) (sent_marks es)"
    using a by (simp_all add: take_is_prefix)
  show len: "length (posted a) = length (sent es)" using a(1) by (metis length_map)
  show "got a i = length (cleared_marks i es)" using a(3,5) len by (auto split: if_splits)
qed

end
