(* ===== verification/Transfer_Log.thy ===== *)
theory Transfer_Log
  imports Ring_Spec
begin

text \<open>
  The list of posted blocks, read as a sequence of transfers: how many transfers end before a
  position, and which positions start one. Blocks of a window no longer than the ring occupy
  different places of it.
\<close>

type_synonym log = "(u8 list \<times> bool) list"

text \<open>The number of transfers that end before position \<open>p\<close>.\<close>

definition ends :: "log \<Rightarrow> nat \<Rightarrow> nat" where
  "ends P p = length (filter snd (take p P))"

text \<open>Position \<open>p\<close> is the first of a transfer.\<close>

definition boundary :: "log \<Rightarrow> nat \<Rightarrow> bool" where
  "boundary P p \<longleftrightarrow> p = 0 \<or> snd (P ! (p - 1))"

lemma ends_0 [simp]: "ends P 0 = 0"
  by (simp add: ends_def)

lemma ends_Suc: "p < length P \<Longrightarrow> ends P (Suc p) = ends P p + (if snd (P ! p) then 1 else 0)"
  by (simp add: ends_def take_Suc_conv_app_nth)

lemma ends_append [simp]: "p \<le> length P \<Longrightarrow> ends (P @ [e]) p = ends P p"
  by (simp add: ends_def)

lemma ends_snoc [simp]:
  "ends (P @ [e]) (Suc (length P)) = ends P (length P) + (if snd e then 1 else 0)"
  by (simp add: ends_def)

lemma ends_mono: "p \<le> q \<Longrightarrow> ends P p \<le> ends P q"
proof -
  assume "p \<le> q"
  then have "take q P = take p P @ take (q - p) (drop p P)"
    by (metis le_add_diff_inverse take_add)
  then show ?thesis by (simp add: ends_def)
qed

lemma ends_le: "ends P p \<le> p"
  unfolding ends_def by (rule order_trans [OF length_filter_le]) simp

lemma boundary_0 [simp]: "boundary P 0"
  by (simp add: boundary_def)

lemma boundary_Suc [simp]: "boundary P (Suc p) = snd (P ! p)"
  by (simp add: boundary_def)

lemma boundary_append [simp]: "p \<le> length P \<Longrightarrow> boundary (P @ [e]) p = boundary P p"
  by (cases p) (auto simp: nth_append)

lemma boundary_snoc [simp]: "boundary (P @ [e]) (Suc (length P)) = snd e"
  by simp

text \<open>A boundary after \<open>p\<close> means that the transfer \<open>p\<close> is in has ended.\<close>

lemma ends_less_boundary:
  assumes "p < q" and "q \<le> length P" and "boundary P q"
  shows "ends P p < ends P q"
proof -
  obtain q' where q: "q = Suc q'" using \<open>p < q\<close> by (cases q) auto
  with assms have "ends P q = Suc (ends P q')" by (simp add: ends_Suc)
  moreover have "ends P p \<le> ends P q'" using q \<open>p < q\<close> by (intro ends_mono) simp
  ultimately show ?thesis by simp
qed

lemma boundary_unique:
  assumes "boundary P p" "boundary P q" "ends P p = ends P q" "p \<le> length P" "q \<le> length P"
  shows "p = q"
  using assms ends_less_boundary [of p q P] ends_less_boundary [of q p P]
  by (cases p q rule: linorder_cases) auto

text \<open>A transfer that ended before \<open>q\<close> has a last block.\<close>

lemma last_block:
  assumes "ends P p < ends P q" and "q \<le> length P"
  obtains e where "p \<le> e" "e < q" "snd (P ! e)" "ends P e = ends P p"
  using assms
proof (induction q arbitrary: thesis)
  case (Suc q)
  then have q: "q < length P" by simp
  show thesis
  proof (cases "ends P p < ends P q")
    case True
    with Suc.IH q obtain e where "p \<le> e" "e < q" "snd (P ! e)" "ends P e = ends P p" by auto
    with Suc.prems(1) show thesis by auto
  next
    case False
    from Suc.prems(2) have "p < Suc q"
      using ends_mono [of "Suc q" p P] by (cases "p < Suc q") auto
    then have "ends P p = ends P q"
      using False ends_mono [of p q P] by simp
    moreover from this have "snd (P ! q)"
      using Suc.prems(2) q by (simp add: ends_Suc split: if_splits)
    ultimately show thesis using Suc.prems(1) [of q] \<open>p < Suc q\<close> by simp
  qed
qed simp

text \<open>The last block of a transfer is unique.\<close>

lemma last_block_unique:
  assumes "snd (P ! p)" "snd (P ! q)" "ends P p = ends P q" "p < length P" "q < length P"
  shows "p = q"
proof -
  have "ends P (Suc p) = ends P (Suc q)" using assms by (simp add: ends_Suc)
  then have "Suc p = Suc q"
    using boundary_unique [of P "Suc p" "Suc q"] assms by simp
  then show ?thesis by simp
qed

section \<open>Places in the ring\<close>

lemma place_inj_le:
  fixes p q :: nat
  assumes "p \<le> q" and "q mod n = p mod n" and "q < p + n"
  shows "p = q"
proof -
  from assms(2) have "n dvd q - p" using mod_eq_dvd_iff_nat [OF assms(1)] by blast
  moreover from assms have "q - p < n" by linarith
  ultimately have "q - p = 0" by (meson nat_dvd_not_less neq0_conv)
  with \<open>p \<le> q\<close> show ?thesis by simp
qed

lemma place_inj:
  fixes p q :: nat
  assumes "p mod n = q mod n" and "p < q + n" and "q < p + n"
  shows "p = q"
  using place_inj_le [of p q n] place_inj_le [of q p n] assms by (metis nat_le_linear)

text \<open>Place \<open>b\<close> of a ring of \<open>n\<close> holds a block of the window from \<open>lo\<close> below \<open>hi\<close>.\<close>

definition occupied :: "nat \<Rightarrow> nat \<Rightarrow> nat \<Rightarrow> nat \<Rightarrow> bool" where
  "occupied n lo hi b \<longleftrightarrow> (\<exists>p \<in> {lo..<hi}. p mod n = b)"

lemma occupied_Suc_hi:
  "lo \<le> hi \<Longrightarrow> occupied n lo (Suc hi) b \<longleftrightarrow> occupied n lo hi b \<or> hi mod n = b"
  by (auto simp: occupied_def atLeastLessThanSuc)

lemma not_occupied_next:
  "hi < lo + n \<Longrightarrow> \<not> occupied n lo hi (hi mod n)"
  by (auto simp: occupied_def dest: place_inj)

lemma occupied_drop_first:
  assumes "lo < hi" and "hi \<le> lo + n"
  shows "occupied n (Suc lo) hi b \<longleftrightarrow> occupied n lo hi b \<and> b \<noteq> lo mod n"
proof -
  have "{lo..<hi} = insert lo {Suc lo..<hi}" using \<open>lo < hi\<close> by auto
  moreover have "p mod n \<noteq> lo mod n" if "p \<in> {Suc lo..<hi}" for p
    using that assms place_inj [of p n lo] by auto
  ultimately show ?thesis by (auto simp: occupied_def)
qed

end
