(* ===== verification/Ring_System.thy ===== *)
theory Ring_System
  imports Ipcbuf_Effects Transfer_Log
begin

text \<open>
  A ring in use: one writer and \<open>n_readers\<close> readers that call the functions of src/ipcbuf.c in
  any interleaving, each call one step. \<open>ring_exec\<close> performs one call if the caller's side of
  the protocol allows it and the call returns; \<open>ring_rel\<close> relates the shared memory, the
  semaphores and the handles to the stream of blocks of Ring_Spec; the lemmas prove that every
  call is a step of the stream.
\<close>

section \<open>The system\<close>

record 'h sys =
  wr :: "'h ipcbuf_scheme"
  rd :: "nat \<Rightarrow> 'h ipcbuf_scheme"
  rg :: ring
  holds :: "nat \<Rightarrow> bool"

text \<open>
  The calls: the writer opens the next sub-block, stores bytes in an open one, zeroes the next
  one, marks the oldest open one filled, announces the end of data, starts a new transfer; reader
  \<open>i\<close> takes the next block, releases it, acknowledges the end of a transfer.
\<close>

datatype action =
    Open | Store nat "u8 list" | Zero | Fill u64 | End_of_data | Relock
  | Take nat | Clear nat | Ack nat

fun returned :: "('a, 's) outcome \<Rightarrow> ('a \<times> 's) option" where
  "returned (Done a s) = Some (a, s)"
| "returned (Err c s) = None"
| "returned (Wait s) = None"
| "returned Crash = None"

text \<open>
  The writer's side of the protocol: it opens a block while a transfer is in progress or to
  start one, never more than the ring has; it stores only in blocks it opened; it marks a
  block filled after opening it, and ends a transfer with its last open block; it starts a new
  transfer only after the end of the previous one.
\<close>

definition may_open :: "('h, 'r) buf_st \<Rightarrow> bool" where
  "may_open = (\<lambda>(h, r).
     (state h = IPCBUF_WRITING \<or> state h = IPCBUF_WCHANGE \<and> w_buf_next r = w_buf_curr r) \<and>
     unat (w_buf_next r) < unat (w_buf_curr r) + unat (nbufs r) \<and> w_buf_next r < - 1)"

definition may_store :: "nat \<Rightarrow> u8 list \<Rightarrow> 'r ring_scheme \<Rightarrow> bool" where
  "may_store b d r \<longleftrightarrow>
     b \<in> set (map (\<lambda>p. p mod unat (nbufs r)) [unat (w_buf_curr r)..<unat (w_buf_next r)]) \<and>
     length d = unat (bufsz r)"

definition may_fill :: "u64 \<Rightarrow> ('h, 'r) buf_st \<Rightarrow> bool" where
  "may_fill n = (\<lambda>(h, r).
     w_buf_curr r < w_buf_next r \<and> 0 < n \<and> n \<le> bufsz r \<and>
     (state h = IPCBUF_WRITING \<and> n = bufsz r \<or>
      (state h = IPCBUF_WRITING \<or> state h = IPCBUF_WCHANGE) \<and> w_buf_next r = w_buf_curr r + 1))"

definition may_end :: "('h, 'r) buf_st \<Rightarrow> bool" where
  "may_end = (\<lambda>(h, r). state h = IPCBUF_WRITING \<and> w_buf_curr r < w_buf_next r \<and>
     w_buf_next r = w_buf_curr r + 1)"

text \<open>The bytes a reader finds at the address, and in the number, it received.\<close>

definition read_bytes :: "read_ptr \<Rightarrow> 'r ring_scheme \<Rightarrow> u8 list" where
  "read_bytes p r = take (unat (rp_bytes p)) (drop (unat (rp_offset p)) (mem r (rp_block p)))"

fun ring_exec :: "action \<Rightarrow> 'h sys \<Rightarrow> (ring_event \<times> 'h sys) option" where
  "ring_exec Open s =
    (if may_open (wr s, rg s) then
       case returned (ipcbuf_get_next_write (wr s, rg s)) of
         Some (b, h, r) \<Rightarrow> Some (Opened b, s\<lparr>wr := h, rg := r\<rparr>)
       | None \<Rightarrow> None
     else None)"
| "ring_exec (Store b d) s =
    (if may_store b d (rg s) then Some (Internal, s\<lparr>rg := (rg s)\<lparr>mem := (mem (rg s))(b := d)\<rparr>\<rparr>)
     else None)"
| "ring_exec Zero s =
    (case returned (ipcbuf_zero_next_write (wr s, rg s)) of
       Some (u, h, r) \<Rightarrow> Some (Internal, s\<lparr>wr := h, rg := r\<rparr>)
     | None \<Rightarrow> None)"
| "ring_exec (Fill n) s =
    (if may_fill n (wr s, rg s) then
       case returned (ipcbuf_mark_filled n (wr s, rg s)) of
         Some (u, h, r) \<Rightarrow>
           Some (Posted (take (unat n) (mem (rg s) (block (rg s) (w_buf_curr (rg s)))))
                   (state (wr s) = IPCBUF_WCHANGE \<or> n < bufsz (rg s)),
                 s\<lparr>wr := h, rg := r\<rparr>)
       | None \<Rightarrow> None
     else None)"
| "ring_exec End_of_data s =
    (if may_end (wr s, rg s) then
       case returned (ipcbuf_enable_eod (wr s, rg s)) of
         Some (u, h, r) \<Rightarrow> Some (Internal, s\<lparr>wr := h, rg := r\<rparr>)
       | None \<Rightarrow> None
     else None)"
| "ring_exec Relock s =
    (if state (wr s) = IPCBUF_WRITER then
       case returned (ipcbuf_relock_write (wr s, rg s)) of
         Some (u, h, r) \<Rightarrow> Some (Internal, s\<lparr>wr := h, rg := r\<rparr>)
       | None \<Rightarrow> None
     else None)"
| "ring_exec (Take i) s =
    (if i < n_readers (rg s) \<and> \<not> holds s i then
       case returned (ipcbuf_get_next_read (rd s i, rg s)) of
         Some (p, h, r) \<Rightarrow>
           Some (Took i (read_bytes p r),
                 s\<lparr>rd := (rd s)(i := h), rg := r, holds := (holds s)(i := True)\<rparr>)
       | None \<Rightarrow> None
     else None)"
| "ring_exec (Clear i) s =
    (if i < n_readers (rg s) \<and> holds s i then
       case returned (ipcbuf_mark_cleared (rd s i, rg s)) of
         Some (u, h, r) \<Rightarrow>
           Some (Cleared i (ipcbuf_eod (h, r)),
                 s\<lparr>rd := (rd s)(i := h), rg := r, holds := (holds s)(i := False)\<rparr>)
       | None \<Rightarrow> None
     else None)"
| "ring_exec (Ack i) s =
    (if i < n_readers (rg s) \<and> ipcbuf_eod (rd s i, rg s) then
       case returned (ipcbuf_reset (rd s i, rg s)) of
         Some (u, h, r) \<Rightarrow> Some (Internal, s\<lparr>rd := (rd s)(i := h), rg := r\<rparr>)
       | None \<Rightarrow> None
     else None)"

definition ring_step :: "'h sys \<Rightarrow> ring_event \<Rightarrow> 'h sys \<Rightarrow> bool" where
  "ring_step s e s' \<longleftrightarrow> (\<exists>act. ring_exec act s = Some (e, s'))"

lemma ring_stepI: "ring_exec act s = Some (e, s') \<Longrightarrow> ring_step s e s'"
  by (auto simp: ring_step_def)

text \<open>Run a list of calls: the events they cause and the state they lead to.\<close>

fun run_calls :: "action list \<Rightarrow> 'h sys \<Rightarrow> (ring_event list \<times> 'h sys) option" where
  "run_calls [] s = Some ([], s)"
| "run_calls (act # acts) s =
    (case ring_exec act s of
       None \<Rightarrow> None
     | Some (e, s') \<Rightarrow>
        (case run_calls acts s' of None \<Rightarrow> None | Some (es, t) \<Rightarrow> Some (e # es, t)))"

lemma run_calls_run: "run_calls acts s = Some (es, t) \<Longrightarrow> run ring_step s es t"
proof (induction acts arbitrary: s es)
  case (Cons act acts)
  then obtain e s' es' where "ring_exec act s = Some (e, s')" "run_calls acts s' = Some (es', t)"
    "es = e # es'"
    by (auto split: option.splits)
  then show ?case using Cons.IH by (metis run_Cons ring_stepI)
qed (auto intro: run.run_Nil)

lemma returned_Some [simp]: "returned out = Some (a, s) \<longleftrightarrow> out = Done a s"
  by (cases out) auto

section \<open>The ring and the stream\<close>

text \<open>A transfer has started and not ended.\<close>

definition transfer_open :: "('h, 'r) buf_st \<Rightarrow> bool" where
  "transfer_open = (\<lambda>(h, r). state h = IPCBUF_WRITING \<or>
     state h = IPCBUF_WCHANGE \<and> w_buf_next r \<noteq> w_buf_curr r)"

text \<open>The first block not given back to the writer.\<close>

definition first_kept :: "'r ring_scheme \<Rightarrow> nat" where
  "first_kept r = unat (w_buf_next r) - unat (nbufs r)"

definition writer_rel :: "('h, 'r) buf_st \<Rightarrow> log \<Rightarrow> bool" where
  "writer_rel = (\<lambda>(h, r) P.
     state h \<in> {IPCBUF_WRITER, IPCBUF_WRITING, IPCBUF_WCHANGE} \<and> nbufs r \<noteq> 0 \<and>
     w_buf_curr r = of_nat (length P) \<and> w_xfer r = of_nat (ends P (length P)) \<and>
     slot (xfer h) = ends P (length P) mod 8 \<and>
     length P \<le> unat (w_buf_next r) \<and> unat (w_buf_next r) \<le> length P + unat (nbufs r) \<and>
     (state h = IPCBUF_WCHANGE \<longrightarrow> unat (w_buf_next r) \<le> Suc (length P)) \<and>
     (state h = IPCBUF_WRITER \<longrightarrow> unat (w_buf_next r) = length P) \<and>
     (\<not> transfer_open (h, r) \<longrightarrow> boundary P (length P)))"

definition reader_rel :: "nat \<Rightarrow> ('h, 'r) buf_st \<Rightarrow> bool \<Rightarrow> bool \<Rightarrow> log \<Rightarrow> nat \<Rightarrow> bool" where
  "reader_rel i = (\<lambda>(h, r) hold op P g.
     iread h = int i \<and> state h \<in> {IPCBUF_READER, IPCBUF_READING, IPCBUF_RSTOP} \<and>
     r_bufs r i = of_nat g \<and> r_xfers r i = of_nat (ends P g) \<and>
     sem_data r i IPCBUF_FULL + g + of_bool hold = length P \<and>
     sem_data r i IPCBUF_CLEAR + first_kept r = g \<and>
     sem_data r i IPCBUF_SODACK + ends P (length P) + of_bool op
       = 8 + ends P g + of_bool (state h = IPCBUF_READING) \<and>
     sem_data r i IPCBUF_EODACK + ends P (length P) = 8 + ends P g \<and>
     (hold \<longrightarrow> state h = IPCBUF_READING) \<and>
     (state h \<noteq> IPCBUF_READING \<longrightarrow> boundary P g) \<and>
     (state h = IPCBUF_READING \<longrightarrow> slot (xfer h) = ends P g mod 8))"

text \<open>The arrays that tell the readers where transfers start and end.\<close>

definition starts_rel :: "'r ring_scheme \<Rightarrow> bool \<Rightarrow> log \<Rightarrow> bool" where
  "starts_rel r op P \<longleftrightarrow>
     (\<forall>p \<le> length P. boundary P p \<and> (p < length P \<or> op) \<and>
        ends P (length P) + of_bool op \<le> ends P p + 8 \<longrightarrow>
        s_buf r (ends P p mod 8) = of_nat p \<and> s_byte r (ends P p mod 8) = 0)"

definition ends_rel :: "'r ring_scheme \<Rightarrow> log \<Rightarrow> bool" where
  "ends_rel r P \<longleftrightarrow>
     (\<forall>p < length P. snd (P ! p) \<and> ends P (length P) \<le> ends P p + 8 \<longrightarrow>
        eod r (ends P p mod 8) \<and> e_buf r (ends P p mod 8) = of_nat p \<and>
        e_byte r (ends P p mod 8) = of_nat (length (fst (P ! p))))"

text \<open>No end of data left from an earlier transfer can be taken for one of the open transfer.\<close>

definition stale_rel :: "'r ring_scheme \<Rightarrow> bool \<Rightarrow> log \<Rightarrow> bool" where
  "stale_rel r op P \<longleftrightarrow>
     (\<forall>x < 8. unat (e_buf r x) = 0 \<or> unat (e_buf r x) < length P) \<and>
     (op \<longrightarrow> \<not> eod r (ends P (length P) mod 8) \<or>
        (\<forall>p \<le> length P. ends P p = ends P (length P) \<longrightarrow>
           unat (e_buf r (ends P (length P) mod 8)) < p))"

definition blocks_rel :: "'r ring_scheme \<Rightarrow> log \<Rightarrow> bool" where
  "blocks_rel r P \<longleftrightarrow>
     (\<forall>b < unat (nbufs r).
        count r b = (if occupied (unat (nbufs r)) (first_kept r) (length P) b then 1 else 0))"

definition data_rel :: "'r ring_scheme \<Rightarrow> log \<Rightarrow> (nat \<Rightarrow> nat) \<Rightarrow> bool" where
  "data_rel r P gt \<longleftrightarrow>
     (\<forall>b < unat (nbufs r). length (mem r b) = unat (bufsz r)) \<and>
     (\<forall>p < length P. length (fst (P ! p)) \<le> unat (bufsz r) \<and>
        (\<not> snd (P ! p) \<longrightarrow> length (fst (P ! p)) = unat (bufsz r))) \<and>
     (\<forall>i < n_readers r. \<forall>p. gt i \<le> p \<and> p < length P \<longrightarrow>
        take (length (fst (P ! p))) (mem r (p mod unat (nbufs r))) = fst (P ! p))"

definition ring_rel :: "'h sys \<Rightarrow> stream \<Rightarrow> bool" where
  "ring_rel s a \<longleftrightarrow>
    (let r = rg s; P = posted a; op = transfer_open (wr s, r) in
     writer_rel (wr s, r) P \<and> starts_rel r op P \<and> ends_rel r P \<and> stale_rel r op P \<and>
     blocks_rel r P \<and> data_rel r P (got a) \<and> holding a = holds s \<and>
     (\<forall>i < n_readers r. reader_rel i (rd s i, r) (holds s i) op P (got a i)))"

lemmas ring_rel_defs = writer_rel_def starts_rel_def ends_rel_def stale_rel_def blocks_rel_def
  data_rel_def


section \<open>Words and positions\<close>

lemma block_of_nat: "a < 2 ^ 64 \<Longrightarrow> block r (of_nat a) = a mod unat (nbufs r)"
  by (simp add: block_def unat_mod)

lemma block_unat: "block r b = unat b mod unat (nbufs r)"
  by (simp add: block_def unat_mod)

lemma slot_of_nat: "a < 2 ^ 64 \<Longrightarrow> slot (of_nat a) = a mod 8"
  by (simp add: slot_def unat_mod)

lemma of_nat_Suc_u64: "of_nat a + 1 = (of_nat (Suc a) :: u64)"
  by (simp add: add.commute)

text \<open>What the writer's relation gives in numbers.\<close>

lemma writer_relD:
  assumes "writer_rel (h, r) P"
  shows "length P < 2 ^ 64" "unat (w_buf_curr r) = length P" "0 < unat (nbufs r)"
    "ends P p < 2 ^ 64 \<or> length P < p"
    "length P \<le> unat (w_buf_next r)" "unat (w_buf_next r) \<le> length P + unat (nbufs r)"
    "first_kept r \<le> length P"
proof -
  have *: "length P < 2 ^ 64"
    using assms unat_u64_bound [of "w_buf_next r"] by (auto simp: writer_rel_def)
  then show "length P < 2 ^ 64" .
  show "unat (w_buf_curr r) = length P" using assms * by (simp add: writer_rel_def)
  show "0 < unat (nbufs r)" using assms by (simp add: writer_rel_def unat_gt_0)
  show "ends P p < 2 ^ 64 \<or> length P < p"
    using ends_le [of P p] * by linarith
  show "length P \<le> unat (w_buf_next r)" "unat (w_buf_next r) \<le> length P + unat (nbufs r)"
    using assms by (auto simp: writer_rel_def)
  then show "first_kept r \<le> length P" by (simp add: first_kept_def)
qed

end
