(* ===== verification/Ring_Steps.thy ===== *)
theory Ring_Steps
  imports Ring_System
begin

text \<open>
  Every call of Ring_System is a step of the stream of Ring_Spec: the parts of \<open>ring_rel\<close> under
  each change the calls make, one lemma per call, and the forward simulation they add up to.
\<close>

section \<open>The parts of the relation, change by change\<close>

lemma ring_relD:
  assumes "ring_rel s a"
  shows "writer_rel (wr s, rg s) (posted a)"
    "starts_rel (rg s) (transfer_open (wr s, rg s)) (posted a)"
    "ends_rel (rg s) (posted a)" "stale_rel (rg s) (transfer_open (wr s, rg s)) (posted a)"
    "blocks_rel (rg s) (posted a)" "data_rel (rg s) (posted a) (got a)" "holding a = holds s"
    "i < n_readers (rg s) \<Longrightarrow>
      reader_rel i (rd s i, rg s) (holds s i) (transfer_open (wr s, rg s)) (posted a) (got a i)"
  using assms by (auto simp: ring_rel_def Let_def)

text \<open>A part depends on the fields it names only.\<close>

lemma starts_rel_cong: "s_buf r' = s_buf r \<Longrightarrow> s_byte r' = s_byte r \<Longrightarrow> starts_rel r' = starts_rel r"
  by (simp add: starts_rel_def fun_eq_iff)

lemma ends_rel_cong:
  "eod r' = eod r \<Longrightarrow> e_buf r' = e_buf r \<Longrightarrow> e_byte r' = e_byte r \<Longrightarrow> ends_rel r' = ends_rel r"
  by (simp add: ends_rel_def fun_eq_iff)

lemma stale_rel_cong: "eod r' = eod r \<Longrightarrow> e_buf r' = e_buf r \<Longrightarrow> stale_rel r' = stale_rel r"
  by (simp add: stale_rel_def fun_eq_iff)

lemma first_kept_cong:
  "w_buf_next r' = w_buf_next r \<Longrightarrow> nbufs r' = nbufs r \<Longrightarrow> first_kept r' = first_kept r"
  by (simp add: first_kept_def)

lemma blocks_rel_cong:
  "w_buf_next r' = w_buf_next r \<Longrightarrow> nbufs r' = nbufs r \<Longrightarrow> count r' = count r \<Longrightarrow>
    blocks_rel r' = blocks_rel r"
  using first_kept_cong [of r' r] by (simp add: blocks_rel_def fun_eq_iff)

lemma data_rel_cong:
  "nbufs r' = nbufs r \<Longrightarrow> bufsz r' = bufsz r \<Longrightarrow> mem r' = mem r \<Longrightarrow> n_readers r' = n_readers r \<Longrightarrow>
    data_rel r' = data_rel r"
  by (simp add: data_rel_def fun_eq_iff)

text \<open>The start of a transfer at the end of the log.\<close>

lemma starts_rel_start:
  assumes "starts_rel r False P" and bd: "boundary P (length P)"
    and "s_buf r' = (s_buf r)(ends P (length P) mod 8 := of_nat (length P))"
    and "s_byte r' = (s_byte r)(ends P (length P) mod 8 := 0)"
  shows "starts_rel r' True P"
proof -
  let ?E = "ends P (length P)"
  have "s_buf r' (ends P p mod 8) = of_nat p \<and> s_byte r' (ends P p mod 8) = 0"
    if p: "p \<le> length P" "boundary P p" "?E + 1 \<le> ends P p + 8" for p
  proof (cases "p = length P")
    case True
    then show ?thesis using assms by simp
  next
    case False
    with p bd have "ends P p < ?E" by (intro ends_less_boundary) auto
    with p(3) have "ends P p mod 8 \<noteq> ?E mod 8"
      using place_inj [of "ends P p" 8 "?E"] by linarith
    with p False assms show ?thesis by (simp add: starts_rel_def)
  qed
  then show ?thesis by (simp add: starts_rel_def)
qed

lemma ends_rel_start:
  assumes "ends_rel r P" and "P = [] \<or> eod r' = eod r" and "e_buf r' = e_buf r" "e_byte r' = e_byte r"
  shows "ends_rel r' P"
  using assms by (auto simp: ends_rel_def)

lemma stale_rel_start:
  assumes "stale_rel r False P" and bd: "boundary P (length P)"
    and eod: "if P = [] then \<not> eod r' 0 else eod r' = eod r" and e: "e_buf r' = e_buf r"
  shows "stale_rel r' True P"
proof (cases "P = []")
  case True
  then show ?thesis using assms by (simp add: stale_rel_def)
next
  case False
  let ?x = "ends P (length P) mod 8"
  have "unat (e_buf r ?x) = 0 \<or> unat (e_buf r ?x) < length P"
    using assms(1) by (simp add: stale_rel_def)
  moreover have "p = length P" if "p \<le> length P" "ends P p = ends P (length P)" for p
    using that bd ends_less_boundary [of p "length P" P] by (cases "p = length P") auto
  ultimately have "\<forall>p \<le> length P. ends P p = ends P (length P) \<longrightarrow> unat (e_buf r' ?x) < p"
    using e False by fastforce
  then show ?thesis using assms(1) e False by (simp add: stale_rel_def)
qed

section \<open>The writer opens a block\<close>

lemma start_rel:
  assumes rel: "ring_rel s a" and st: "state (wr s) = IPCBUF_WCHANGE"
    "w_buf_next (rg s) = w_buf_curr (rg s)"
    and e: "ipcbuf_enable_sod (w_buf_curr (rg s)) 0 (wr s, rg s) = Done u (h', r')"
  shows "ring_rel (s\<lparr>wr := h', rg := r'\<rparr>) a"
proof -
  let ?r = "rg s" and ?h = "wr s" and ?P = "posted a"
  let ?L = "length (posted a)"
  note w = ring_relD(1) [OF rel] and wD = writer_relD [OF ring_relD(1) [OF rel]]
  have h': "h' = ?h\<lparr>xfer := w_xfer ?r mod IPCBUF_XFERS, state := IPCBUF_WRITING\<rparr>"
    and r': "r' = (add_sem 0 (n_readers ?r) IPCBUF_SODACK (-1) ?r)
        \<lparr>w_state := IPCBUF_WRITING, s_buf := (s_buf ?r)(slot (w_xfer ?r) := w_buf_curr ?r),
         s_byte := (s_byte ?r)(slot (w_xfer ?r) := 0),
         eod := (if w_buf_curr ?r = 0 then (eod ?r)(slot (w_xfer ?r) := False) else eod ?r)\<rparr>"
    using enable_sod_at_curr(2) [OF e] by simp_all
  have not_open: "\<not> transfer_open (?h, ?r)" and op: "transfer_open (h', r')"
    using st by (simp_all add: transfer_open_def h')
  have bd: "boundary ?P ?L" using w not_open by (simp add: writer_rel_def)
  have "ends ?P ?L < 2 ^ 64" using wD(1) ends_le [of ?P ?L] by linarith
  then have x: "slot (w_xfer ?r) = ends ?P ?L mod 8" "w_buf_curr ?r = of_nat ?L"
      "w_buf_curr ?r = 0 \<longleftrightarrow> ?P = []"
    using w wD(2) unat_eq_zero [of "w_buf_curr ?r"] by (auto simp: writer_rel_def slot_of_nat)
  have fk: "first_kept r' = first_kept ?r" by (simp add: r' first_kept_def)
  have s': "s_buf r' = (s_buf ?r)(ends ?P ?L mod 8 := of_nat ?L)"
    "s_byte r' = (s_byte ?r)(ends ?P ?L mod 8 := 0)"
    by (simp_all add: r' x(1,2))
  have e': "if ?P = [] then \<not> eod r' 0 else eod r' = eod ?r" "e_buf r' = e_buf ?r"
      "e_byte r' = e_byte ?r"
    using x(1,3) by (simp_all add: r')
  have "reader_rel i (rd s i, r') (holds s i) True ?P (got a i)" if "i < n_readers r'" for i
  proof -
    from that have i: "i < n_readers ?r" by (simp add: r')
    then have "1 \<le> sem_data ?r i IPCBUF_SODACK" using enable_sod_at_curr(1) [OF e] by simp
    moreover from this i have "sem_data ?r i IPCBUF_SODACK = Suc (sem_data r' i IPCBUF_SODACK)"
      by (simp add: r' sem_data_add_sem)
    moreover have "sem_data r' i q = sem_data ?r i q" if "q \<noteq> IPCBUF_SODACK" for q
      using that by (simp add: r' sem_data_add_sem)
    moreover have "r_bufs r' = r_bufs ?r" "r_xfers r' = r_xfers ?r" by (simp_all add: r')
    ultimately show ?thesis
      using ring_relD(8) [OF rel i] not_open by (simp add: reader_rel_def fk)
  qed
  moreover have "writer_rel (h', r') ?P"
    using w bd op x by (auto simp: writer_rel_def h' r')
  moreover have "starts_rel r' True ?P"
    using ring_relD(2) [OF rel] not_open by (intro starts_rel_start [OF _ bd s']) simp
  moreover have "ends_rel r' ?P"
    using e'(1) by (intro ends_rel_start [OF ring_relD(3) [OF rel] _ e'(2,3)]) (simp split: if_splits)
  moreover have "stale_rel r' True ?P"
    using ring_relD(4) [OF rel] not_open by (intro stale_rel_start [OF _ bd e'(1,2)]) simp
  moreover have "blocks_rel r' ?P"
    using ring_relD(5) [OF rel] by (subst blocks_rel_cong [of r' ?r]) (simp_all add: r')
  moreover have "data_rel r' ?P (got a)"
    using ring_relD(6) [OF rel] by (subst data_rel_cong [of r' ?r]) (simp_all add: r')
  ultimately show ?thesis
    using ring_relD(7) [OF rel] op by (simp add: ring_rel_def)
qed


text \<open>The next place holds a block still counted exactly when the ring has been filled once.\<close>

lemma occupied_next:
  assumes "L \<le> N" and "N < L + nb"
  shows "occupied nb (N - nb) L (N mod nb) \<longleftrightarrow> nb \<le> N"
proof
  assume "occupied nb (N - nb) L (N mod nb)"
  then obtain p where p: "N - nb \<le> p" "p < L" "p mod nb = N mod nb" by (auto simp: occupied_def)
  show "nb \<le> N"
  proof (rule ccontr)
    assume "\<not> nb \<le> N"
    then have "p = N" using p assms by (intro place_inj [of p nb N]) auto
    with p assms show False by simp
  qed
next
  assume "nb \<le> N"
  then show "occupied nb (N - nb) L (N mod nb)"
    using assms by (auto simp: occupied_def le_mod_geq intro!: bexI [of _ "N - nb"])
qed

lemma count_next:
  assumes B: "blocks_rel r P" and N: "length P \<le> unat (w_buf_next r)"
      "unat (w_buf_next r) < length P + unat (nbufs r)" and nb: "0 < unat (nbufs r)"
  shows "unat (count r (unat (w_buf_next r) mod unat (nbufs r)))
    = of_bool (unat (nbufs r) \<le> unat (w_buf_next r))"
  using B nb occupied_next [OF N] by (simp add: blocks_rel_def first_kept_def)

lemma blocks_rel_open:
  assumes B: "blocks_rel r P" and N: "length P \<le> unat (w_buf_next r)"
      "unat (w_buf_next r) < length P + unat (nbufs r)" "unat (w_buf_next r') = Suc (unat (w_buf_next r))"
    and nb: "nbufs r' = nbufs r" "0 < unat (nbufs r)"
    and c: "count r' = (count r)(unat (w_buf_next r) mod unat (nbufs r) := 0)"
  shows "first_kept r' = first_kept r + of_bool (unat (nbufs r) \<le> unat (w_buf_next r))" (is ?fk)
    and "unat (count r (unat (w_buf_next r) mod unat (nbufs r)))
      = of_bool (unat (nbufs r) \<le> unat (w_buf_next r))" (is ?count)
    and "blocks_rel r' P"
proof -
  let ?N = "unat (w_buf_next r)" and ?nb = "unat (nbufs r)"
  show fk: ?fk using N(3) by (auto simp: first_kept_def nb)
  have occ: "occupied ?nb (first_kept r) (length P) (?N mod ?nb) \<longleftrightarrow> ?nb \<le> ?N"
    unfolding first_kept_def using N by (intro occupied_next)
  show ?count by (rule count_next [OF B N(1,2) nb(2)])
  have "occupied ?nb (first_kept r') (length P) b \<longleftrightarrow>
      occupied ?nb (first_kept r) (length P) b \<and> b \<noteq> ?N mod ?nb" for b
  proof (cases "?nb \<le> ?N")
    case True
    then have "first_kept r' = Suc (first_kept r)" "first_kept r mod ?nb = ?N mod ?nb"
      by (simp add: fk, simp add: first_kept_def le_mod_geq)
    then show ?thesis
      using occupied_drop_first [of "first_kept r" "length P" ?nb b] True N
      by (simp add: first_kept_def)
  qed (use occ fk in auto)
  then show "blocks_rel r' P" using B by (simp add: blocks_rel_def c nb)
qed

lemma open_rel:
  assumes rel: "ring_rel s a" and st: "state (wr s) = IPCBUF_WRITING"
    and N: "unat (w_buf_next (rg s)) < unat (w_buf_curr (rg s)) + unat (nbufs (rg s))"
      "w_buf_next (rg s) < - 1"
    and b: "b = block (rg s) (w_buf_next (rg s))"
    and clear: "\<forall>i < n_readers (rg s). unat (count (rg s) b) \<le> sem_data (rg s) i IPCBUF_CLEAR"
    and r': "r' = (add_sem 0 (n_readers (rg s)) IPCBUF_CLEAR (- int (unat (count (rg s) b))) (rg s))
        \<lparr>count := (count (rg s))(b := 0), w_buf_next := w_buf_next (rg s) + 1\<rparr>"
  shows "ring_rel (s\<lparr>rg := r'\<rparr>) a"
proof -
  let ?r = "rg s" and ?h = "wr s" and ?P = "posted a"
  let ?L = "length (posted a)"
  note w = ring_relD(1) [OF rel] and wD = writer_relD [OF ring_relD(1) [OF rel]]
  have N': "unat (w_buf_next r') = Suc (unat (w_buf_next ?r))"
    using N(2) by (simp add: r' unat_add1_less)
  have same: "nbufs r' = nbufs ?r" "count r' = (count ?r)(b := 0)" "n_readers r' = n_readers ?r"
      "w_buf_curr r' = w_buf_curr ?r" "w_xfer r' = w_xfer ?r" "r_bufs r' = r_bufs ?r"
      "r_xfers r' = r_xfers ?r"
    by (simp_all add: r')
  have B: "first_kept r' = first_kept ?r + of_bool (unat (nbufs ?r) \<le> unat (w_buf_next ?r))"
      "unat (count ?r b) = of_bool (unat (nbufs ?r) \<le> unat (w_buf_next ?r))" "blocks_rel r' ?P"
    using blocks_rel_open [OF ring_relD(5) [OF rel], of r'] N wD N' same b
    by (simp_all add: block_unat)
  have op: "transfer_open (?h, ?r)" "transfer_open (?h, r')" using st by (simp_all add: transfer_open_def)
  have "reader_rel i (rd s i, r') (holds s i) True ?P (got a i)" if "i < n_readers r'" for i
  proof -
    from that have i: "i < n_readers ?r" by (simp add: same)
    have "unat (count ?r b) \<le> sem_data ?r i IPCBUF_CLEAR" using i clear by simp
    then have "sem_data ?r i IPCBUF_CLEAR = unat (count ?r b) + sem_data r' i IPCBUF_CLEAR"
      using i B(2) by (cases "unat (nbufs ?r) \<le> unat (w_buf_next ?r)")
        (auto simp: r' sem_data_add_sem)
    moreover have "sem_data r' i q = sem_data ?r i q" if "q \<noteq> IPCBUF_CLEAR" for q
      using that by (simp add: r' sem_data_add_sem)
    ultimately show ?thesis
      using ring_relD(8) [OF rel i] op B by (simp add: reader_rel_def same)
  qed
  moreover have "writer_rel (?h, r') ?P"
    using w op wD N N' st by (simp add: writer_rel_def same)
  moreover have "starts_rel r' True ?P" "ends_rel r' ?P" "stale_rel r' True ?P" "data_rel r' ?P (got a)"
    using ring_relD(2,3,4,6) [OF rel] op(1) starts_rel_cong [of r' ?r] ends_rel_cong [of r' ?r]
      stale_rel_cong [of r' ?r] data_rel_cong [of r' ?r]
    by (simp_all add: r')
  ultimately show ?thesis
    using ring_relD(7) [OF rel] op B(3) by (simp add: ring_rel_def)
qed


lemma Open_step:
  assumes rel: "ring_rel s a" and ex: "ring_exec Open s = Some (e, s')"
  shows "\<exists>a'. stream_step a e a' \<and> ring_rel s' a'"
proof -
  from ex obtain b h r where mo: "may_open (wr s, rg s)" and e: "e = Opened b"
    and s': "s' = s\<lparr>wr := h, rg := r\<rparr>" and g: "ipcbuf_get_next_write (wr s, rg s) = Done b (h, r)"
    by (auto split: if_splits option.splits)
  obtain h' r' where start: "(h', r') = (wr s, rg s) \<and> state (wr s) \<noteq> IPCBUF_WCHANGE \<or>
      state (wr s) = IPCBUF_WCHANGE \<and>
      ipcbuf_enable_sod (w_buf_curr (rg s)) 0 (wr s, rg s) = Done () (h', r')"
    and b: "b = block r' (w_buf_next r')"
      "\<forall>i < n_readers r'. unat (count r' b) \<le> sem_data r' i IPCBUF_CLEAR"
    and hr: "(h, r) = (h', (add_sem 0 (n_readers r') IPCBUF_CLEAR (- int (unat (count r' b))) r')
                 \<lparr>count := (count r')(b := 0), w_buf_next := w_buf_next r' + 1\<rparr>)"
    using g by (rule get_next_write_Done)
  let ?s = "s\<lparr>wr := h', rg := r'\<rparr>"
  have "ring_rel ?s a \<and> state h' = IPCBUF_WRITING \<and> w_buf_next r' = w_buf_next (rg s) \<and>
      w_buf_curr r' = w_buf_curr (rg s) \<and> nbufs r' = nbufs (rg s)"
  proof (cases "state (wr s) = IPCBUF_WCHANGE")
    case True
    then have "w_buf_next (rg s) = w_buf_curr (rg s)" using mo by (simp add: may_open_def)
    then show ?thesis
      using start_rel [OF rel True] start True enable_sod_at_curr(2) [of "rg s" "wr s"] by auto
  next
    case False
    then show ?thesis using rel start mo by (auto simp: may_open_def)
  qed
  then have "ring_rel (?s\<lparr>rg := r\<rparr>) a"
    using mo b hr by (intro open_rel [where s = ?s and b = b]) (auto simp: may_open_def)
  then show ?thesis using e s' hr by (auto intro: stream_step.opened)
qed

section \<open>The writer marks a block filled\<close>

lemma starts_rel_post:
  assumes "starts_rel r True P" and "s_buf r' = s_buf r" "s_byte r' = s_byte r"
  shows "starts_rel r' (\<not> l) (P @ [(d, l)])"
  using assms by (auto simp: starts_rel_def le_Suc_eq)

lemma ends_rel_post:
  assumes R: "ends_rel r P" and d: "length d < 2 ^ 64"
    and r': "if l then eod r' = (eod r)(ends P (length P) mod 8 := True) \<and>
        e_buf r' = (e_buf r)(ends P (length P) mod 8 := of_nat (length P)) \<and>
        e_byte r' = (e_byte r)(ends P (length P) mod 8 := of_nat (length d))
      else eod r' = eod r \<and> e_buf r' = e_buf r \<and> e_byte r' = e_byte r"
  shows "ends_rel r' (P @ [(d, l)])"
proof (cases l)
  case True
  let ?E = "ends P (length P)"
  have "ends P p mod 8 \<noteq> ?E mod 8"
    if "p < length P" "snd (P ! p)" "Suc ?E \<le> ends P p + 8" for p
  proof -
    have "ends P p < ?E"
      using that ends_mono [of "Suc p" "length P" P] by (simp add: ends_Suc)
    with that(3) show ?thesis using place_inj [of "ends P p" 8 ?E] by linarith
  qed
  with True R r' show ?thesis
    by (auto simp: ends_rel_def nth_append less_Suc_eq)
qed (use R r' in \<open>auto simp: ends_rel_def nth_append less_Suc_eq\<close>)

lemma stale_rel_post:
  assumes R: "stale_rel r True P"
    and r': "if l then e_buf r' = (e_buf r)(ends P (length P) mod 8 := of_nat (length P))
      else eod r' = eod r \<and> e_buf r' = e_buf r"
    and L: "length P < 2 ^ 64"
  shows "stale_rel r' (\<not> l) (P @ [(d, l)])"
  using R r' L by (cases l) (fastforce simp: stale_rel_def le_Suc_eq less_Suc_eq)+

lemma blocks_rel_post:
  assumes B: "blocks_rel r P" and "length P < unat (w_buf_next r)" and nb: "0 < unat (nbufs r)"
    and N: "unat (w_buf_next r) \<le> length P + unat (nbufs r)"
    and "nbufs r' = nbufs r" "w_buf_next r' = w_buf_next r"
      "count r' = (count r)(length P mod unat (nbufs r) := count r (length P mod unat (nbufs r)) + 1)"
  shows "blocks_rel r' (P @ [(d, l)])"
proof -
  have fk: "first_kept r' = first_kept r" using assms by (intro first_kept_cong) simp_all
  have "\<not> occupied (unat (nbufs r)) (first_kept r) (length P) (length P mod unat (nbufs r))"
    using assms by (intro not_occupied_next) (simp add: first_kept_def)
  then show ?thesis
    using assms by (auto simp: blocks_rel_def fk occupied_Suc_hi first_kept_def)
qed

lemma data_rel_post:
  assumes R: "data_rel r P gt" and d: "d = take n (mem r (length P mod unat (nbufs r)))"
    and n: "n \<le> unat (bufsz r)" "\<not> l \<longrightarrow> n = unat (bufsz r)" and nb: "0 < unat (nbufs r)"
    and same: "nbufs r' = nbufs r" "bufsz r' = bufsz r" "mem r' = mem r" "n_readers r' = n_readers r"
  shows "data_rel r' (P @ [(d, l)]) gt" "length d = n"
proof -
  have "length (mem r (length P mod unat (nbufs r))) = unat (bufsz r)"
    using R nb by (simp add: data_rel_def)
  then show len: "length d = n" using n(1) by (simp add: d)
  show "data_rel r' (P @ [(d, l)]) gt"
    using R len n d by (auto simp: data_rel_def same nth_append less_Suc_eq)
qed


text \<open>The fields of the ring after a block has been posted, last of its transfer if \<open>l\<close>.\<close>

definition posted_ring :: "'h ipcbuf_scheme \<Rightarrow> u64 \<Rightarrow> bool \<Rightarrow> 'r ring_scheme \<Rightarrow> 'r ring_scheme" where
  "posted_ring h n l r =
    (let x = slot (xfer h); b = block r (w_buf_curr r);
         r1 = r\<lparr>count := (count r)(b := count r b + 1), w_buf_curr := w_buf_curr r + 1\<rparr>
     in add_sem 0 (n_readers r) IPCBUF_FULL 1
          (if l then add_sem 0 (n_readers r) IPCBUF_EODACK (-1)
             (r1\<lparr>e_buf := (e_buf r)(x := w_buf_curr r), e_byte := (e_byte r)(x := n),
                 eod := (eod r)(x := True), w_xfer := w_xfer r + 1, w_state := IPCBUF_WRITER\<rparr>)
           else r1))"

lemma posted_ring_fields:
  "nbufs (posted_ring h n l r) = nbufs r" "bufsz (posted_ring h n l r) = bufsz r"
  "w_buf_next (posted_ring h n l r) = w_buf_next r"
  "w_buf_curr (posted_ring h n l r) = w_buf_curr r + 1"
  "w_xfer (posted_ring h n l r) = (if l then w_xfer r + 1 else w_xfer r)"
  "r_bufs (posted_ring h n l r) = r_bufs r" "r_xfers (posted_ring h n l r) = r_xfers r"
  "n_readers (posted_ring h n l r) = n_readers r" "mem (posted_ring h n l r) = mem r"
  "s_buf (posted_ring h n l r) = s_buf r" "s_byte (posted_ring h n l r) = s_byte r"
  "count (posted_ring h n l r) =
     (count r)(block r (w_buf_curr r) := count r (block r (w_buf_curr r)) + 1)"
  "e_buf (posted_ring h n l r) =
     (if l then (e_buf r)(slot (xfer h) := w_buf_curr r) else e_buf r)"
  "e_byte (posted_ring h n l r) = (if l then (e_byte r)(slot (xfer h) := n) else e_byte r)"
  "eod (posted_ring h n l r) = (if l then (eod r)(slot (xfer h) := True) else eod r)"
  by (simp_all add: posted_ring_def Let_def)

lemma posted_ring_sems:
  "i < n_readers r \<Longrightarrow> sem_data (posted_ring h n l r) i q =
     (if q = IPCBUF_FULL then sem_data r i q + 1
      else if q = IPCBUF_EODACK \<and> l then sem_data r i q - 1 else sem_data r i q)"
  by (simp add: posted_ring_def Let_def sem_data_add_sem)

lemma post_rel:
  assumes rel: "ring_rel s a" and op: "transfer_open (wr s, rg s)"
    and N: "w_buf_curr (rg s) < w_buf_next (rg s)"
    and n: "n \<le> bufsz (rg s)" "\<not> l \<longrightarrow> n = bufsz (rg s)"
    and one: "l \<longrightarrow> w_buf_next (rg s) = w_buf_curr (rg s) + 1"
    and st: "\<not> l \<longrightarrow> state (wr s) = IPCBUF_WRITING"
    and ack: "l \<longrightarrow> (\<forall>i < n_readers (rg s). 1 \<le> sem_data (rg s) i IPCBUF_EODACK)"
    and h': "h' = (if l then (wr s)\<lparr>xfer := (w_xfer (rg s) + 1) mod IPCBUF_XFERS,
      state := IPCBUF_WRITER\<rparr> else wr s)"
    and d: "d = take (unat n) (mem (rg s) (block (rg s) (w_buf_curr (rg s))))"
  shows "ring_rel (s\<lparr>wr := h', rg := posted_ring (wr s) n l (rg s)\<rparr>)
    (a\<lparr>posted := posted a @ [(d, l)]\<rparr>)"
proof -
  let ?r = "rg s" and ?h = "wr s" and ?P = "posted a" and ?P' = "posted a @ [(d, l)]"
  let ?L = "length (posted a)" and ?r' = "posted_ring (wr s) n l (rg s)"
  note w = ring_relD(1) [OF rel] and wD = writer_relD [OF ring_relD(1) [OF rel]]
  note fields = posted_ring_fields [of ?h n l ?r]
  have "ends ?P ?L < 2 ^ 64" using wD(1) ends_le [of ?P ?L] by linarith
  then have x: "slot (xfer ?h) = ends ?P ?L mod 8" "w_buf_curr ?r = of_nat ?L"
      "block ?r (w_buf_curr ?r) = ?L mod unat (nbufs ?r)"
    using w wD(1) by (auto simp: writer_rel_def block_of_nat)
  have LN: "?L < unat (w_buf_next ?r)" using N wD(2) by (simp add: word_less_nat_alt)
  have op': "transfer_open (h', ?r') \<longleftrightarrow> \<not> l" using st h' by (simp add: transfer_open_def)
  have D: "data_rel ?r' ?P' (got a)" "length d = unat n"
    using data_rel_post [OF ring_relD(6) [OF rel], of d "unat n" l ?r'] n d wD(3) x(3)
    by (simp_all add: fields word_le_nat_alt)
  have nd: "n = of_nat (length d)" by (simp add: D(2))
  have fk: "first_kept ?r' = first_kept ?r" by (intro first_kept_cong) (simp_all add: fields)
  have "l \<Longrightarrow> unat (w_buf_next ?r) = Suc ?L"
    using one wD(2) LN unat_add1_less [of "w_buf_curr ?r" "w_buf_next ?r"] N by simp
  moreover have "Suc (ends ?P ?L) < 2 ^ 64"
    using LN ends_le [of ?P ?L] unat_u64_bound [of "w_buf_next ?r"] by linarith
  then have "slot (w_xfer ?r + 1) = Suc (ends ?P ?L) mod 8"
    using w slot_of_nat [of "Suc (ends ?P ?L)"] by (simp add: writer_rel_def of_nat_Suc_u64)
  ultimately have "writer_rel (h', ?r') ?P'"
    using w wD(6) op' LN x(1) h' st
    by (cases l) (simp_all add: writer_rel_def posted_ring_fields add.commute)
  moreover have "starts_rel ?r' (\<not> l) ?P'"
    using ring_relD(2) [OF rel] op by (intro starts_rel_post [of ?r]) (simp_all add: fields)
  moreover have "ends_rel ?r' ?P'"
    using D(2) unat_u64_bound [of n] x nd [symmetric]
    by (intro ends_rel_post [OF ring_relD(3) [OF rel]]) (simp_all add: posted_ring_fields)
  moreover have "stale_rel ?r' (\<not> l) ?P'"
    using ring_relD(4) [OF rel] op x wD(1) by (intro stale_rel_post [of ?r]) (simp_all add: posted_ring_fields)
  moreover have "blocks_rel ?r' ?P'"
    using LN wD x(3) by (intro blocks_rel_post [OF ring_relD(5) [OF rel]]) (simp_all add: fields)
  moreover have "reader_rel i (rd s i, ?r') (holds s i) (\<not> l) ?P' (got a i)"
    if "i < n_readers ?r'" for i
  proof -
    from that have i: "i < n_readers ?r" by (simp add: fields)
    note R = ring_relD(8) [OF rel i]
    then have "got a i \<le> ?L" by (simp add: reader_rel_def)
    then show ?thesis
      using R ack i op by (auto simp: reader_rel_def fields posted_ring_sems fk)
  qed
  ultimately show ?thesis
    using ring_relD(7) [OF rel] op' D(1) by (simp add: ring_rel_def)
qed


lemma Fill_step:
  assumes rel: "ring_rel s a" and ex: "ring_exec (Fill n) s = Some (e, s')"
  shows "\<exists>a'. stream_step a e a' \<and> ring_rel s' a'"
proof -
  let ?r = "rg s" and ?h = "wr s"
  define l where "l \<longleftrightarrow> state ?h = IPCBUF_WCHANGE \<or> n < bufsz ?r"
  define d where "d = take (unat n) (mem ?r (block ?r (w_buf_curr ?r)))"
  from ex obtain h r where mf: "may_fill n (?h, ?r)" and e: "e = Posted d l"
    and s': "s' = s\<lparr>wr := h, rg := r\<rparr>" and f: "ipcbuf_mark_filled n (?h, ?r) = Done () (h, r)"
    by (auto simp: l_def d_def split: if_splits option.splits)
  have st: "state ?h \<noteq> IPCBUF_WRITER" "n \<noteq> 0" using mf by (auto simp: may_fill_def)
  note eff = mark_filled_Done(3,4) [OF f st]
  have hr: "h = (if l then ?h\<lparr>xfer := (w_xfer ?r + 1) mod IPCBUF_XFERS, state := IPCBUF_WRITER\<rparr>
        else ?h)" "r = posted_ring ?h n l ?r"
    "l \<longrightarrow> (\<forall>i < n_readers ?r. 1 \<le> sem_data ?r i IPCBUF_EODACK)"
    using eff by (auto simp: l_def posted_ring_def Let_def)
  have "ring_rel (s\<lparr>wr := h, rg := posted_ring ?h n l ?r\<rparr>) (a\<lparr>posted := posted a @ [(d, l)]\<rparr>)"
    using mf hr(3)
    by (intro post_rel [OF rel _ _ _ _ _ _ _ hr(1) d_def])
      (auto simp: may_fill_def transfer_open_def l_def)
  then show ?thesis using e s' hr(2) by (auto intro: stream_step.posted)
qed


section \<open>The other calls of the writer\<close>

text \<open>Storing bytes in a place that holds no block a reader still needs changes nothing for them.\<close>

lemma store_rel:
  assumes rel: "ring_rel s a" and d: "length d = unat (bufsz (rg s))"
    and b: "\<And>i p. i < n_readers (rg s) \<Longrightarrow> got a i \<le> p \<Longrightarrow> p < length (posted a) \<Longrightarrow>
      p mod unat (nbufs (rg s)) \<noteq> b"
  shows "ring_rel (s\<lparr>rg := (rg s)\<lparr>mem := (mem (rg s))(b := d)\<rparr>\<rparr>) a"
proof -
  let ?r = "(rg s)\<lparr>mem := (mem (rg s))(b := d)\<rparr>"
  have "data_rel ?r (posted a) (got a)"
    using ring_relD(6) [OF rel] b d by (simp add: data_rel_def)
  moreover have op: "transfer_open (wr s, ?r) = transfer_open (wr s, rg s)"
    by (simp add: transfer_open_def)
  moreover have "reader_rel i (rd s i, ?r) (holds s i) (transfer_open (wr s, rg s)) (posted a) (got a i)"
    if "i < n_readers (rg s)" for i
    using ring_relD(8) [OF rel that] by (simp add: reader_rel_def first_kept_def)
  ultimately show ?thesis
    using ring_relD(1-5,7) [OF rel] op
    by (simp add: ring_rel_def Let_def writer_rel_def starts_rel_def ends_rel_def stale_rel_def
        blocks_rel_def first_kept_def)
qed

text \<open>Blocks a reader has not released are within the last \<open>nbufs\<close> opened ones.\<close>

lemma reader_window:
  assumes "ring_rel s a" and "i < n_readers (rg s)"
  shows "got a i = sem_data (rg s) i IPCBUF_CLEAR + first_kept (rg s)" "got a i \<le> length (posted a)"
    "unat (w_buf_next (rg s)) + sem_data (rg s) i IPCBUF_CLEAR \<le> got a i + unat (nbufs (rg s))"
  using ring_relD(8) [OF assms] by (auto simp: reader_rel_def first_kept_def)

lemma Store_step:
  assumes rel: "ring_rel s a" and ex: "ring_exec (Store b d) s = Some (e, s')"
  shows "\<exists>a'. stream_step a e a' \<and> ring_rel s' a'"
proof -
  from ex have ms: "may_store b d (rg s)" and e: "e = Internal"
    and s': "s' = s\<lparr>rg := (rg s)\<lparr>mem := (mem (rg s))(b := d)\<rparr>\<rparr>"
    by (auto split: if_splits)
  then obtain q where q: "b = q mod unat (nbufs (rg s))" "unat (w_buf_curr (rg s)) \<le> q"
    "q < unat (w_buf_next (rg s))" by (auto simp: may_store_def)
  have "p mod unat (nbufs (rg s)) \<noteq> b"
    if "i < n_readers (rg s)" "got a i \<le> p" "p < length (posted a)" for i p
    using place_inj [of p "unat (nbufs (rg s))" q] that q reader_window(3) [OF rel that(1)]
      writer_relD(2) [OF ring_relD(1) [OF rel]] by auto
  then have "ring_rel s' a"
    unfolding s' using ms by (intro store_rel [OF rel]) (auto simp: may_store_def)
  then show ?thesis using e by (auto intro: stream_step.internal)
qed

lemma Zero_step:
  assumes rel: "ring_rel s a" and ex: "ring_exec Zero s = Some (e, s')"
  shows "\<exists>a'. stream_step a e a' \<and> ring_rel s' a'"
proof -
  let ?r = "rg s" and ?d = "replicate (unat (bufsz (rg s))) 0"
  let ?b = "block (rg s) (w_buf_next (rg s))"
  from ex have e: "e = Internal" and s': "s' = s\<lparr>rg := ?r\<lparr>mem := (mem ?r)(?b := ?d)\<rparr>\<rparr>"
    and c: "\<forall>i < n_readers ?r. sem_data ?r i IPCBUF_CLEAR \<noteq> 0"
    by (auto simp: ipcbuf_zero_next_write_def split: if_splits option.splits)
  have "p mod unat (nbufs ?r) \<noteq> ?b"
    if "i < n_readers ?r" "got a i \<le> p" "p < length (posted a)" for i p
    using place_inj [of p "unat (nbufs ?r)" "unat (w_buf_next ?r)"] that c
      reader_window(3) [OF rel that(1)] writer_relD(2,5) [OF ring_relD(1) [OF rel]]
    by (fastforce simp: block_unat)
  then have "ring_rel s' a"
    unfolding s' by (intro store_rel [OF rel]) auto
  then show ?thesis using e by (auto intro: stream_step.internal)
qed

lemma End_of_data_step:
  assumes rel: "ring_rel s a" and ex: "ring_exec End_of_data s = Some (e, s')"
  shows "\<exists>a'. stream_step a e a' \<and> ring_rel s' a'"
proof -
  let ?h = "(wr s)\<lparr>state := IPCBUF_WCHANGE\<rparr>" and ?r = "(rg s)\<lparr>w_state := IPCBUF_WCHANGE\<rparr>"
  from ex have e: "e = Internal" and s': "s' = s\<lparr>wr := ?h, rg := ?r\<rparr>"
    and st: "state (wr s) = IPCBUF_WRITING" "w_buf_next (rg s) = w_buf_curr (rg s) + 1"
      "w_buf_curr (rg s) < w_buf_next (rg s)"
    by (auto simp: ipcbuf_enable_eod_def may_end_def split: if_splits option.splits)
  have op: "transfer_open (wr s, rg s)" "transfer_open (?h, ?r)"
    using st by (auto simp: transfer_open_def)
  have "unat (w_buf_next (rg s)) = Suc (length (posted a))"
    using st unat_add1_less [of "w_buf_curr (rg s)" "w_buf_next (rg s)"]
      writer_relD(2) [OF ring_relD(1) [OF rel]] by simp
  then have "writer_rel (?h, ?r) (posted a)"
    using ring_relD(1) [OF rel] op by (auto simp: writer_rel_def)
  moreover have "reader_rel i (rd s i, ?r) (holds s i) True (posted a) (got a i)"
    if "i < n_readers (rg s)" for i
    using ring_relD(8) [OF rel that] op by (simp add: reader_rel_def first_kept_def)
  ultimately have "ring_rel s' a"
    using ring_relD(2-7) [OF rel] op
    by (simp add: s' ring_rel_def Let_def starts_rel_def ends_rel_def stale_rel_def
        blocks_rel_def data_rel_def first_kept_def)
  then show ?thesis using e by (auto intro: stream_step.internal)
qed

lemma Relock_step:
  assumes rel: "ring_rel s a" and ex: "ring_exec Relock s = Some (e, s')"
  shows "\<exists>a'. stream_step a e a' \<and> ring_rel s' a'"
proof -
  let ?h = "(wr s)\<lparr>state := IPCBUF_WCHANGE, xfer := w_xfer (rg s) mod IPCBUF_XFERS\<rparr>"
  let ?r = "(rg s)\<lparr>w_state := IPCBUF_WCHANGE\<rparr>" and ?P = "posted a"
  from ex have e: "e = Internal" and s': "s' = s\<lparr>wr := ?h, rg := ?r\<rparr>"
    and st: "state (wr s) = IPCBUF_WRITER"
    by (auto simp: ipcbuf_relock_write_def split: if_splits option.splits)
  note w = ring_relD(1) [OF rel] and wD = writer_relD [OF ring_relD(1) [OF rel]]
  have N: "w_buf_next (rg s) = w_buf_curr (rg s)"
    using w wD(2) st by (intro word_unat_eq_iff [THEN iffD2]) (simp add: writer_rel_def)
  have op: "\<not> transfer_open (wr s, rg s)" "\<not> transfer_open (?h, ?r)"
    using st N by (auto simp: transfer_open_def)
  have "ends ?P (length ?P) < 2 ^ 64" using wD(1) ends_le [of ?P "length ?P"] by linarith
  then have "writer_rel (?h, ?r) ?P"
    using w op st by (auto simp: writer_rel_def slot_of_nat)
  moreover have "reader_rel i (rd s i, ?r) (holds s i) False ?P (got a i)"
    if "i < n_readers (rg s)" for i
    using ring_relD(8) [OF rel that] op by (simp add: reader_rel_def first_kept_def)
  ultimately have "ring_rel s' a"
    using ring_relD(2-7) [OF rel] op
    by (simp add: s' ring_rel_def Let_def starts_rel_def ends_rel_def stale_rel_def
        blocks_rel_def data_rel_def first_kept_def)
  then show ?thesis using e by (auto intro: stream_step.internal)
qed


section \<open>The calls of a reader\<close>

text \<open>A reader's relation depends on its own counters and semaphores.\<close>

lemma reader_rel_other:
  assumes "reader_rel j (h, r) hold op P g" and "r_bufs r' j = r_bufs r j" "r_xfers r' j = r_xfers r j"
    "sem_data r' j = sem_data r j" "w_buf_next r' = w_buf_next r" "nbufs r' = nbufs r"
  shows "reader_rel j (h, r') hold op P g"
  using assms by (simp add: reader_rel_def first_kept_def)

text \<open>A change of reader \<open>i\<close>'s handle, counters and semaphores leaves the rest of the relation.\<close>

lemma reader_change:
  assumes rel: "ring_rel s a"
    and r': "nbufs r' = nbufs (rg s)" "bufsz r' = bufsz (rg s)" "w_buf_next r' = w_buf_next (rg s)"
      "w_buf_curr r' = w_buf_curr (rg s)" "w_xfer r' = w_xfer (rg s)" "n_readers r' = n_readers (rg s)"
      "s_buf r' = s_buf (rg s)" "s_byte r' = s_byte (rg s)" "eod r' = eod (rg s)"
      "e_buf r' = e_buf (rg s)" "e_byte r' = e_byte (rg s)" "count r' = count (rg s)"
      "mem r' = mem (rg s)"
    and other: "\<And>j. j \<noteq> i \<Longrightarrow> r_bufs r' j = r_bufs (rg s) j \<and> r_xfers r' j = r_xfers (rg s) j \<and>
      sem_data r' j = sem_data (rg s) j"
    and g: "got a i \<le> g"
    and own: "reader_rel i (h, r') hb (transfer_open (wr s, rg s)) (posted a) g"
  shows "ring_rel (s\<lparr>rd := (rd s)(i := h), rg := r', holds := (holds s)(i := hb)\<rparr>)
    (a\<lparr>got := (got a)(i := g), holding := (holding a)(i := hb)\<rparr>)"
proof -
  have op: "transfer_open (wr s, r') = transfer_open (wr s, rg s)"
    by (simp add: transfer_open_def r')
  have "writer_rel (wr s, r') (posted a)"
    using ring_relD(1) [OF rel] op by (simp add: writer_rel_def r')
  moreover have "starts_rel r' = starts_rel (rg s)" "ends_rel r' = ends_rel (rg s)"
    "stale_rel r' = stale_rel (rg s)" "blocks_rel r' = blocks_rel (rg s)"
    "data_rel r' = data_rel (rg s)"
    using r' by (intro starts_rel_cong ends_rel_cong stale_rel_cong blocks_rel_cong data_rel_cong;
        simp)+
  moreover have "data_rel (rg s) (posted a) ((got a)(i := g))"
    using ring_relD(6) [OF rel] g by (auto simp: data_rel_def)
  moreover have "reader_rel j (((rd s)(i := h)) j, r') (((holds s)(i := hb)) j)
      (transfer_open (wr s, rg s)) (posted a) (((got a)(i := g)) j)"
    if "j < n_readers (rg s)" for j
    using own reader_rel_other [OF ring_relD(8) [OF rel that], of r'] other [of j] r'
    by (cases "j = i") simp_all
  ultimately show ?thesis
    using ring_relD(2-5,7) [OF rel] op r'(6) by (simp add: ring_rel_def)
qed

text \<open>
  At position \<open>g\<close> of the log, the end-of-data test of the readers holds exactly at the last block
  of a transfer, and the number of valid bytes is the length of the block.
\<close>

lemma eod_test:
  assumes rel: "ring_rel s a" and g: "g < length (posted a)"
    and win: "ends (posted a) (length (posted a)) \<le> ends (posted a) g + 8"
  defines "x \<equiv> ends (posted a) g mod 8"
  shows "eod (rg s) x \<and> e_buf (rg s) x = of_nat g \<longleftrightarrow> snd (posted a ! g)"
    and "snd (posted a ! g) \<Longrightarrow> e_byte (rg s) x = of_nat (length (fst (posted a ! g)))"
proof -
  let ?P = "posted a" and ?L = "length (posted a)" and ?r = "rg s"
  note wD = writer_relD [OF ring_relD(1) [OF rel]]
  have E: "snd (?P ! p) \<Longrightarrow> p < ?L \<Longrightarrow> ends ?P ?L \<le> ends ?P p + 8 \<Longrightarrow>
      eod ?r (ends ?P p mod 8) \<and> e_buf ?r (ends ?P p mod 8) = of_nat p \<and>
      e_byte ?r (ends ?P p mod 8) = of_nat (length (fst (?P ! p)))" for p
    using ring_relD(3) [OF rel] by (simp add: ends_rel_def)
  show "snd (?P ! g) \<Longrightarrow> e_byte ?r x = of_nat (length (fst (?P ! g)))"
    using E g win by (simp add: x_def)
  show "eod ?r x \<and> e_buf ?r x = of_nat g \<longleftrightarrow> snd (?P ! g)"
  proof (cases "ends ?P g < ends ?P ?L")
    case True
    then obtain q where q: "g \<le> q" "q < ?L" "snd (?P ! q)" "ends ?P q = ends ?P g"
      by (rule last_block) simp
    then have x: "eod ?r x" "e_buf ?r x = of_nat q" using E [of q] win by (simp_all add: x_def)
    have "of_nat q = (of_nat g :: u64) \<longleftrightarrow> q = g"
      using q g wD(1) by (intro of_nat_u64_inj) auto
    moreover have "snd (?P ! g) \<longleftrightarrow> q = g"
      using last_block_unique [of ?P g q] q g by auto
    ultimately show ?thesis using x by simp
  next
    case False
    then have eq: "ends ?P g = ends ?P ?L" using ends_mono [of g ?L ?P] g by simp
    then have last: "\<not> snd (?P ! g)"
      using ends_mono [of "Suc g" ?L ?P] g by (auto simp: ends_Suc)
    have "\<not> boundary ?P ?L" using ends_less_boundary [of g ?L ?P] g eq by auto
    then have "transfer_open (wr s, ?r)"
      using ring_relD(1) [OF rel] by (auto simp: writer_rel_def)
    then have "\<not> eod ?r x \<or> unat (e_buf ?r x) < g"
      using ring_relD(4) [OF rel] g eq by (auto simp: stale_rel_def x_def)
    then show ?thesis using last g wD(1) by auto
  qed
qed


lemma block_data:
  assumes "ring_rel s a" and "i < n_readers (rg s)" and "got a i < length (posted a)"
  shows "length (fst (posted a ! got a i)) \<le> unat (bufsz (rg s))"
    "\<not> snd (posted a ! got a i) \<Longrightarrow> length (fst (posted a ! got a i)) = unat (bufsz (rg s))"
    "take (length (fst (posted a ! got a i))) (mem (rg s) (got a i mod unat (nbufs (rg s)))) =
      fst (posted a ! got a i)"
  using ring_relD(6) [OF assms(1)] assms(2,3) by (simp_all add: data_rel_def)

lemma bytes_available_ok:
  assumes rel: "ring_rel s a" and i: "i < n_readers (rg s)" and g: "got a i < length (posted a)"
    and win: "ends (posted a) (length (posted a)) \<le> ends (posted a) (got a i) + 8"
    and x: "slot (xfer h) = ends (posted a) (got a i) mod 8"
    and r': "bufsz r' = bufsz (rg s)" "eod r' = eod (rg s)" "e_buf r' = e_buf (rg s)"
      "e_byte r' = e_byte (rg s)" "r_bufs r' i = of_nat (got a i)"
  shows "unat (bytes_available i 0 (h, r')) = length (fst (posted a ! got a i))"
  using eod_test [OF rel g win] block_data(1,2) [OF rel i g] unat_u64_bound [of "bufsz (rg s)"]
  by (auto simp: bytes_available_def x r')

lemma read_bytes_ok:
  assumes rel: "ring_rel s a" and i: "i < n_readers (rg s)" and g: "got a i < length (posted a)"
    and win: "ends (posted a) (length (posted a)) \<le> ends (posted a) (got a i) + 8"
    and x: "slot (xfer h) = ends (posted a) (got a i) mod 8"
    and r': "nbufs r' = nbufs (rg s)" "bufsz r' = bufsz (rg s)" "eod r' = eod (rg s)"
      "e_buf r' = e_buf (rg s)" "e_byte r' = e_byte (rg s)" "mem r' = mem (rg s)"
      "r_bufs r' i = of_nat (got a i)"
  shows "read_bytes \<lparr>rp_block = block r' (of_nat (got a i)), rp_offset = 0,
    rp_bytes = bytes_available i 0 (h, r')\<rparr> r' = fst (posted a ! got a i)"
  using bytes_available_ok [OF rel i g win x r'(2-5,7)] block_data(3) [OF rel i g] g
    writer_relD(1) [OF ring_relD(1) [OF rel]]
  by (simp add: read_bytes_def block_of_nat r')

text \<open>A reader that starts a transfer finds its first block in \<open>s_buf\<close>.\<close>

lemma start_of_transfer:
  assumes rel: "ring_rel s a" and i: "i < n_readers (rg s)" and g: "got a i < length (posted a)"
    and st: "state (rd s i) \<noteq> IPCBUF_READING"
  shows "s_buf (rg s) (slot (r_xfers (rg s) i)) = of_nat (got a i)"
    and "s_byte (rg s) (slot (r_xfers (rg s) i)) = 0"
proof -
  let ?P = "posted a" and ?g = "got a i"
  note R = ring_relD(8) [OF rel i, unfolded reader_rel_def prod.case]
  have "ends ?P ?g < 2 ^ 64"
    using writer_relD(1) [OF ring_relD(1) [OF rel]] g ends_le [of ?P ?g] by linarith
  then have sx: "slot (r_xfers (rg s) i) = ends ?P ?g mod 8" using R by (simp add: slot_of_nat)
  have "ends ?P (length ?P) + of_bool (transfer_open (wr s, rg s)) \<le> ends ?P ?g + 8"
    using R st by simp
  moreover have "boundary ?P ?g" using R st by simp
  ultimately show "s_buf (rg s) (slot (r_xfers (rg s) i)) = of_nat ?g"
    "s_byte (rg s) (slot (r_xfers (rg s) i)) = 0"
    using ring_relD(2) [OF rel] g by (simp_all add: starts_rel_def sx)
qed

text \<open>The two ways to receive a block: within a transfer, or as the first of one.\<close>

lemma take_cases:
  assumes rel: "ring_rel s a" and i: "i < n_readers (rg s)" and nh: "\<not> holds s i"
    and f: "ipcbuf_get_next_read (rd s i, rg s) = Done p (h, r)"
  obtains
    (reading) "state (rd s i) = IPCBUF_READING" "h = rd s i"
      "r = add_sem i (Suc i) IPCBUF_FULL (-1) (rg s)"
      "p = \<lparr>rp_block = block r (of_nat (got a i)), rp_offset = 0,
            rp_bytes = bytes_available i 0 (h, r)\<rparr>"
      "got a i < length (posted a)"
  | (starting) "state (rd s i) = IPCBUF_READER"
      "h = (rd s i)\<lparr>state := IPCBUF_READING, xfer := r_xfers (rg s) i mod IPCBUF_XFERS\<rparr>"
      "r = (add_sem i (Suc i) IPCBUF_SODACK 1 (add_sem i (Suc i) IPCBUF_FULL (-1) (rg s)))
             \<lparr>r_bufs := (r_bufs (rg s))(i := of_nat (got a i)),
              r_states := (r_states (rg s))(i := IPCBUF_READING)\<rparr>"
      "p = \<lparr>rp_block = block r (of_nat (got a i)), rp_offset = 0,
            rp_bytes = bytes_available i 0 (h, r)\<rparr>"
      "got a i < length (posted a)"
proof -
  let ?r = "rg s" and ?h = "rd s i"
  note R = ring_relD(8) [OF rel i, unfolded reader_rel_def prod.case]
  have reader: "ipcbuf_is_reader (?h, ?r)" and ir: "nat (iread ?h) = i"
    using R by (auto simp: ipcbuf_is_reader_def)
  note eff = get_next_read_Done [OF f reader, unfolded ir]
  have g: "got a i < length (posted a)" using R eff(3) nh by simp
  have bi: "bytes_available i 0 (?h, add_sem i (Suc i) IPCBUF_FULL (-1) ?r) =
      bytes_available i 0 (?h, ?r)"
    by (simp add: bytes_available_def)
  consider "state ?h = IPCBUF_READING" | "state ?h = IPCBUF_READER" using R eff(1) by auto
  then show thesis
  proof cases
    case 1
    then show thesis using reading eff(4) [OF 1] g bi R by simp
  next
    case 2
    then show thesis
      using starting eff(5) [OF 2] start_of_transfer [OF rel i g] g by (simp add: block_def)
  qed
qed

text \<open>The address and the size a reader gets are those of the block, whose bytes are not moved.\<close>

lemma take_ptr:
  assumes rel: "ring_rel s a" and i: "i < n_readers (rg s)" and nh: "\<not> holds s i"
    and f: "ipcbuf_get_next_read (rd s i, rg s) = Done p (h, r)"
  shows "rp_block p = got a i mod unat (nbufs (rg s))" "rp_offset p = 0"
    "unat (rp_bytes p) = length (fst (posted a ! got a i))" "got a i < length (posted a)"
    "mem r = mem (rg s)" "nbufs r = nbufs (rg s)" "bufsz r = bufsz (rg s)"
    "n_readers r = n_readers (rg s)" "w_buf_curr r = w_buf_curr (rg s)" "w_buf_next r = w_buf_next (rg s)"
proof -
  let ?g = "got a i" and ?P = "posted a"
  note R = ring_relD(8) [OF rel i, unfolded reader_rel_def prod.case]
  note wD = writer_relD [OF ring_relD(1) [OF rel]]
  have win: "ends ?P (length ?P) \<le> ends ?P ?g + 8" using R by linarith
  have xg: "?g < length ?P \<Longrightarrow> slot (of_nat (ends ?P ?g)) = ends ?P ?g mod 8"
    using wD(1) ends_le [of ?P ?g] by (intro slot_of_nat) linarith
  from rel i nh f have "rp_block p = ?g mod unat (nbufs (rg s)) \<and> rp_offset p = 0 \<and>
    unat (rp_bytes p) = length (fst (?P ! ?g)) \<and> ?g < length ?P \<and>
    mem r = mem (rg s) \<and> nbufs r = nbufs (rg s) \<and> bufsz r = bufsz (rg s) \<and>
    n_readers r = n_readers (rg s) \<and> w_buf_curr r = w_buf_curr (rg s) \<and> w_buf_next r = w_buf_next (rg s)"
  proof (cases rule: take_cases)
    case reading
    have "unat (bytes_available i 0 (h, r)) = length (fst (?P ! ?g))"
      using R reading by (intro bytes_available_ok [OF rel i reading(5) win]) simp_all
    then show ?thesis using reading wD(1) by (simp add: block_of_nat)
  next
    case starting
    have "unat (bytes_available i 0 (h, r)) = length (fst (?P ! ?g))"
      using R starting xg by (intro bytes_available_ok [OF rel i starting(5) win]) simp_all
    then show ?thesis using starting wD(1) by (simp add: block_of_nat)
  qed
  then show "rp_block p = ?g mod unat (nbufs (rg s))" "rp_offset p = 0"
    "unat (rp_bytes p) = length (fst (?P ! ?g))" "?g < length ?P"
    "mem r = mem (rg s)" "nbufs r = nbufs (rg s)" "bufsz r = bufsz (rg s)"
    "n_readers r = n_readers (rg s)" "w_buf_curr r = w_buf_curr (rg s)" "w_buf_next r = w_buf_next (rg s)"
    by simp_all
qed

lemma Take_step:
  assumes rel: "ring_rel s a" and ex: "ring_exec (Take i) s = Some (e, s')"
  shows "\<exists>a'. stream_step a e a' \<and> ring_rel s' a'"
proof -
  let ?r = "rg s" and ?P = "posted a" and ?g = "got a i"
  from ex obtain p h r where i: "i < n_readers ?r" and nh: "\<not> holds s i"
    and f: "ipcbuf_get_next_read (rd s i, ?r) = Done p (h, r)" and e: "e = Took i (read_bytes p r)"
    and s': "s' = s\<lparr>rd := (rd s)(i := h), rg := r, holds := (holds s)(i := True)\<rparr>"
    by (auto split: if_splits option.splits)
  note R = ring_relD(8) [OF rel i, unfolded reader_rel_def prod.case]
  note wD = writer_relD [OF ring_relD(1) [OF rel]]
  have win: "ends ?P (length ?P) \<le> ends ?P ?g + 8" using R by linarith
  have xg: "?g < length ?P \<Longrightarrow> slot (of_nat (ends ?P ?g)) = ends ?P ?g mod 8"
    using wD(1) ends_le [of ?P ?g] by (intro slot_of_nat) linarith
  have fk: "nbufs r = nbufs ?r \<Longrightarrow> w_buf_next r = w_buf_next ?r \<Longrightarrow> first_kept r = first_kept ?r"
    by (rule first_kept_cong)
  have full: "?g < length ?P \<Longrightarrow> Suc (nat (int (sem_data ?r i IPCBUF_FULL) - 1) + ?g) = length ?P"
    using R nh by auto
  from rel i nh f have "?g < length ?P \<and> read_bytes p r = fst (?P ! ?g) \<and>
    ring_rel s' (a\<lparr>got := (got a)(i := ?g), holding := (holding a)(i := True)\<rparr>)"
  proof (cases rule: take_cases)
    case reading
    have x: "slot (xfer h) = ends ?P ?g mod 8" using R reading by simp
    have rb: "r_bufs r i = of_nat ?g" using R reading(3) by simp
    have "read_bytes p r = fst (?P ! ?g)"
      unfolding reading(4) by (intro read_bytes_ok [OF rel i reading(5) win x]) (simp_all add: reading(3) rb R)
    moreover have "reader_rel i (h, r) True (transfer_open (wr s, ?r)) ?P ?g"
      using R reading nh fk full by (simp add: reader_rel_def sem_data_add_one)
    then have "ring_rel s' (a\<lparr>got := (got a)(i := ?g), holding := (holding a)(i := True)\<rparr>)"
      unfolding s' by (intro reader_change [OF rel]) (simp_all add: reading(3))
    ultimately show ?thesis using reading(5) by blast
  next
    case starting
    have x: "slot (xfer h) = ends ?P ?g mod 8" using R starting xg by simp
    have "read_bytes p r = fst (?P ! ?g)"
      unfolding starting(4) by (intro read_bytes_ok [OF rel i starting(5) win x]) (simp_all add: starting(3))
    moreover have "reader_rel i (h, r) True (transfer_open (wr s, ?r)) ?P ?g"
      using R starting nh fk x full by (simp add: reader_rel_def sem_data_add_one)
    then have "ring_rel s' (a\<lparr>got := (got a)(i := ?g), holding := (holding a)(i := True)\<rparr>)"
      unfolding s' by (intro reader_change [OF rel]) (simp_all add: starting(3))
    ultimately show ?thesis using starting(5) by blast
  qed
  moreover from this have "stream_step a e (a\<lparr>holding := (holding a)(i := True)\<rparr>)"
    unfolding e using nh ring_relD(7) [OF rel] by (intro stream_step.took) simp_all
  ultimately show ?thesis by auto
qed


lemma Clear_step:
  assumes rel: "ring_rel s a" and ex: "ring_exec (Clear i) s = Some (e, s')"
  shows "\<exists>a'. stream_step a e a' \<and> ring_rel s' a'"
proof -
  let ?r = "rg s" and ?h = "rd s i" and ?P = "posted a" and ?g = "got a i"
  from ex obtain h r where i: "i < n_readers ?r" and hold: "holds s i"
    and f: "ipcbuf_mark_cleared (?h, ?r) = Done () (h, r)" and e: "e = Cleared i (ipcbuf_eod (h, r))"
    and s': "s' = s\<lparr>rd := (rd s)(i := h), rg := r, holds := (holds s)(i := False)\<rparr>"
    by (auto split: if_splits option.splits)
  note R = ring_relD(8) [OF rel i, unfolded reader_rel_def prod.case]
  have ir: "nat (iread ?h) = i" using R by auto
  note eff = mark_cleared_Done [OF f, unfolded ir]
  have g: "?g < length ?P" and win: "ends ?P (length ?P) \<le> ends ?P ?g + 8" using R hold by auto
  have gs: "boundary ?P (Suc ?g) = snd (?P ! ?g)"
      "ends ?P (Suc ?g) = ends ?P ?g + of_bool (snd (?P ! ?g))"
    using g by (simp_all add: ends_Suc)
  note test = eod_test(1) [OF rel g win]
  have x: "slot (xfer ?h) = ends ?P ?g mod 8" "r_bufs ?r i = of_nat ?g" using R hold by auto
  have "ipcbuf_eod (h, r) = snd (?P ! ?g) \<and>
    ring_rel s' (a\<lparr>got := (got a)(i := Suc ?g), holding := (holding a)(i := False)\<rparr>)"
  proof (cases "snd (?P ! ?g)")
    case False
    then have hr: "h = ?h" "r = (add_sem i (Suc i) IPCBUF_CLEAR 1 ?r)
        \<lparr>r_bufs := (r_bufs ?r)(i := r_bufs ?r i + 1)\<rparr>"
      using eff(2) test x by auto
    have "first_kept r = first_kept ?r" by (simp add: hr first_kept_def)
    then have "reader_rel i (h, r) False (transfer_open (wr s, ?r)) ?P (Suc ?g)"
      using R hold False gs x eff(1)
      by (simp add: reader_rel_def sem_data_add_one hr add.commute)
    then have "ring_rel s' (a\<lparr>got := (got a)(i := Suc ?g), holding := (holding a)(i := False)\<rparr>)"
      unfolding s' by (intro reader_change [OF rel]) (simp_all add: hr)
    then show ?thesis using False eff(1) by (simp add: ipcbuf_eod_def hr)
  next
    case True
    then have hr: "h = ?h\<lparr>state := IPCBUF_RSTOP, xfer := (r_xfers ?r i + 1) mod IPCBUF_XFERS\<rparr>"
      "r = (add_sem i (Suc i) IPCBUF_EODACK 1 (add_sem i (Suc i) IPCBUF_CLEAR 1 ?r))
          \<lparr>r_states := (r_states ?r)(i := IPCBUF_RSTOP),
           r_bufs := (r_bufs ?r)(i := r_bufs ?r i + 1),
           r_xfers := (r_xfers ?r)(i := r_xfers ?r i + 1)\<rparr>"
      using eff(3) test x by auto
    have "first_kept r = first_kept ?r" by (simp add: hr first_kept_def)
    then have "reader_rel i (h, r) False (transfer_open (wr s, ?r)) ?P (Suc ?g)"
      using R hold True gs x eff(1)
      by (simp add: reader_rel_def sem_data_add_one hr add.commute)
    then have "ring_rel s' (a\<lparr>got := (got a)(i := Suc ?g), holding := (holding a)(i := False)\<rparr>)"
      unfolding s' by (intro reader_change [OF rel]) (simp_all add: hr)
    then show ?thesis using True by (simp add: ipcbuf_eod_def hr)
  qed
  moreover from this have "stream_step a e
      (a\<lparr>got := (got a)(i := Suc ?g), holding := (holding a)(i := False)\<rparr>)"
    unfolding e using hold ring_relD(7) [OF rel] by (intro stream_step.cleared) simp_all
  ultimately show ?thesis by auto
qed

lemma Ack_step:
  assumes rel: "ring_rel s a" and ex: "ring_exec (Ack i) s = Some (e, s')"
  shows "\<exists>a'. stream_step a e a' \<and> ring_rel s' a'"
proof -
  let ?h = "(rd s i)\<lparr>state := IPCBUF_READER\<rparr>"
  let ?r = "(rg s)\<lparr>r_states := (r_states (rg s))(nat (iread (rd s i)) := IPCBUF_READER)\<rparr>"
  from ex have i: "i < n_readers (rg s)" and eod: "ipcbuf_eod (rd s i, rg s)"
    by (auto split: if_splits)
  note R = ring_relD(8) [OF rel i, unfolded reader_rel_def prod.case]
  from eod R have st: "state (rd s i) = IPCBUF_RSTOP" by (auto simp: ipcbuf_eod_def)
  with ex i eod have e: "e = Internal" and s': "s' = s\<lparr>rd := (rd s)(i := ?h), rg := ?r\<rparr>"
    by (auto simp: ipcbuf_reset_def)
  have nh: "\<not> holds s i" using R st by auto
  have "first_kept ?r = first_kept (rg s)" by (simp add: first_kept_def)
  then have "reader_rel i (?h, ?r) False (transfer_open (wr s, rg s)) (posted a) (got a i)"
    using R st nh by (simp add: reader_rel_def)
  then have "ring_rel (s\<lparr>rd := (rd s)(i := ?h), rg := ?r, holds := (holds s)(i := False)\<rparr>)
      (a\<lparr>got := (got a)(i := got a i), holding := (holding a)(i := False)\<rparr>)"
    by (intro reader_change [OF rel]) simp_all
  moreover have "s' = s\<lparr>rd := (rd s)(i := ?h), rg := ?r, holds := (holds s)(i := False)\<rparr>"
    using nh by (simp add: s' fun_upd_idem)
  moreover have "a = a\<lparr>got := (got a)(i := got a i), holding := (holding a)(i := False)\<rparr>"
    using nh ring_relD(7) [OF rel] by (simp add: fun_upd_idem)
  ultimately have "ring_rel s' a" by metis
  then show ?thesis using e by (auto intro: stream_step.internal)
qed

lemma ring_exec_simulates:
  assumes "ring_rel s a" and "ring_exec act s = Some (e, s')"
  shows "\<exists>a'. stream_step a e a' \<and> ring_rel s' a'"
proof (cases act)
  case Open
  with assms show ?thesis by (metis Open_step)
next
  case (Store b d)
  with assms show ?thesis by (metis Store_step)
next
  case Zero
  with assms show ?thesis by (metis Zero_step)
next
  case (Fill n)
  with assms show ?thesis by (metis Fill_step)
next
  case End_of_data
  with assms show ?thesis by (metis End_of_data_step)
next
  case Relock
  with assms show ?thesis by (metis Relock_step)
next
  case (Take i)
  with assms show ?thesis by (metis Take_step)
next
  case (Clear i)
  with assms show ?thesis by (metis Clear_step)
next
  case (Ack i)
  with assms show ?thesis by (metis Ack_step)
qed

interpretation ring_sim: forward_simulation ring_step stream_step ring_rel
  by unfold_locales (auto simp: ring_step_def intro: ring_exec_simulates)

interpretation ring_inv: invariant_system ring_step "\<lambda>s. \<exists>a. ring_rel s a"
  by (rule ring_sim.invariant_system_image)

end
