(* ===== verification/Ipcbuf_Lifecycle.thy ===== *)
theory Ipcbuf_Lifecycle
  imports Ipcbuf_Effects
begin

text \<open>
  Creation, connection and destruction of rings: \<open>ipc_alloc\<close> of src/ipcutil.c and the functions
  of src/ipcbuf.c from \<open>ipcsync_get\<close> to \<open>ipcbuf_destroy\<close>, \<open>ipcbuf_lock\<close>, \<open>ipcbuf_unlock\<close> and
  \<open>ipcbuf_page\<close>. They act on the kernel's tables of shared memory segments and semaphore sets,
  indexed by key; \<open>rings\<close> holds what the segments and semaphores of a ring contain, under the
  key of its synchronisation segment. The key IPC_PRIVATE (0), for which the kernel makes a new
  object at every call, and the kernel's limits are outside this model. The code for CUDA
  devices (\<open>HAVE_CUDA\<close>) is not modelled; without it \<open>shm_addr\<close> repeats \<open>buffer\<close>.
\<close>

section \<open>The kernel's objects\<close>

record kernel =
  segs :: "key_t \<Rightarrow> u64 option"
  semsets :: "key_t \<Rightarrow> nat option"
  rings :: "key_t \<Rightarrow> ring"

type_synonym 'h life_st = "'h ipcbuf_scheme \<times> kernel"

text \<open>A new segment or semaphore set is filled with zeros.\<close>

definition zero_ring :: ring where
  "zero_ring =
    \<lparr>semkey_connect = 0, semkey_data = (\<lambda>_. 0), nbufs = 0, bufsz = 0, w_buf_next = 0,
     w_buf_curr = 0, w_state = IPCBUF_DISCON, w_xfer = 0, r_bufs = (\<lambda>_. 0),
     r_states = (\<lambda>_. IPCBUF_DISCON), r_xfers = (\<lambda>_. 0), n_readers = 0, s_buf = (\<lambda>_. 0),
     s_byte = (\<lambda>_. 0), eod = (\<lambda>_. False), e_buf = (\<lambda>_. 0), e_byte = (\<lambda>_. 0), on_device_id = 0,
     count = (\<lambda>_. 0), shmkey = (\<lambda>_. 0), mem = (\<lambda>_. []), sem_connect = (\<lambda>_. 0),
     sem_data = (\<lambda>_ _. 0)\<rparr>"

text \<open>
  shmget(2) and semget(2): with \<open>IPC_CREAT | IPC_EXCL\<close> (\<open>create\<close>) the key must be free,
  otherwise the object must exist and be large enough. \<open>ipc_alloc\<close> attaches the segment.
\<close>

definition ipc_alloc :: "key_t \<Rightarrow> u64 \<Rightarrow> bool \<Rightarrow> kernel \<Rightarrow> kernel option" where
  "ipc_alloc key sz create k =
    (if create
     then if segs k key \<noteq> None \<or> sz = 0 then None
          else Some (k\<lparr>segs := (segs k)(key := Some sz)\<rparr>)
     else case segs k key of
       None \<Rightarrow> None
     | Some sz' \<Rightarrow> if sz > sz' then None else Some k)"

definition sys_semget :: "key_t \<Rightarrow> nat \<Rightarrow> bool \<Rightarrow> kernel \<Rightarrow> key_t option \<times> kernel" where
  "sys_semget key n create k =
    (if create
     then if semsets k key \<noteq> None then (None, k)
          else (Some key, k\<lparr>semsets := (semsets k)(key := Some n)\<rparr>)
     else case semsets k key of
       None \<Rightarrow> (None, k)
     | Some n' \<Rightarrow> if n > n' then (None, k) else (Some key, k))"

text \<open>Run an operation on the ring the handle is connected to.\<close>

definition with_ring ::
  "(('h, unit) buf_st \<Rightarrow> ('a, ('h, unit) buf_st) outcome) \<Rightarrow> 'h life_st \<Rightarrow> ('a, 'h life_st) outcome"
  where
  "with_ring f = (\<lambda>(id, k). case sync_ptr id of
     None \<Rightarrow> Crash
   | Some key \<Rightarrow>
      (let put = (\<lambda>(id', r). (id', k\<lparr>rings := (rings k)(key := r)\<rparr>))
       in case f (id, rings k key) of
            Done a s \<Rightarrow> Done a (put s)
          | Err c s \<Rightarrow> Err c (put s)
          | Wait s \<Rightarrow> Wait (put s)
          | Crash \<Rightarrow> Crash))"

section \<open>Creation and connection\<close>

text \<open>The size of \<open>ipcsync_t\<close> (LP64), of \<open>char\<close> and of \<open>key_t\<close>.\<close>

definition sync_size :: "u64 \<Rightarrow> u64" where
  "sync_size nb = 528 + nb + 4 * nb"

definition ipcsync_get :: "key_t \<Rightarrow> u64 \<Rightarrow> bool \<Rightarrow> 'h life_st \<Rightarrow> (unit, 'h life_st) outcome" where
  "ipcsync_get key nb create = (\<lambda>(id, k).
     case ipc_alloc key (sync_size nb) create k of
       None \<Rightarrow> Err (-1) (id\<lparr>sync_ptr := None\<rparr>, k)
     | Some k' \<Rightarrow>
        Done () (id\<lparr>sync_ptr := Some key, syncid := Some key, state := IPCBUF_DISCON, viewbuf := 0\<rparr>,
                 if create then k'\<lparr>rings := (rings k')(key := zero_ring)\<rparr> else k'))"

text \<open>
  \<open>ipcbuf_get\<close> asks for the connection semaphores, every reader's semaphores (going on after a
  failure) and the sub-blocks (stopping at the first failure, whose entry of \<open>buffer\<close> is NULL
  and whose entry of \<open>shmid\<close> is left unset).
\<close>

fun get_sems :: "key_t list \<Rightarrow> bool \<Rightarrow> kernel \<Rightarrow> key_t option list \<times> kernel" where
  "get_sems [] create k = ([], k)"
| "get_sems (key # keys) create k =
    (let (sid, k) = sys_semget key 5 create k;
         (sids, k) = get_sems keys create k
     in (sid # sids, k))"

fun get_bufs :: "key_t list \<Rightarrow> u64 \<Rightarrow> bool \<Rightarrow> kernel \<Rightarrow> key_t option list \<times> key_t option list \<times> kernel"
  where
  "get_bufs [] sz create k = ([], [], k)"
| "get_bufs (key # keys) sz create k =
    (case ipc_alloc key sz create k of
       None \<Rightarrow> ([None], [], k)
     | Some k' \<Rightarrow>
        (let (bufs, shms, k'') = get_bufs keys sz create k'
         in (Some key # bufs, Some key # shms, k'')))"

definition ipcbuf_get :: "bool \<Rightarrow> 'h life_st \<Rightarrow> (unit, 'h life_st) outcome" where
  "ipcbuf_get create = (\<lambda>(id, k). case sync_ptr id of
     None \<Rightarrow> Crash
   | Some key \<Rightarrow>
      (let r = rings k key;
           (cid, k) = sys_semget (semkey_connect r) 2 create k
       in if n_readers r > IPCBUF_READERS then Crash
          else
            let (sids, k) = get_sems (map (semkey_data r) [0..<n_readers r]) create k;
                (bufs, shms, k) = get_bufs (map (shmkey r) [0..<unat (nbufs r)]) (bufsz r) create k;
                s = (id\<lparr>semid_connect := cid, semid_data := sids, buffer := bufs, shmid := shms\<rparr>, k)
            in if cid = None \<or> None \<in> set sids \<or> None \<in> set bufs then Err (-1) s else Done () s))"

definition key_increment :: key_t where
  "key_increment = 0x00010000"

text \<open>
  The ring as \<open>ipcbuf_create_work\<close> fills it in: the keys of the pieces are the ring's key plus
  1, 2, ... times \<open>key_increment\<close>. (The fresh sub-blocks are zero.)
\<close>

definition init_ring :: "key_t \<Rightarrow> u64 \<Rightarrow> u64 \<Rightarrow> nat \<Rightarrow> ring \<Rightarrow> ring" where
  "init_ring key nb bz n r =
    r\<lparr>nbufs := nb, bufsz := bz, n_readers := n, on_device_id := -1,
      s_buf := (\<lambda>x. if x < 8 then 0 else s_buf r x),
      s_byte := (\<lambda>x. if x < 8 then 0 else s_byte r x),
      e_buf := (\<lambda>x. if x < 8 then 0 else e_buf r x),
      e_byte := (\<lambda>x. if x < 8 then 0 else e_byte r x),
      eod := (\<lambda>x. if x < 8 then True else eod r x),
      semkey_connect := key + key_increment,
      semkey_data := (\<lambda>i. if i < IPCBUF_READERS then key + of_nat (i + 2) * key_increment
                          else semkey_data r i),
      count := (\<lambda>b. if b < unat nb then 0 else count r b),
      shmkey := (\<lambda>b. if b < unat nb then key + of_nat (b + 10) * key_increment else shmkey r b),
      mem := (\<lambda>b. if b < unat nb then replicate (unat bz) 0 else mem r b),
      w_buf_curr := 0, w_buf_next := 0, w_xfer := 0, w_state := IPCBUF_DISCON,
      r_bufs := (\<lambda>i. if i < IPCBUF_READERS then 0 else r_bufs r i),
      r_xfers := (\<lambda>i. if i < IPCBUF_READERS then 0 else r_xfers r i),
      r_states := (\<lambda>i. if i < IPCBUF_READERS then IPCBUF_DISCON else r_states r i)\<rparr>"

text \<open>The semaphores of a new ring: one writer, \<open>n\<close> readers, eight transfers each.\<close>

definition init_sems :: "('h, 'r) buf_st \<Rightarrow> (unit, ('h, 'r) buf_st) outcome" where
  "init_sems = (\<lambda>(id, r).
     andthen (ipc_semop (Conn IPCBUF_WRITE) 1 0 (id, r)) (\<lambda>_ (id, r).
     andthen (ipc_semop (Conn IPCBUF_READ) (short_of (of_nat (n_readers r) :: u32)) 0 (id, r))
       (\<lambda>_ (id, r).
     for_loop 0 (n_readers r) (\<lambda>i s.
       andthen (ipc_semop (Data i IPCBUF_SODACK) 8 0 s) (\<lambda>_ s.
       andthen (ipc_semop (Data i IPCBUF_EODACK) 8 0 s) (\<lambda>_ s.
       ipc_semop (Data i IPCBUF_READER_CONN) 1 0 s))) (id, r))))"

definition ipcbuf_create ::
  "key_t \<Rightarrow> u64 \<Rightarrow> u64 \<Rightarrow> nat \<Rightarrow> 'h life_st \<Rightarrow> (unit, 'h life_st) outcome" where
  "ipcbuf_create key nb bz n s =
     andthen (ipcsync_get key nb True s) (\<lambda>_ s.
     andthen (with_ring (\<lambda>(id, r). Done ()
                (id\<lparr>buffer := [], viewbuf := 0, xfer := 0, soclock_buf := 0, iread := -1\<rparr>,
                 init_ring key nb bz n r)) s) (\<lambda>_ s.
     andthen (ipcbuf_get True s) (\<lambda>_ s.
     andthen (with_ring init_sems s) (\<lambda>_ (id, k).
       Done () (id\<lparr>state := IPCBUF_VIEWER\<rparr>, k)))))"

definition ipcbuf_connect :: "key_t \<Rightarrow> 'h life_st \<Rightarrow> (unit, 'h life_st) outcome" where
  "ipcbuf_connect key s =
     andthen (ipcsync_get key 0 False s) (\<lambda>_ (id, k).
     andthen (ipcbuf_get False (id\<lparr>buffer := []\<rparr>, k)) (\<lambda>_ (id, k).
       Done () (id\<lparr>state := IPCBUF_VIEWER\<rparr>, k)))"

section \<open>Disconnection and destruction\<close>

definition ipcbuf_disconnect :: "'h life_st \<Rightarrow> (unit, 'h life_st) outcome" where
  "ipcbuf_disconnect = (\<lambda>(id, k).
     if sync_ptr id = None then Crash
     else Done () (id\<lparr>buffer := [], shmid := [], semid_data := [], sync_ptr := None,
                      state := IPCBUF_DISCON, iread := -1\<rparr>, k))"

text \<open>\<open>IPC_RMID\<close> on an identifier that is not -1 frees the key.\<close>

definition rm_sem :: "key_t option \<Rightarrow> kernel \<Rightarrow> kernel" where
  "rm_sem sid k = (case sid of None \<Rightarrow> k | Some key \<Rightarrow> k\<lparr>semsets := (semsets k)(key := None)\<rparr>)"

definition rm_seg :: "key_t option \<Rightarrow> kernel \<Rightarrow> kernel" where
  "rm_seg sid k = (case sid of None \<Rightarrow> k | Some key \<Rightarrow> k\<lparr>segs := (segs k)(key := None)\<rparr>)"

definition ipcbuf_destroy :: "'h life_st \<Rightarrow> (unit, 'h life_st) outcome" where
  "ipcbuf_destroy = (\<lambda>(id, k). case sync_ptr id of
     None \<Rightarrow> Crash
   | Some key \<Rightarrow>
      (let r = rings k key
       in if length (semid_data id) < n_readers r \<or> length (shmid id) < unat (nbufs r) then Crash
          else
            let k = rm_sem (semid_connect id) k;
                k = fold rm_sem (take (n_readers r) (semid_data id)) k;
                k = fold rm_seg (take (unat (nbufs r)) (shmid id)) k;
                k = rm_seg (syncid id) k
            in Done () (id\<lparr>semid_connect := None, buffer := [], shmid := [], semid_data := [],
                           sync_ptr := None, syncid := None\<rparr>, k)))"

section \<open>Locking in memory and paging in\<close>

text \<open>
  \<open>ipcbuf_lock\<close> and \<open>ipcbuf_unlock\<close> (where the platform has SHM_LOCK) ask the kernel to pin the
  segments; the answers are the argument \<open>shmctl\<close>, asked for \<open>syncid\<close> and then each \<open>shmid\<close>.
\<close>

definition ipcbuf_lock :: "(key_t option \<Rightarrow> bool) \<Rightarrow> ('h, 'r) buf_st \<Rightarrow> int" where
  "ipcbuf_lock shmctl = (\<lambda>(id, r).
     if syncid id = None \<or> shmid id = [] then -1
     else if \<not> shmctl (syncid id) then -1
     else if \<forall>i \<in> set (take (unat (nbufs r)) (shmid id)). shmctl i then 0
     else -1)"

definition ipcbuf_unlock :: "(key_t option \<Rightarrow> bool) \<Rightarrow> ('h, 'r) buf_st \<Rightarrow> int" where
  "ipcbuf_unlock shmctl = (\<lambda>(id, r).
     if syncid id = None \<or> shmid id = [] then -1
     else if \<not> shmctl (syncid id) then -1
     else if \<forall>i \<in> set (take (unat (nbufs r)) (shmid id)). shmctl i then 0
     else -1)"

definition ipcbuf_page :: "('h, 'r) buf_st \<Rightarrow> (unit, ('h, 'r) buf_st) outcome" where
  "ipcbuf_page = (\<lambda>(id, r).
     if syncid id = None \<or> shmid id = [] then Err (-1) (id, r)
     else Done () (id, r\<lparr>mem := (\<lambda>b. if b < unat (nbufs r) then replicate (unat (bufsz r)) 0
                                     else mem r b)\<rparr>))"

end
