(* ===== verification/Ring_Lifetime.thy ===== *)
theory Ring_Lifetime
  imports Ipcbuf_Lifecycle
begin

text \<open>
  The life of a ring: the keys it uses, what a successful creation makes, that destruction
  gives back what creation took, and that a connection finds every piece.
\<close>

section \<open>The keys of a ring\<close>

text \<open>The \<open>j\<close>-th key of a ring: 0 is the synchronisation segment, 1 the connection
  semaphores, 2 to 9 the readers' semaphores, from 10 on the sub-blocks.\<close>

definition ring_key :: "key_t \<Rightarrow> nat \<Rightarrow> key_t" where
  "ring_key key j = key + of_nat j * key_increment"

lemma ring_key_0 [simp]: "ring_key key 0 = key"
  by (simp add: ring_key_def)

lemma unat_key_offset: "unat (of_nat j * key_increment) = (j mod 65536) * 65536"
proof -
  have "unat (of_nat j * key_increment) = (j mod (65536 * 65536)) * 65536 mod (65536 * 65536)"
    by (simp add: key_increment_def unat_word_ariths unat_of_nat)
  also have "\<dots> = (j mod (65536 * 65536)) mod 65536 * 65536"
    by (rule mod_mult_mult2)
  also have "(j mod (65536 * 65536)) mod 65536 = j mod 65536"
    by (rule mod_mod_cancel) simp
  finally show ?thesis .
qed

lemma ring_key_inj: "i < 65536 \<Longrightarrow> j < 65536 \<Longrightarrow> ring_key key i = ring_key key j \<longleftrightarrow> i = j"
  (is "_ \<Longrightarrow> _ \<Longrightarrow> ?thesis")
proof -
  assume ij: "i < 65536" "j < 65536"
  then have "unat (of_nat i * key_increment) = i * 65536" "unat (of_nat j * key_increment) = j * 65536"
    by (simp_all only: unat_key_offset mod_less)
  then have "of_nat i * key_increment = of_nat j * key_increment \<longleftrightarrow> i = j"
    by (metis mult_right_cancel zero_neq_numeral)
  then show ?thesis by (simp add: ring_key_def)
qed

lemma ring_key_low: "unat (ring_key key j) mod 65536 = unat key mod 65536"
proof -
  have "unat (ring_key key j) = (unat key + (j mod 65536) * 65536) mod (65536 * 65536)"
    by (simp add: ring_key_def unat_word_ariths(1) unat_key_offset)
  then show ?thesis by (simp add: mod_mod_cancel)
qed

text \<open>All of a list of keys are free, or were before they were taken.\<close>

definition all_free :: "key_t list \<Rightarrow> (key_t \<Rightarrow> 'v option) \<Rightarrow> bool" where
  "all_free keys t \<longleftrightarrow> distinct keys \<and> (\<forall>x \<in> set keys. t x = None)"

definition taken :: "key_t list \<Rightarrow> 'v \<Rightarrow> (key_t \<Rightarrow> 'v option) \<Rightarrow> key_t \<Rightarrow> 'v option" where
  "taken keys v t = (\<lambda>x. if x \<in> set keys then Some v else t x)"

lemma all_free_Cons:
  "all_free (key # keys) t \<longleftrightarrow> t key = None \<and> all_free keys (t(key := Some v))"
  by (auto simp: all_free_def split: if_splits)

lemma taken_Nil [simp]: "taken [] v t = t"
  by (simp add: taken_def)

lemma taken_Cons: "taken (key # keys) v t = taken keys v (t(key := Some v))"
  by (auto simp: taken_def)

lemma get_sems_create:
  "get_sems keys True k = (sids, k') \<and> None \<notin> set sids \<longleftrightarrow>
     all_free keys (semsets k) \<and> sids = map Some keys \<and>
     k' = k\<lparr>semsets := taken keys 5 (semsets k)\<rparr>"
proof (induction keys arbitrary: k sids k')
  case Nil
  then show ?case by (auto simp: all_free_def)
next
  case (Cons key keys)
  let ?k = "k\<lparr>semsets := (semsets k)(key := Some 5)\<rparr>"
  obtain sids1 k1 where g: "get_sems keys True ?k = (sids1, k1)" by fastforce
  show ?case
  proof (cases "semsets k key")
    case None
    then show ?thesis
      using Cons.IH [of ?k sids1 k1] Cons.IH [of ?k "map Some keys"] g all_free_Cons [of key keys "semsets k" 5]
      by (auto simp: sys_semget_def taken_Cons fun_upd_def)
  qed (auto simp: sys_semget_def all_free_def split: prod.splits)
qed

lemma get_bufs_create:
  assumes "sz \<noteq> 0"
  shows "get_bufs keys sz True k = (bufs, shms, k') \<and> None \<notin> set bufs \<longleftrightarrow>
     all_free keys (segs k) \<and> bufs = map Some keys \<and> shms = map Some keys \<and>
     k' = k\<lparr>segs := taken keys sz (segs k)\<rparr>"
proof (induction keys arbitrary: k bufs shms k')
  case Nil
  then show ?case by (auto simp: all_free_def)
next
  case (Cons key keys)
  let ?k = "k\<lparr>segs := (segs k)(key := Some sz)\<rparr>"
  obtain bufs1 shms1 k1 where g: "get_bufs keys sz True ?k = (bufs1, shms1, k1)"
    using prod_cases3 by blast
  show ?case
  proof (cases "segs k key")
    case None
    then show ?thesis
      using Cons.IH [of ?k bufs1 shms1 k1] Cons.IH [of ?k "map Some keys" "map Some keys"] g
        all_free_Cons [of key keys "segs k" sz] assms
      by (auto simp: ipc_alloc_def taken_Cons fun_upd_def)
  qed (auto simp: ipc_alloc_def all_free_def)
qed


section \<open>What creation makes\<close>

definition sub_block_keys :: "key_t \<Rightarrow> u64 \<Rightarrow> key_t list" where
  "sub_block_keys key nb = map (\<lambda>b. ring_key key (b + 10)) [0..<unat nb]"

definition reader_keys :: "key_t \<Rightarrow> nat \<Rightarrow> key_t list" where
  "reader_keys key n = map (\<lambda>i. ring_key key (i + 2)) [0..<n]"

lemma init_ring_keys:
  "map (shmkey (init_ring key nb bz n r)) [0..<unat nb] = sub_block_keys key nb"
  "n \<le> 8 \<Longrightarrow> map (semkey_data (init_ring key nb bz n r)) [0..<n] = reader_keys key n"
  "semkey_connect (init_ring key nb bz n r) = ring_key key 1"
  by (simp_all add: init_ring_def sub_block_keys_def reader_keys_def ring_key_def)

text \<open>The ring a successful creation leaves.\<close>

definition new_ring :: "key_t \<Rightarrow> u64 \<Rightarrow> u64 \<Rightarrow> nat \<Rightarrow> ring" where
  "new_ring key nb bz n =
    add_sem 0 n IPCBUF_READER_CONN 1 (add_sem 0 n IPCBUF_EODACK 8 (add_sem 0 n IPCBUF_SODACK 8
      ((init_ring key nb bz n zero_ring)\<lparr>sem_connect := (\<lambda>_. 0)(IPCBUF_WRITE := 1, IPCBUF_READ := n)\<rparr>)))"

lemma reader_sems_loop:
  assumes "\<forall>i q. lo \<le> i \<and> i < lo + m \<longrightarrow> sem_data r i q = 0"
  shows "for_loop lo m (\<lambda>i s.
       andthen (ipc_semop (Data i IPCBUF_SODACK) 8 0 s) (\<lambda>_ s.
       andthen (ipc_semop (Data i IPCBUF_EODACK) 8 0 s) (\<lambda>_ s.
       ipc_semop (Data i IPCBUF_READER_CONN) 1 0 s))) (h, r) =
    Done () (h, add_sem lo (lo + m) IPCBUF_READER_CONN 1 (add_sem lo (lo + m) IPCBUF_EODACK 8
      (add_sem lo (lo + m) IPCBUF_SODACK 8 r)))"
  using assms
proof (induction m arbitrary: lo r)
  case (Suc m)
  let ?add = "\<lambda>lo hi r. add_sem lo hi IPCBUF_READER_CONN 1 (add_sem lo hi IPCBUF_EODACK 8
      (add_sem lo hi IPCBUF_SODACK 8 r))"
  let ?r = "?add lo (Suc lo) r"
  have z: "sem_data r lo q = 0" for q using Suc.prems by simp
  have body: "ipc_semop (Data lo IPCBUF_SODACK) 8 0 (h, r) =
        Done () (h, add_sem lo (Suc lo) IPCBUF_SODACK 8 r)"
      "ipc_semop (Data lo IPCBUF_EODACK) 8 0 (h, add_sem lo (Suc lo) IPCBUF_SODACK 8 r) =
        Done () (h, add_sem lo (Suc lo) IPCBUF_EODACK 8 (add_sem lo (Suc lo) IPCBUF_SODACK 8 r))"
      "ipc_semop (Data lo IPCBUF_READER_CONN) 1 0
         (h, add_sem lo (Suc lo) IPCBUF_EODACK 8 (add_sem lo (Suc lo) IPCBUF_SODACK 8 r)) =
        Done () (h, ?r)"
    by (simp_all add: ipc_semop_Data sem_data_add_sem z)
  have "\<forall>i q. Suc lo \<le> i \<and> i < Suc lo + m \<longrightarrow> sem_data ?r i q = 0"
    using Suc.prems by (simp add: sem_data_add_sem)
  note IH = Suc.IH [OF this]
  have "?add (Suc lo) (Suc lo + m) ?r = ?add lo (lo + Suc m) r"
    by (auto simp: add_sem_def add_at_def fun_eq_iff)
  then show ?case using IH by (simp add: body)
qed simp

lemma init_sems_new_ring:
  assumes "n \<le> 8"
  shows "init_sems (h, init_ring key nb bz n zero_ring) = Done () (h, new_ring key nb bz n)"
proof -
  have "n \<in> set [0..<9]" using assms by simp
  then have short: "short_of (of_nat n :: u32) = int n"
    by (auto simp: short_of_def upt_rec)
  have r: "n_readers (init_ring key nb bz m zero_ring) = m"
    "sem_connect (init_ring key nb bz m zero_ring) = (\<lambda>_. 0)"
    "sem_data (init_ring key nb bz m zero_ring) = (\<lambda>_ _. 0)" for m
    by (simp_all add: init_ring_def zero_ring_def)
  note loop = reader_sems_loop [of 0 n "(init_ring key nb bz n zero_ring)
    \<lparr>sem_connect := (\<lambda>_. 0)(IPCBUF_WRITE := 1, IPCBUF_READ := n)\<rparr>" h]
  have conn: "ipc_semop (Conn IPCBUF_WRITE) 1 0 (h, init_ring key nb bz n zero_ring) =
      Done () (h, (init_ring key nb bz n zero_ring)\<lparr>sem_connect := (\<lambda>_. 0)(IPCBUF_WRITE := 1)\<rparr>)"
    "ipc_semop (Conn IPCBUF_READ) (int n) 0
       (h, (init_ring key nb bz n zero_ring)\<lparr>sem_connect := (\<lambda>_. 0)(IPCBUF_WRITE := 1)\<rparr>) =
      Done () (h, (init_ring key nb bz n zero_ring)
        \<lparr>sem_connect := (\<lambda>_. 0)(IPCBUF_WRITE := 1, IPCBUF_READ := n)\<rparr>)"
    using assms by (auto simp: ipc_semop_def semop_def r fun_upd_def fun_eq_iff)
  show ?thesis
    using loop by (simp add: init_sems_def conn [unfolded One_nat_def] r short new_ring_def)
qed


text \<open>
  Creation succeeds exactly when all the keys it derives are free, and then makes the ring
  \<open>new_ring\<close> and one segment or semaphore set for each key.
\<close>

definition created :: "key_t \<Rightarrow> u64 \<Rightarrow> u64 \<Rightarrow> nat \<Rightarrow> kernel \<Rightarrow> kernel" where
  "created key nb bz n k =
    \<lparr>segs = taken (sub_block_keys key nb) bz ((segs k)(key := Some (sync_size nb))),
     semsets = taken (reader_keys key n) 5 ((semsets k)(ring_key key 1 := Some 2)),
     rings = (rings k)(key := new_ring key nb bz n)\<rparr>"

definition created_handle :: "key_t \<Rightarrow> u64 \<Rightarrow> nat \<Rightarrow> 'h ipcbuf_scheme \<Rightarrow> 'h ipcbuf_scheme" where
  "created_handle key nb n h =
    h\<lparr>state := IPCBUF_VIEWER, syncid := Some key, semid_connect := Some (ring_key key 1),
       semid_data := map Some (reader_keys key n), shmid := map Some (sub_block_keys key nb),
       sync_ptr := Some key, buffer := map Some (sub_block_keys key nb), viewbuf := 0, xfer := 0,
       soclock_buf := 0, iread := -1\<rparr>"

lemma kernel_update_eq:
  "k\<lparr>segs := a, semsets := b, rings := c\<rparr> = \<lparr>segs = a, semsets = b, rings = c\<rparr>"
  by (cases k) simp

lemma with_ring_Done:
  "sync_ptr h = Some key \<Longrightarrow> f (h, rings k key) = Done u (h', r') \<Longrightarrow>
    with_ring f (h, k) = Done u (h', k\<lparr>rings := (rings k)(key := r')\<rparr>)"
  by (simp add: with_ring_def)

lemma init_ring_fields [simp]:
  "nbufs (init_ring key nb bz n r) = nb" "bufsz (init_ring key nb bz n r) = bz"
  "n_readers (init_ring key nb bz n r) = n"
  by (simp_all add: init_ring_def)

lemma all_free_Cons':
  "all_free (x # xs) t \<longleftrightarrow> t x = None \<and> all_free xs (t(x := Some v))"
  by (rule all_free_Cons)

lemma ipcbuf_get_create:
  assumes n: "n \<le> 8" and sz: "bz \<noteq> 0" and key: "sync_ptr h = Some key"
    and r: "rings k key = init_ring key nb bz n zero_ring"
  shows "ipcbuf_get True (h, k) = Done u s' \<longleftrightarrow>
    all_free (sub_block_keys key nb) (segs k) \<and>
    all_free (ring_key key 1 # reader_keys key n) (semsets k) \<and>
    s' = (h\<lparr>semid_connect := Some (ring_key key 1), semid_data := map Some (reader_keys key n),
           buffer := map Some (sub_block_keys key nb), shmid := map Some (sub_block_keys key nb)\<rparr>,
          k\<lparr>segs := taken (sub_block_keys key nb) bz (segs k),
            semsets := taken (reader_keys key n) 5 ((semsets k)(ring_key key 1 := Some 2))\<rparr>)"
proof (cases "semsets k (ring_key key 1) = None")
  case False
  then show ?thesis
    using n by (auto simp: ipcbuf_get_def key r sys_semget_def init_ring_keys all_free_def Let_def
        split: prod.splits)
next
  case True
  let ?k1 = "k\<lparr>semsets := (semsets k)(ring_key key 1 := Some 2)\<rparr>"
  obtain sids k2 where S: "get_sems (reader_keys key n) True ?k1 = (sids, k2)" by fastforce
  obtain bufs shms k3 where B: "get_bufs (sub_block_keys key nb) bz True k2 = (bufs, shms, k3)"
    using prod_cases3 by blast
  have eq: "ipcbuf_get True (h, k) =
    (let s = (h\<lparr>semid_connect := Some (ring_key key 1), semid_data := sids, buffer := bufs,
                shmid := shms\<rparr>, k3)
     in if None \<in> set sids \<or> None \<in> set bufs then Err (-1) s else Done () s)"
    using n True S B by (simp add: ipcbuf_get_def key r sys_semget_def init_ring_keys Let_def)
  have SD: "None \<notin> set sids \<longleftrightarrow> all_free (reader_keys key n) (semsets ?k1)"
      "None \<notin> set sids \<Longrightarrow> sids = map Some (reader_keys key n) \<and>
        k2 = k\<lparr>semsets := taken (reader_keys key n) 5 (semsets ?k1)\<rparr>"
    using get_sems_create [of "reader_keys key n" ?k1 sids k2] S
      get_sems_create [of "reader_keys key n" ?k1 "map Some (reader_keys key n)"
        "?k1\<lparr>semsets := taken (reader_keys key n) 5 (semsets ?k1)\<rparr>"]
    by auto
  have BD: "None \<notin> set bufs \<longleftrightarrow> all_free (sub_block_keys key nb) (segs k2)"
      "None \<notin> set bufs \<Longrightarrow> bufs = map Some (sub_block_keys key nb) \<and>
        shms = map Some (sub_block_keys key nb) \<and>
        k3 = k2\<lparr>segs := taken (sub_block_keys key nb) bz (segs k2)\<rparr>"
    using get_bufs_create [OF sz, of "sub_block_keys key nb" k2 bufs shms k3] B
      get_bufs_create [OF sz, of "sub_block_keys key nb" k2 "map Some (sub_block_keys key nb)"
        "map Some (sub_block_keys key nb)"
        "k2\<lparr>segs := taken (sub_block_keys key nb) bz (segs k2)\<rparr>"]
    by auto
  have "all_free (ring_key key 1 # reader_keys key n) (semsets k) \<longleftrightarrow>
      all_free (reader_keys key n) (semsets ?k1)"
    using all_free_Cons [of "ring_key key 1" "reader_keys key n" "semsets k" 2] True by simp
  moreover have "None \<notin> set sids \<Longrightarrow> segs k2 = segs k"
    using SD(2) by auto
  ultimately show ?thesis
    unfolding eq using SD BD by (auto simp: Let_def)
qed

lemma create_Done:
  assumes n: "n \<le> 8" and sz: "bz \<noteq> 0" "sync_size nb \<noteq> 0"
  shows "ipcbuf_create key nb bz n (h, k) = Done u s' \<longleftrightarrow>
    all_free (key # sub_block_keys key nb) (segs k) \<and>
    all_free (ring_key key 1 # reader_keys key n) (semsets k) \<and>
    s' = (created_handle key nb n h, created key nb bz n k)"
proof (cases "segs k key = None")
  case False
  then show ?thesis
    by (auto simp: ipcbuf_create_def ipcsync_get_def ipc_alloc_def all_free_def)
next
  case True
  let ?h1 = "h\<lparr>sync_ptr := Some key, syncid := Some key, state := IPCBUF_DISCON, buffer := [],
    viewbuf := 0, xfer := 0, soclock_buf := 0, iread := -1\<rparr>"
  let ?k1 = "k\<lparr>segs := (segs k)(key := Some (sync_size nb)),
    rings := (rings k)(key := init_ring key nb bz n zero_ring)\<rparr>"
  let ?h2 = "?h1\<lparr>semid_connect := Some (ring_key key 1), semid_data := map Some (reader_keys key n),
    buffer := map Some (sub_block_keys key nb), shmid := map Some (sub_block_keys key nb)\<rparr>"
  let ?k2 = "?k1\<lparr>segs := taken (sub_block_keys key nb) bz (segs ?k1),
    semsets := taken (reader_keys key n) 5 ((semsets ?k1)(ring_key key 1 := Some 2))\<rparr>"
  have eq: "ipcbuf_create key nb bz n (h, k) =
     andthen (ipcbuf_get True (?h1, ?k1)) (\<lambda>_ s.
     andthen (with_ring init_sems s) (\<lambda>_ (id, k). Done () (id\<lparr>state := IPCBUF_VIEWER\<rparr>, k)))"
    using True sz by (simp add: ipcbuf_create_def ipcsync_get_def ipc_alloc_def with_ring_def)
  let ?free = "all_free (key # sub_block_keys key nb) (segs k) \<and>
    all_free (ring_key key 1 # reader_keys key n) (semsets k)"
  have free: "?free \<longleftrightarrow> all_free (sub_block_keys key nb) (segs ?k1) \<and>
      all_free (ring_key key 1 # reader_keys key n) (semsets ?k1)"
    using all_free_Cons [of key "sub_block_keys key nb" "segs k" "sync_size nb"] True by simp
  have get: "ipcbuf_get True (?h1, ?k1) = Done u s \<longleftrightarrow> ?free \<and> s = (?h2, ?k2)" for u s
    unfolding free conj_assoc by (rule ipcbuf_get_create [OF n sz(1)]) simp_all
  have init: "with_ring init_sems (?h2, ?k2) =
      Done () (?h2, ?k2\<lparr>rings := (rings ?k2)(key := new_ring key nb bz n)\<rparr>)"
    by (rule with_ring_Done) (simp_all add: init_sems_new_ring [OF n])
  have h3: "?h2\<lparr>state := IPCBUF_VIEWER\<rparr> = created_handle key nb n h"
    by (cases h) (simp add: created_handle_def)
  have k3: "?k2\<lparr>rings := (rings ?k2)(key := new_ring key nb bz n)\<rparr> = created key nb bz n k"
    by (cases k) (simp add: created_def)
  show ?thesis
  proof (cases ?free)
    case True
    then have "ipcbuf_get True (?h1, ?k1) = Done () (?h2, ?k2)" using get by blast
    then have "ipcbuf_create key nb bz n (h, k) =
        Done () (created_handle key nb n h, created key nb bz n k)"
      unfolding eq by (simp only: andthen.simps init prod.case h3 k3)
    then show ?thesis using True by auto
  next
    case False
    then have "ipcbuf_get True (?h1, ?k1) \<noteq> Done u s" for u s using get by blast
    then show ?thesis unfolding eq andthen_eq_Done using False by blast
  qed
qed


text \<open>Keys wrap: a ring of more than 65526 sub-blocks would use a key twice.\<close>

lemma all_free_bound:
  assumes "all_free (key # sub_block_keys key nb) t"
  shows "unat nb \<le> 65526"
proof (rule ccontr)
  assume "\<not> unat nb \<le> 65526"
  then have "ring_key key (65526 + 10) \<in> set (sub_block_keys key nb)"
    by (auto simp: sub_block_keys_def intro!: image_eqI [of _ _ 65526])
  moreover have "ring_key key (65526 + 10) = key"
    by (simp add: ring_key_def key_increment_def)
  ultimately show False using assms by (simp add: all_free_def)
qed

lemma create_DoneD:
  assumes "ipcbuf_create key nb bz n (h, k) = Done u s'" and "bz \<noteq> 0"
  shows "n \<le> 8" "unat nb \<le> 65526" "all_free (key # sub_block_keys key nb) (segs k)"
    "all_free (ring_key key 1 # reader_keys key n) (semsets k)"
    "s' = (created_handle key nb n h, created key nb bz n k)"
proof -
  show n: "n \<le> 8"
  proof (rule ccontr)
    assume "\<not> n \<le> 8"
    then show False
      using assms(1) by (auto simp: ipcbuf_create_def outcome_simps ipcsync_get_def with_ring_def
          ipcbuf_get_def Let_def split: option.splits prod.splits)
  qed
  have sz: "sync_size nb \<noteq> 0"
    using assms(1) by (auto simp: ipcbuf_create_def ipcsync_get_def ipc_alloc_def)
  note D = create_Done [OF n assms(2) sz, of key h k u s'] assms(1)
  show F: "all_free (key # sub_block_keys key nb) (segs k)"
    and "all_free (ring_key key 1 # reader_keys key n) (semsets k)"
    and "s' = (created_handle key nb n h, created key nb bz n k)"
    using D by auto
  show "unat nb \<le> 65526" by (rule all_free_bound [OF F])
qed

section \<open>Destruction undoes creation\<close>

lemma rm_simps [simp]:
  "rm_sem (Some key) k = k\<lparr>semsets := (semsets k)(key := None)\<rparr>" "rm_sem None k = k"
  "rm_seg (Some key) k = k\<lparr>segs := (segs k)(key := None)\<rparr>" "rm_seg None k = k"
  by (simp_all add: rm_sem_def rm_seg_def)

definition freed :: "key_t list \<Rightarrow> (key_t \<Rightarrow> 'v option) \<Rightarrow> key_t \<Rightarrow> 'v option" where
  "freed keys t = (\<lambda>x. if x \<in> set keys then None else t x)"

lemma freed_simps [simp]: "freed [] t = t" "freed (x # xs) t = freed xs (t(x := None))"
  by (auto simp: freed_def fun_eq_iff)

lemma fold_rm_sem: "fold rm_sem (map Some keys) k = k\<lparr>semsets := freed keys (semsets k)\<rparr>"
  by (induction keys arbitrary: k) simp_all

lemma fold_rm_seg: "fold rm_seg (map Some keys) k = k\<lparr>segs := freed keys (segs k)\<rparr>"
  by (induction keys arbitrary: k) simp_all

lemma new_ring_fields [simp]:
  "nbufs (new_ring key nb bz n) = nb" "bufsz (new_ring key nb bz n) = bz"
  "n_readers (new_ring key nb bz n) = n"
  "semkey_connect (new_ring key nb bz n) = ring_key key 1"
  by (simp_all add: new_ring_def init_ring_keys add_sem_def)

lemma destroy_created:
  assumes F: "all_free (key # sub_block_keys key nb) (segs k)"
      "all_free (ring_key key 1 # reader_keys key n) (semsets k)"
  shows "\<exists>h' k'. ipcbuf_destroy (created_handle key nb n h, created key nb bz n k) = Done () (h', k') \<and>
    segs k' = segs k \<and> semsets k' = semsets k \<and> sync_ptr h' = None"
proof -
  let ?rs = "reader_keys key n" and ?bs = "sub_block_keys key nb"
  have len: "length ?rs = n" "length ?bs = unat nb"
    by (simp_all add: reader_keys_def sub_block_keys_def)
  have "key \<notin> set ?bs" "ring_key key 1 \<notin> set ?rs" "segs k key = None"
      "semsets k (ring_key key 1) = None"
    using F by (auto simp: all_free_def)
  then have sg: "(freed ?bs (taken ?bs bz ((segs k)(key := Some (sync_size nb)))))(key := None) = segs k"
    and sm: "freed ?rs ((taken ?rs 5 ((semsets k)(ring_key key (Suc 0) := Some 2)))
        (ring_key key (Suc 0) := None)) = semsets k"
    using F by (auto simp: all_free_def taken_def freed_def fun_eq_iff)
  show ?thesis
    using sg sm by (simp add: ipcbuf_destroy_def created_handle_def created_def len Let_def
        fold_rm_sem fold_rm_seg)
qed

section \<open>Connection finds what creation made\<close>

lemma get_sems_connect:
  "\<forall>x \<in> set keys. semsets k x = Some 5 \<Longrightarrow> get_sems keys False k = (map Some keys, k)"
  by (induction keys) (auto simp: sys_semget_def)

lemma get_bufs_connect:
  "\<forall>x \<in> set keys. segs k x = Some sz \<Longrightarrow>
    get_bufs keys sz False k = (map Some keys, map Some keys, k)"
  by (induction keys) (auto simp: ipc_alloc_def)


lemma sync_size_mono: "unat nb \<le> 65526 \<Longrightarrow> sync_size 0 \<le> sync_size nb"
  by (simp add: sync_size_def word_le_nat_alt unat_word_ariths)

definition connected_handle :: "key_t \<Rightarrow> u64 \<Rightarrow> nat \<Rightarrow> 'h ipcbuf_scheme \<Rightarrow> 'h ipcbuf_scheme" where
  "connected_handle key nb n h =
    h\<lparr>state := IPCBUF_VIEWER, syncid := Some key, semid_connect := Some (ring_key key 1),
      semid_data := map Some (reader_keys key n), shmid := map Some (sub_block_keys key nb),
      sync_ptr := Some key, buffer := map Some (sub_block_keys key nb), viewbuf := 0\<rparr>"

lemma new_ring_keys:
  "map (shmkey (new_ring key nb bz n)) [0..<unat nb] = sub_block_keys key nb"
  "n \<le> 8 \<Longrightarrow> map (semkey_data (new_ring key nb bz n)) [0..<n] = reader_keys key n"
  using init_ring_keys [where r = zero_ring] by (simp_all add: new_ring_def add_sem_def)

lemma connect_created:
  assumes F: "all_free (key # sub_block_keys key nb) (segs k)"
      "all_free (ring_key key 1 # reader_keys key n) (semsets k)" and n: "n \<le> 8"
  shows "ipcbuf_connect key (h, created key nb bz n k) =
    Done () (connected_handle key nb n h, created key nb bz n k)"
proof -
  let ?k = "created key nb bz n k"
  have "segs ?k key = Some (sync_size nb)"
    using F by (simp add: created_def taken_def all_free_def)
  moreover have "\<not> sync_size 0 > sync_size nb"
    using sync_size_mono [OF all_free_bound [OF F(1)]] by simp
  ultimately have sg: "ipc_alloc key (sync_size 0) False ?k = Some ?k"
    by (simp add: ipc_alloc_def)
  have cs: "sys_semget (ring_key key (Suc 0)) 2 False ?k = (Some (ring_key key (Suc 0)), ?k)"
    using F by (simp add: sys_semget_def created_def taken_def all_free_def)
  have rs: "get_sems (reader_keys key n) False ?k = (map Some (reader_keys key n), ?k)"
    by (rule get_sems_connect) (simp add: created_def taken_def)
  have bs: "get_bufs (sub_block_keys key nb) bz False ?k =
      (map Some (sub_block_keys key nb), map Some (sub_block_keys key nb), ?k)"
    by (rule get_bufs_connect) (simp add: created_def taken_def)
  have r: "rings ?k key = new_ring key nb bz n" by (simp add: created_def)
  show ?thesis
    using n cs by (cases h) (simp add: ipcbuf_connect_def ipcsync_get_def ipcbuf_get_def sg cs r
        new_ring_keys rs bs connected_handle_def)
qed

end
