(* ===== verification/Ipcbuf_Locks.thy ===== *)
theory Ipcbuf_Locks
  imports Ipcbuf_Effects Ring_Spec
begin

text \<open>
  The locks: the slot a reader takes, and the invariant of any number of processes that lock
  and unlock a ring: one writer, one process per reader slot, and no process is let in for which
  there is no slot.
\<close>

section \<open>The order in which a reader tries the slots\<close>

definition before :: "(nat \<Rightarrow> u64) \<Rightarrow> nat \<Rightarrow> nat \<Rightarrow> bool" where
  "before rb i j \<longleftrightarrow> rb i < rb j \<or> rb i = rb j \<and> i < j"

lemma before_trans: "before rb i j \<Longrightarrow> before rb j k \<Longrightarrow> before rb i k"
  by (auto simp: before_def)

lemma before_linear: "i \<noteq> j \<Longrightarrow> before rb i j \<or> before rb j i"
  by (auto simp: before_def)

text \<open>One scan finds the first slot in this order among those not used and below the bound.\<close>

lemma oldest_scan_least:
  defines "C i n used rb v \<equiv> {j. i \<le> j \<and> j < i + n \<and> Some j \<notin> set used \<and> rb j < v}"
  shows "if C i n used rb v = {} then oldest_scan rb used i n v best = best
    else \<exists>j \<in> C i n used rb v. oldest_scan rb used i n v best = Some j \<and>
      (\<forall>j' \<in> C i n used rb v. j' = j \<or> before rb j j')"
proof (induction n arbitrary: i v best)
  case 0
  show ?case by (simp add: C_def)
next
  case (Suc n)
  show ?case
  proof (cases "rb i < v \<and> Some i \<notin> set used")
    case True
    have scan: "oldest_scan rb used i (Suc n) v best = oldest_scan rb used (Suc i) n (rb i) (Some i)"
      using True by simp
    show ?thesis
    proof (cases "C (Suc i) n used rb (rb i) = {}")
      case empty: True
      then have "oldest_scan rb used (Suc i) n (rb i) (Some i) = Some i"
        using Suc.IH [of "Suc i" "rb i" "Some i"] by simp
      moreover have "j' = i \<or> before rb i j'" if "j' \<in> C i (Suc n) used rb v" for j'
      proof (cases "j' = i")
        case False
        with that have "i < j'" by (simp add: C_def)
        moreover have "\<not> rb j' < rb i" using that empty \<open>i < j'\<close> by (auto simp: C_def)
        ultimately show ?thesis by (auto simp: before_def)
      qed simp
      moreover have "i \<in> C i (Suc n) used rb v" using True by (simp add: C_def)
      ultimately show ?thesis using scan by auto
    next
      case False
      then obtain j where j: "j \<in> C (Suc i) n used rb (rb i)"
        "oldest_scan rb used (Suc i) n (rb i) (Some i) = Some j"
        "\<forall>j' \<in> C (Suc i) n used rb (rb i). j' = j \<or> before rb j j'"
        using Suc.IH [of "Suc i" "rb i" "Some i"] by auto
      have "j' = j \<or> before rb j j'" if "j' \<in> C i (Suc n) used rb v" for j'
      proof (cases "rb j' < rb i")
        case True
        then have "j' \<in> C (Suc i) n used rb (rb i)"
          using that by (cases "j' = i") (auto simp: C_def)
        then show ?thesis using j(3) by blast
      next
        case False
        then show ?thesis using j(1) by (auto simp: C_def before_def)
      qed
      moreover have "j \<in> C i (Suc n) used rb v" using j(1) True by (auto simp: C_def)
      ultimately show ?thesis using scan j(2) by auto
    qed
  next
    case False
    then have "C i (Suc n) used rb v = C (Suc i) n used rb v"
      by (auto simp: C_def) (metis Suc_leI le_neq_implies_less)+
    then show ?thesis using False Suc.IH [of "Suc i" v best] by auto
  qed
qed

lemma order_readers_sorted:
  assumes "\<forall>i < n. rb i < - 1"
    and "distinct us" "set us \<subseteq> {..<n}" "k + length us = n" "sorted_wrt (before rb) us"
    and "\<forall>i \<in> set us. \<forall>j < n. j \<notin> set us \<longrightarrow> before rb i j"
  shows "\<exists>ps. order_readers rb n k (map Some us) = map Some ps \<and> distinct ps \<and> set ps = {..<n} \<and>
    sorted_wrt (before rb) ps"
  using assms(2-)
proof (induction k arbitrary: us)
  case 0
  have "set us = {..<n}"
    using 0 by (intro card_subset_eq) (auto simp: distinct_card)
  then show ?case using 0 by auto
next
  case (Suc k)
  let ?C = "{j. 0 \<le> j \<and> j < 0 + n \<and> Some j \<notin> set (map Some us) \<and> rb j < - 1}"
  have "card (set us) < n" using Suc.prems by (simp add: distinct_card)
  then obtain j0 where "j0 < n" "j0 \<notin> set us"
    by (metis card_lessThan card_mono finite_set lessThan_iff not_less subsetI)
  then have "?C \<noteq> {}" using assms(1) by auto
  then obtain j where j: "j \<in> ?C" "oldest_scan rb (map Some us) 0 n (- 1) None = Some j"
    "\<forall>j' \<in> ?C. j' = j \<or> before rb j j'"
    using oldest_scan_least [of 0 n "map Some us" rb "- 1" None] by (auto split: if_splits)
  have "sorted_wrt (before rb) (us @ [j])"
    using Suc.prems(4,5) j(1) by (auto simp: sorted_wrt_append)
  moreover have "before rb i j'" if "i \<in> set (us @ [j])" "j' < n" "j' \<notin> set (us @ [j])" for i j'
    using that Suc.prems(5) j(3) assms(1) by auto
  ultimately have "\<exists>ps. order_readers rb n k (map Some (us @ [j])) = map Some ps \<and> distinct ps \<and>
      set ps = {..<n} \<and> sorted_wrt (before rb) ps"
    using Suc.prems j(1) by (intro Suc.IH) auto
  then show ?case using j(2) by simp
qed


lemma order_readers_all:
  assumes "\<forall>i < n. rb i < - 1"
  obtains ps where "order_readers rb n n [] = map Some ps" "distinct ps" "set ps = {..<n}"
    "sorted_wrt (before rb) ps"
  using order_readers_sorted [OF assms, of "[]" n] by auto

section \<open>Taking a slot\<close>

lemma take_reader_conn_find:
  "take_reader_conn (map Some ps) (h, r) =
    (case find (\<lambda>i. 1 \<le> sem_data r i IPCBUF_READER_CONN) ps of
       None \<Rightarrow> Err (-1) (h, r)
     | Some i \<Rightarrow> Done () (h\<lparr>iread := int i\<rparr>, add_sem i (Suc i) IPCBUF_READER_CONN (-1) r))"
proof (induction ps)
  case (Cons i ps)
  show ?case
  proof (cases "1 \<le> sem_data r i IPCBUF_READER_CONN")
    case True
    then have "ipc_semop (Data i IPCBUF_READER_CONN) (-1) (IPC_NOWAIT + SEM_UNDO) (h, r) =
        Done () (h, add_sem i (Suc i) IPCBUF_READER_CONN (-1) r)"
      by (simp add: ipc_semop_Data)
    with True show ?thesis by simp
  next
    case False
    then have "ipc_semop (Data i IPCBUF_READER_CONN) (-1) (IPC_NOWAIT + SEM_UNDO) (h, r) =
        Err (-1) (h, r)"
      by (simp add: ipc_semop_def semop_def)
    with False Cons.IH show ?thesis by simp
  qed
qed simp

lemma find_sorted:
  assumes "sorted_wrt (before rb) ps" and "find Q ps = Some i"
  shows "i \<in> set ps" "Q i" "\<forall>j \<in> set ps. Q j \<longrightarrow> j = i \<or> before rb i j"
  using assms by (induction ps) (auto split: if_splits)

lemma before_asym: "before rb i j \<Longrightarrow> \<not> before rb j i"
  by (auto simp: before_def)

text \<open>What a successful lock does with slot \<open>i\<close>.\<close>

definition lock_slot :: "nat \<Rightarrow> ('h, 'r) buf_st \<Rightarrow> ('h, 'r) buf_st" where
  "lock_slot i = (\<lambda>(h, r).
     let st = (if r_states r i = IPCBUF_DISCON then IPCBUF_READER else IPCBUF_READING)
     in (h\<lparr>iread := int i, state := st, xfer := r_xfers r i mod IPCBUF_XFERS\<rparr>,
         add_sem i (Suc i) IPCBUF_READER_CONN (-1)
           (r\<lparr>sem_connect := (sem_connect r)(IPCBUF_READ := sem_connect r IPCBUF_READ - 1),
              r_states := (r_states r)(i := st)\<rparr>)))"

lemma lock_read_find:
  assumes st: "state h = IPCBUF_VIEWER" "iread h = -1" "1 \<le> sem_connect r IPCBUF_READ"
    and rb: "\<forall>i < n_readers r. r_bufs r i < - 1"
  obtains ps r' where "set ps = {..<n_readers r}" "sorted_wrt (before (r_bufs r)) ps"
    "ipcbuf_lock_read (h, r) =
      (case find (\<lambda>i. 1 \<le> sem_data r i IPCBUF_READER_CONN) ps of
         None \<Rightarrow> Err (-1) (h, r')
       | Some i \<Rightarrow> Done () (lock_slot i (h, r)))"
proof -
  let ?r = "r\<lparr>sem_connect := (sem_connect r)(IPCBUF_READ := sem_connect r IPCBUF_READ - 1)\<rparr>"
  obtain ps where ps: "order_readers (r_bufs r) (n_readers r) (n_readers r) [] = map Some ps"
    "set ps = {..<n_readers r}" "sorted_wrt (before (r_bufs r)) ps"
    using order_readers_all [OF rb] by metis
  have "ipc_semop (Conn IPCBUF_READ) (-1) SEM_UNDO (h, r) = Done () (h, ?r)"
    using st by (simp add: ipc_semop_Conn)
  then have "ipcbuf_lock_read (h, r) =
      (case find (\<lambda>i. 1 \<le> sem_data r i IPCBUF_READER_CONN) ps of
         None \<Rightarrow> Err (-1) (h, ?r)
       | Some i \<Rightarrow> Done () (lock_slot i (h, r)))"
    using st by (simp add: ipcbuf_lock_read_def ps(1) take_reader_conn_find lock_slot_def Let_def
        split: option.split)
  then show thesis using ps that by blast
qed

text \<open>
  The reader that locks takes, of the slots no process is connected to, the one that has read
  the fewest buffers.
\<close>

lemma lock_read_Done:
  assumes f: "ipcbuf_lock_read (h, r) = Done u s'" and rb: "\<forall>i < n_readers r. r_bufs r i < - 1"
  obtains i where "state h = IPCBUF_VIEWER" "iread h = -1" "1 \<le> sem_connect r IPCBUF_READ"
    "i < n_readers r" "1 \<le> sem_data r i IPCBUF_READER_CONN"
    "\<forall>j < n_readers r. 1 \<le> sem_data r j IPCBUF_READER_CONN \<longrightarrow> j = i \<or> before (r_bufs r) i j"
    "s' = lock_slot i (h, r)"
proof -
  have st: "state h = IPCBUF_VIEWER" "iread h = -1" "1 \<le> sem_connect r IPCBUF_READ"
    using f by (auto simp: ipcbuf_lock_read_def outcome_simps ipc_semop_Conn split: if_splits)
  obtain ps r' where ps: "set ps = {..<n_readers r}" "sorted_wrt (before (r_bufs r)) ps"
    and eq: "ipcbuf_lock_read (h, r) =
      (case find (\<lambda>i. 1 \<le> sem_data r i IPCBUF_READER_CONN) ps of
         None \<Rightarrow> Err (-1) (h, r') | Some i \<Rightarrow> Done () (lock_slot i (h, r)))"
    by (rule lock_read_find [OF st rb])
  from f obtain i where i: "find (\<lambda>i. 1 \<le> sem_data r i IPCBUF_READER_CONN) ps = Some i"
    and s': "s' = lock_slot i (h, r)"
    unfolding eq by (auto split: option.splits)
  show thesis
    using that [OF st, of i] find_sorted [OF ps(2) i] ps(1) s' by auto
qed

lemma lock_read_least:
  assumes st: "state h = IPCBUF_VIEWER" "iread h = -1" "1 \<le> sem_connect r IPCBUF_READ"
    and rb: "\<forall>i < n_readers r. r_bufs r i < - 1"
    and i: "i < n_readers r" "1 \<le> sem_data r i IPCBUF_READER_CONN"
    and least: "\<forall>j < n_readers r. 1 \<le> sem_data r j IPCBUF_READER_CONN \<longrightarrow> j = i \<or> before (r_bufs r) i j"
  shows "ipcbuf_lock_read (h, r) = Done () (lock_slot i (h, r))"
proof -
  obtain ps r' where ps: "set ps = {..<n_readers r}" "sorted_wrt (before (r_bufs r)) ps"
    and eq: "ipcbuf_lock_read (h, r) =
      (case find (\<lambda>i. 1 \<le> sem_data r i IPCBUF_READER_CONN) ps of
         None \<Rightarrow> Err (-1) (h, r') | Some i \<Rightarrow> Done () (lock_slot i (h, r)))"
    by (rule lock_read_find [OF st rb])
  have "find (\<lambda>i. 1 \<le> sem_data r i IPCBUF_READER_CONN) ps \<noteq> None"
    using i ps(1) by (auto simp: find_None_iff)
  then obtain j where j: "find (\<lambda>i. 1 \<le> sem_data r i IPCBUF_READER_CONN) ps = Some j" by auto
  have "j = i"
    using find_sorted [OF ps(2) j] least i ps(1) before_asym [of "r_bufs r" i j] by fastforce
  then show ?thesis unfolding eq j by simp
qed

section \<open>Processes that lock and unlock\<close>

text \<open>
  \<open>m\<close> processes connected to one ring lock and unlock it in any order. The invariant: each
  connection semaphore and the number of processes that hold the lock add up to the initial
  value of the semaphore.
\<close>

datatype lock_call = Lock_write | Unlock_write | Lock_read | Unlock_read

record 'h procs =
  hs :: "nat \<Rightarrow> 'h ipcbuf_scheme"
  lr :: ring

fun lock_exec :: "lock_call \<Rightarrow> ('h, unit) buf_st \<Rightarrow> (unit, ('h, unit) buf_st) outcome" where
  "lock_exec Lock_write s = ipcbuf_lock_write s"
| "lock_exec Unlock_write s = ipcbuf_unlock_write s"
| "lock_exec Lock_read s = ipcbuf_lock_read s"
| "lock_exec Unlock_read s = ipcbuf_unlock_read s"

inductive lock_step :: "nat \<Rightarrow> 'h procs \<Rightarrow> lock_call \<times> nat \<Rightarrow> 'h procs \<Rightarrow> bool" for m :: nat where
  "j < m \<Longrightarrow> lock_exec c (hs s j, lr s) = Done () (h, r) \<Longrightarrow>
    lock_step m s (c, j) (s\<lparr>hs := (hs s)(j := h), lr := r\<rparr>)"

inductive_cases lock_stepE: "lock_step m s (c, j) s'"

definition is_writer :: "'h ipcbuf_scheme \<Rightarrow> bool" where
  "is_writer h \<longleftrightarrow> state h \<in> {IPCBUF_WRITER, IPCBUF_WCHANGE, IPCBUF_WRITING}"

definition is_reader :: "'h ipcbuf_scheme \<Rightarrow> bool" where
  "is_reader h \<longleftrightarrow> state h \<in> {IPCBUF_READER, IPCBUF_READING, IPCBUF_RSTOP}"

text \<open>The number of processes that satisfy \<open>Q\<close>.\<close>

definition holders :: "nat \<Rightarrow> ('a \<Rightarrow> bool) \<Rightarrow> (nat \<Rightarrow> 'a) \<Rightarrow> nat" where
  "holders m Q f = card {j. j < m \<and> Q (f j)}"

lemma holders_upd:
  assumes "j < m"
  shows "holders m Q (f(j := h)) + of_bool (Q (f j)) = holders m Q f + of_bool (Q h)"
proof -
  let ?A = "{k. k < m \<and> k \<noteq> j \<and> Q (f k)}"
  have "{k. k < m \<and> Q (f k)} = (if Q (f j) then insert j ?A else ?A)"
    "{k. k < m \<and> Q ((f(j := h)) k)} = (if Q h then insert j ?A else ?A)"
    using assms by auto
  then show ?thesis by (simp add: holders_def)
qed

lemma holders_one: "holders m Q f \<le> 1 \<Longrightarrow> i < m \<Longrightarrow> j < m \<Longrightarrow> Q (f i) \<Longrightarrow> Q (f j) \<Longrightarrow> i = j"
  unfolding holders_def by (auto simp: card_le_Suc0_iff_eq)

lemma holders_split:
  fixes n :: nat
  assumes "\<forall>j < m. Q (f j) \<longrightarrow> (\<exists>i < n. R i (f j)) " and "\<forall>j < m. \<forall>i < n. R i (f j) \<longrightarrow> Q (f j)"
    and "\<forall>j < m. \<forall>i i'. R i (f j) \<longrightarrow> R i' (f j) \<longrightarrow> i = i'"
  shows "holders m Q f = (\<Sum>i<n. holders m (R i) f)"
proof -
  have "{j. j < m \<and> Q (f j)} = (\<Union>i\<in>{..<n}. {j. j < m \<and> R i (f j)})"
    using assms(1,2) by fast
  moreover have "card (\<Union>i\<in>{..<n}. {j. j < m \<and> R i (f j)}) = (\<Sum>i<n. card {j. j < m \<and> R i (f j)})"
  proof (rule card_UN_disjoint)
    show "\<forall>i\<in>{..<n}. \<forall>i'\<in>{..<n}. i \<noteq> i' \<longrightarrow>
        {j. j < m \<and> R i (f j)} \<inter> {j. j < m \<and> R i' (f j)} = {}"
      using assms(3) by fast
  qed simp_all
  ultimately show ?thesis by (simp add: holders_def)
qed

definition lock_inv :: "nat \<Rightarrow> nat \<Rightarrow> 'h procs \<Rightarrow> bool" where
  "lock_inv m n s \<longleftrightarrow>
     n_readers (lr s) = n \<and> (\<forall>i < n. r_bufs (lr s) i < - 1) \<and>
     (\<forall>j < m. if is_reader (hs s j) then 0 \<le> iread (hs s j) \<and> iread (hs s j) < int n
               else iread (hs s j) = -1) \<and>
     sem_connect (lr s) IPCBUF_WRITE + holders m is_writer (hs s) = 1 \<and>
     sem_connect (lr s) IPCBUF_READ + holders m is_reader (hs s) = n \<and>
     (\<forall>i < n. sem_data (lr s) i IPCBUF_READER_CONN
        + holders m (\<lambda>h. is_reader h \<and> iread h = int i) (hs s) = 1)"

lemma lock_write_Done:
  "ipcbuf_lock_write (h, r) = Done u s' \<longleftrightarrow> state h = IPCBUF_VIEWER \<and> 1 \<le> sem_connect r IPCBUF_WRITE \<and>
    (let st = (if w_state r = IPCBUF_DISCON then IPCBUF_WCHANGE else IPCBUF_WRITING)
     in s' = (h\<lparr>state := st, xfer := w_xfer r mod IPCBUF_XFERS\<rparr>,
              r\<lparr>w_state := st,
                sem_connect := (sem_connect r)(IPCBUF_WRITE := sem_connect r IPCBUF_WRITE - 1)\<rparr>))"
  by (auto simp: ipcbuf_lock_write_def outcome_simps ipc_semop_Conn Let_def)

lemma unlock_write_Done:
  "ipcbuf_unlock_write (h, r) = Done u s' \<longleftrightarrow> is_writer h \<and> sem_connect r IPCBUF_WRITE \<le> 32766 \<and>
     s' = (h\<lparr>state := IPCBUF_VIEWER\<rparr>,
           r\<lparr>w_state := IPCBUF_DISCON,
             sem_connect := (sem_connect r)(IPCBUF_WRITE := Suc (sem_connect r IPCBUF_WRITE))\<rparr>)"
proof -
  have "ipcbuf_is_writer (h, r) = is_writer h" by (auto simp: is_writer_def ipcbuf_is_writer_def)
  then show ?thesis
    by (auto simp: ipcbuf_unlock_write_def outcome_simps ipc_semop_Conn)
qed

lemma unlock_read_Done:
  assumes "ipcbuf_unlock_read (h, r) = Done u s'"
  obtains i where "is_reader h" "iread h = int i" "i < n_readers r"
    "s' = (h\<lparr>state := IPCBUF_VIEWER, iread := -1\<rparr>,
      add_sem i (Suc i) IPCBUF_READER_CONN 1
        (r\<lparr>sem_connect := (sem_connect r)(IPCBUF_READ := Suc (sem_connect r IPCBUF_READ)),
           r_states := (r_states r)(i := IPCBUF_DISCON)\<rparr>))"
  using assms that [of "nat (iread h)"]
  by (auto simp: ipcbuf_unlock_read_def outcome_simps ipc_semop_Conn ipc_semop_Data Let_def
      is_reader_def ipcbuf_is_reader_def add_sem_def split: if_splits)


text \<open>The invariant after a call of process \<open>j\<close>, in terms of its handle before and after.\<close>

lemma lock_inv_upd:
  assumes I: "lock_inv m n s" and j: "j < m"
    and r: "n_readers r = n_readers (lr s)" "r_bufs r = r_bufs (lr s)"
    and h: "if is_reader h then 0 \<le> iread h \<and> iread h < int n else iread h = -1"
    and w: "sem_connect r IPCBUF_WRITE + of_bool (is_writer h) =
      sem_connect (lr s) IPCBUF_WRITE + of_bool (is_writer (hs s j))"
    and rd: "sem_connect r IPCBUF_READ + of_bool (is_reader h) =
      sem_connect (lr s) IPCBUF_READ + of_bool (is_reader (hs s j))"
    and c: "\<And>i. i < n \<Longrightarrow> sem_data r i IPCBUF_READER_CONN + of_bool (is_reader h \<and> iread h = int i) =
      sem_data (lr s) i IPCBUF_READER_CONN + of_bool (is_reader (hs s j) \<and> iread (hs s j) = int i)"
  shows "lock_inv m n (s\<lparr>hs := (hs s)(j := h), lr := r\<rparr>)"
proof -
  note upd = holders_upd [OF j, of _ "hs s" h]
  note I' = I [unfolded lock_inv_def]
  have "sem_connect r IPCBUF_WRITE + holders m is_writer ((hs s)(j := h)) = 1"
    using I' w upd [of is_writer] by linarith
  moreover have "sem_connect r IPCBUF_READ + holders m is_reader ((hs s)(j := h)) = n"
    using I' rd upd [of is_reader] by linarith
  moreover have "sem_data r i IPCBUF_READER_CONN +
      holders m (\<lambda>h. is_reader h \<and> iread h = int i) ((hs s)(j := h)) = 1" if "i < n" for i
  proof -
    have "sem_data (lr s) i IPCBUF_READER_CONN +
        holders m (\<lambda>h. is_reader h \<and> iread h = int i) (hs s) = 1"
      using I' that by blast
    then show ?thesis
      using c [OF that] upd [of "\<lambda>h. is_reader h \<and> iread h = int i"] by linarith
  qed
  moreover have "if is_reader (((hs s)(j := h)) k) then
      0 \<le> iread (((hs s)(j := h)) k) \<and> iread (((hs s)(j := h)) k) < int n
      else iread (((hs s)(j := h)) k) = -1" if "k < m" for k
    using I' h that by (cases "k = j") simp_all
  ultimately show ?thesis using I' r h by (simp add: lock_inv_def)
qed

lemma lock_inv_step:
  assumes I: "lock_inv m n s" and st: "lock_step m s (c, j) s'"
  shows "lock_inv m n s'"
proof -
  from st obtain h r where j: "j < m" and ex: "lock_exec c (hs s j, lr s) = Done () (h, r)"
    and s': "s' = s\<lparr>hs := (hs s)(j := h), lr := r\<rparr>"
    by (cases rule: lock_stepE) auto
  have I': "n_readers (lr s) = n" "\<forall>i < n. r_bufs (lr s) i < - 1"
      "if is_reader (hs s j) then 0 \<le> iread (hs s j) \<and> iread (hs s j) < int n
       else iread (hs s j) = -1"
    using I j by (auto simp: lock_inv_def)
  show ?thesis
  proof (cases c)
    case Lock_write
    define st where "st = (if w_state (lr s) = IPCBUF_DISCON then IPCBUF_WCHANGE else IPCBUF_WRITING)"
    with Lock_write ex have "state (hs s j) = IPCBUF_VIEWER" "1 \<le> sem_connect (lr s) IPCBUF_WRITE"
      "h = (hs s j)\<lparr>state := st, xfer := w_xfer (lr s) mod IPCBUF_XFERS\<rparr>"
      "r = (lr s)\<lparr>w_state := st, sem_connect := (sem_connect (lr s))
        (IPCBUF_WRITE := sem_connect (lr s) IPCBUF_WRITE - 1)\<rparr>"
      by (simp_all add: lock_write_Done Let_def)
    moreover have "st = IPCBUF_WCHANGE \<or> st = IPCBUF_WRITING" by (simp add: st_def)
    ultimately show ?thesis unfolding s' using I'
      by (intro lock_inv_upd [OF I j]) (auto simp: is_reader_def is_writer_def)
  next
    case Unlock_write
    with ex I' show ?thesis unfolding s'
      by (intro lock_inv_upd [OF I j]) (auto simp: unlock_write_Done is_reader_def is_writer_def)
  next
    case Lock_read
    then have f: "ipcbuf_lock_read (hs s j, lr s) = Done () (h, r)" using ex by simp
    have rb: "\<forall>i < n_readers (lr s). r_bufs (lr s) i < - 1" using I' by simp
    show ?thesis
    proof (cases rule: lock_read_Done [OF f rb])
      case (1 i)
      then show ?thesis using I' unfolding s'
        by (intro lock_inv_upd [OF I j])
          (auto simp: lock_slot_def Let_def is_reader_def is_writer_def sem_data_add_one split: if_splits)
    qed
  next
    case Unlock_read
    then have f: "ipcbuf_unlock_read (hs s j, lr s) = Done () (h, r)" using ex by simp
    show ?thesis
    proof (cases rule: unlock_read_Done [OF f])
      case (1 i)
      then show ?thesis using I' unfolding s'
        by (intro lock_inv_upd [OF I j])
          (auto simp: is_reader_def is_writer_def sem_data_add_one split: if_splits)
    qed
  qed
qed

interpretation locks: invariant_system "lock_step m" "lock_inv m n" for m n
  by unfold_locales (auto intro: lock_inv_step)

text \<open>Consequences: one writer, one process per slot, and a free slot behind every READ.\<close>

lemma lock_inv_writer:
  "lock_inv m n s \<Longrightarrow> j < m \<Longrightarrow> k < m \<Longrightarrow> is_writer (hs s j) \<Longrightarrow> is_writer (hs s k) \<Longrightarrow> j = k"
  by (rule holders_one [of m is_writer "hs s"]) (auto simp: lock_inv_def)

lemma lock_inv_reader:
  assumes "lock_inv m n s" "j < m" "k < m" "is_reader (hs s j)" "is_reader (hs s k)"
    and "iread (hs s j) = iread (hs s k)"
  shows "j = k"
proof -
  have "0 \<le> iread (hs s j) \<and> iread (hs s j) < int n"
    using assms(1,2,4) by (auto simp: lock_inv_def)
  then obtain i where i: "iread (hs s j) = int i" "i < n"
    by (metis nonneg_int_cases of_nat_less_iff)
  then have "sem_data (lr s) i IPCBUF_READER_CONN +
      holders m (\<lambda>h. is_reader h \<and> iread h = int i) (hs s) = 1"
    using assms(1) by (simp add: lock_inv_def)
  then have "holders m (\<lambda>h. is_reader h \<and> iread h = int i) (hs s) \<le> 1" by linarith
  then show ?thesis
    using holders_one [of m "\<lambda>h. is_reader h \<and> iread h = int i" "hs s" j k] assms i by auto
qed

lemma lock_inv_conn:
  assumes I: "lock_inv m n s"
  shows "sem_connect (lr s) IPCBUF_READ = (\<Sum>i<n. sem_data (lr s) i IPCBUF_READER_CONN)"
proof -
  have ir: "is_reader (hs s j) \<Longrightarrow> 0 \<le> iread (hs s j) \<and> iread (hs s j) < int n" if "j < m" for j
    using I that by (auto simp: lock_inv_def)
  have "holders m is_reader (hs s) = (\<Sum>i<n. holders m (\<lambda>h. is_reader h \<and> iread h = int i) (hs s))"
  proof (rule holders_split)
    show "\<forall>j<m. is_reader (hs s j) \<longrightarrow> (\<exists>i<n. is_reader (hs s j) \<and> iread (hs s j) = int i)"
    proof (intro allI impI)
      fix j assume "j < m" "is_reader (hs s j)"
      with ir [of j] show "\<exists>i<n. is_reader (hs s j) \<and> iread (hs s j) = int i"
        by (intro exI [of _ "nat (iread (hs s j))"]) auto
    qed
  qed auto
  moreover have "(\<Sum>i<n. sem_data (lr s) i IPCBUF_READER_CONN) +
      (\<Sum>i<n. holders m (\<lambda>h. is_reader h \<and> iread h = int i) (hs s)) = (\<Sum>i<n. 1)"
    unfolding sum.distrib [symmetric] using I by (intro sum.cong) (auto simp: lock_inv_def)
  ultimately show ?thesis using I by (simp add: lock_inv_def)
qed

end
