(* ===== verification/Ring_Start.thy ===== *)
theory Ring_Start
  imports Ring_Steps Ring_Lifetime Ipcbuf_Locks
begin

text \<open>
  The start of a ring in use: created, connected to, locked by one writer and by every reader.
  It is related to the empty stream.
\<close>

section \<open>The start\<close>

text \<open>The kernel before any ring is made, and \<open>IPCBUF_INIT\<close>.\<close>

definition no_kernel :: kernel where
  "no_kernel = \<lparr>segs = (\<lambda>_. None), semsets = (\<lambda>_. None), rings = (\<lambda>_. zero_ring)\<rparr>"

definition IPCBUF_INIT :: ipcbuf where
  "IPCBUF_INIT = \<lparr>state = IPCBUF_DISCON, syncid = None, semid_connect = None, semid_data = [],
     shmid = [], sync_ptr = None, buffer = [], viewbuf = 0, xfer = 0, soclock_buf = 0, iread = -1\<rparr>"

text \<open>\<open>m\<close> processes with handles \<open>h\<close> lock the ring as readers, one after the other.\<close>

fun attach_readers ::
  "('h ipcbuf_scheme \<times> ring \<Rightarrow> (unit, 'h ipcbuf_scheme \<times> ring) outcome) \<Rightarrow> nat \<Rightarrow> 'h ipcbuf_scheme \<Rightarrow>
    (nat \<Rightarrow> 'h ipcbuf_scheme) \<times> ring \<Rightarrow> ((nat \<Rightarrow> 'h ipcbuf_scheme) \<times> ring) option" where
  "attach_readers lock 0 h s = Some s"
| "attach_readers lock (Suc m) h (rds, r) =
    (case returned (lock (h, r)) of
       None \<Rightarrow> None
     | Some (u, h', r') \<Rightarrow> attach_readers lock m h (rds(nat (iread h') := h'), r'))"

text \<open>
  A ring is created, every process connects to it, one locks it for writing and \<open>n\<close> for reading.
\<close>

definition start_ring :: "key_t \<Rightarrow> u64 \<Rightarrow> u64 \<Rightarrow> nat \<Rightarrow> unit sys option" where
  "start_ring key nb bz n =
    (case returned (ipcbuf_create key nb bz n (IPCBUF_INIT, no_kernel)) of
       None \<Rightarrow> None
     | Some (u, creator, k) \<Rightarrow>
    (case returned (ipcbuf_connect key (IPCBUF_INIT, k)) of
       None \<Rightarrow> None
     | Some (u, h, k) \<Rightarrow>
    (case returned (ipcbuf_lock_write (h, rings k key)) of
       None \<Rightarrow> None
     | Some (u, w, r) \<Rightarrow>
    (case attach_readers ipcbuf_lock_read n h (\<lambda>_. h, r) of
       None \<Rightarrow> None
     | Some (rds, r) \<Rightarrow> Some \<lparr>wr = w, rd = rds, rg = r, holds = (\<lambda>_. False)\<rparr>))))"

text \<open>
  The lock may be \<open>ipcbuf_lock_read\<close> or a function that calls it and then changes the handle by
  \<open>post\<close>. Each process gets the next slot.
\<close>

lemma attach_all:
  assumes lock: "\<And>r h' r'. ipcbuf_lock_read (h, r) = Done () (h', r') \<Longrightarrow> nbufs r = nb \<Longrightarrow>
      lock (h, r) = Done () (post h', r')"
    and post: "\<And>h'. iread (post h') = iread h'"
    and "m + i0 = n_readers r" "\<forall>i < n_readers r. r_bufs r i = 0 \<and> r_xfers r i = 0"
    "\<forall>i < n_readers r. r_states r i = (if i < i0 then IPCBUF_READER else IPCBUF_DISCON)"
    "\<forall>i < n_readers r. sem_data r i IPCBUF_READER_CONN = (if i < i0 then 0 else 1)"
    "sem_connect r IPCBUF_READ = m" "nbufs r = nb" and h: "state h = IPCBUF_VIEWER" "iread h = -1"
  shows "\<exists>rds' f g c. attach_readers lock m h (rds, r) =
      Some (rds', r\<lparr>r_states := g, sem_connect := c, sem_data := f\<rparr>) \<and>
    (\<forall>i q. q \<noteq> IPCBUF_READER_CONN \<longrightarrow> f i q = sem_data r i q) \<and> (\<forall>i < i0. rds' i = rds i) \<and>
    (\<forall>i. i0 \<le> i \<and> i < n_readers r \<longrightarrow>
       rds' i = post (h\<lparr>iread := int i, state := IPCBUF_READER, xfer := 0\<rparr>))"
  using assms(3-8)
proof (induction m arbitrary: i0 r rds)
  case 0
  then show ?case by (intro exI [of _ rds] exI [of _ "sem_data r"] exI [of _ "r_states r"]
    exI [of _ "sem_connect r"]) auto
next
  case (Suc m)
  let ?r = "add_sem i0 (Suc i0) IPCBUF_READER_CONN (-1)
    (r\<lparr>sem_connect := (sem_connect r)(IPCBUF_READ := sem_connect r IPCBUF_READ - 1),
       r_states := (r_states r)(i0 := IPCBUF_READER)\<rparr>)"
  let ?h = "h\<lparr>iread := int i0, state := IPCBUF_READER, xfer := 0\<rparr>"
  have i0: "i0 < n_readers r" using Suc.prems(1) by simp
  have "j = i0 \<or> before (r_bufs r) i0 j" if "j < n_readers r" "1 \<le> sem_data r j IPCBUF_READER_CONN" for j
    using that Suc.prems(2,4) i0 by (auto simp: before_def split: if_splits)
  then have "ipcbuf_lock_read (h, r) = Done () (lock_slot i0 (h, r))"
    using Suc.prems i0 h by (intro lock_read_least) (auto simp: word_gt_0)
  moreover have "lock_slot i0 (h, r) = (?h, ?r)"
    using Suc.prems(2,3) i0 by (simp add: lock_slot_def Let_def)
  ultimately have "lock (h, r) = Done () (post ?h, ?r)" using lock Suc.prems(6) by simp
  then have step: "attach_readers lock (Suc m) h (rds, r) = attach_readers lock m h (rds(i0 := post ?h), ?r)"
    by (simp add: post)
  have "\<exists>rds' f g c. attach_readers lock m h (rds(i0 := post ?h), ?r) =
      Some (rds', ?r\<lparr>r_states := g, sem_connect := c, sem_data := f\<rparr>) \<and>
    (\<forall>i q. q \<noteq> IPCBUF_READER_CONN \<longrightarrow> f i q = sem_data ?r i q) \<and>
    (\<forall>i < Suc i0. rds' i = (rds(i0 := post ?h)) i) \<and>
    (\<forall>i. Suc i0 \<le> i \<and> i < n_readers ?r \<longrightarrow>
       rds' i = post (h\<lparr>iread := int i, state := IPCBUF_READER, xfer := 0\<rparr>))"
    using Suc.prems i0 by (intro Suc.IH) (auto simp: sem_data_add_one)
  then obtain rds' f g c where
    1: "attach_readers lock m h (rds(i0 := post ?h), ?r) =
      Some (rds', r\<lparr>r_states := g, sem_connect := c, sem_data := f\<rparr>)" and
    2: "\<forall>i q. q \<noteq> IPCBUF_READER_CONN \<longrightarrow> f i q = sem_data r i q" and
    3: "\<forall>i < Suc i0. rds' i = (rds(i0 := post ?h)) i" and
    4: "\<forall>i. Suc i0 \<le> i \<and> i < n_readers r \<longrightarrow>
       rds' i = post (h\<lparr>iread := int i, state := IPCBUF_READER, xfer := 0\<rparr>)"
    by (auto simp: add_sem_def sem_data_add_one add_at_def)
  have "rds' i = post (h\<lparr>iread := int i, state := IPCBUF_READER, xfer := 0\<rparr>)"
    if "i0 \<le> i" "i < n_readers r" for i
    using that 3 4 by (cases "i = i0") auto
  moreover have "\<forall>i < i0. rds' i = rds i" using 3 by auto
  ultimately show ?case unfolding step using 1 2 by blast
qed


text \<open>The keys of a ring of at most 65526 sub-blocks are different, so they are free at the start.\<close>

lemma no_kernel_free:
  assumes nb: "unat nb \<le> 65526" and n: "n \<le> 8"
  shows "all_free (key # sub_block_keys key nb) (segs no_kernel)"
    and "all_free (ring_key key 1 # reader_keys key n) (semsets no_kernel)"
proof -
  have "distinct (map (\<lambda>b. ring_key key (b + 10)) [0..<unat nb])"
    using nb by (auto simp: distinct_map inj_on_def ring_key_inj)
  moreover have "key \<noteq> ring_key key (b + 10)" if "b < unat nb" for b
    using that nb ring_key_inj [of 0 "b + 10" key] by simp
  ultimately show "all_free (key # sub_block_keys key nb) (segs no_kernel)"
    by (auto simp: all_free_def sub_block_keys_def no_kernel_def)
  have "distinct (map (\<lambda>i. ring_key key (i + 2)) [0..<n])"
    using n by (auto simp: distinct_map inj_on_def ring_key_inj)
  moreover have "ring_key key 1 \<notin> set (map (\<lambda>i. ring_key key (i + 2)) [0..<n])"
  proof
    assume "ring_key key 1 \<in> set (map (\<lambda>i. ring_key key (i + 2)) [0..<n])"
    then obtain i where "i < n" "ring_key key 1 = ring_key key (i + 2)" by auto
    then show False using n ring_key_inj [of 1 "i + 2" key] by simp
  qed
  ultimately show "all_free (ring_key key 1 # reader_keys key n) (semsets no_kernel)"
    unfolding all_free_def reader_keys_def by (simp add: no_kernel_def)
qed

text \<open>A ring no one has used is the empty stream.\<close>

lemma fresh_ring_rel:
  assumes r: "nbufs r \<noteq> 0" "w_buf_curr r = 0" "w_buf_next r = 0" "w_xfer r = 0"
      "\<forall>b < unat (nbufs r). count r b = 0 \<and> length (mem r b) = unat (bufsz r)"
      "\<forall>x < 8. e_buf r x = 0"
    and w: "state w = IPCBUF_WCHANGE" "xfer w = 0"
    and rds: "\<forall>i < n_readers r. state (rds i) = IPCBUF_READER \<and> iread (rds i) = int i \<and>
      r_bufs r i = 0 \<and> r_xfers r i = 0 \<and> sem_data r i IPCBUF_FULL = 0 \<and>
      sem_data r i IPCBUF_CLEAR = 0 \<and> sem_data r i IPCBUF_SODACK = 8 \<and>
      sem_data r i IPCBUF_EODACK = 8"
  shows "ring_rel \<lparr>wr = w, rd = rds, rg = r, holds = (\<lambda>_. False)\<rparr> empty_stream"
proof -
  have "\<not> transfer_open (w, r)" using r w by (simp add: transfer_open_def)
  then show ?thesis
    using r w rds
    by (simp add: ring_rel_def empty_stream_def writer_rel_def starts_rel_def ends_rel_def
        stale_rel_def blocks_rel_def data_rel_def reader_rel_def slot_def occupied_def first_kept_def)
qed

text \<open>
  Creation, connection, the writer's lock and the readers' locks all succeed, whatever the rest
  of the processes' handles and the locks add to them.
\<close>

lemma locked_ring:
  fixes h :: "'h ipcbuf_scheme"
  assumes "nb \<noteq> 0" "bz \<noteq> 0" "n \<le> 8" and h: "state h = IPCBUF_VIEWER" "iread h = -1"
    and lock: "\<And>r h' r'. ipcbuf_lock_read (h, r) = Done () (h', r') \<Longrightarrow> nbufs r = nb \<Longrightarrow>
      lock (h, r) = Done () (post h', r')"
    and post: "\<And>h'. iread (post h') = iread h' \<and> state (post h') = state h'"
  obtains r0 rds r where
    "ipcbuf_lock_write (h, new_ring key nb bz n) =
       Done () (h\<lparr>state := IPCBUF_WCHANGE, xfer := 0\<rparr>, r0)" "nbufs r0 = nb"
    "attach_readers lock n h (\<lambda>_. h, r0) = Some (rds, r)"
    "\<And>w. state w = IPCBUF_WCHANGE \<Longrightarrow> xfer w = 0 \<Longrightarrow>
       ring_rel \<lparr>wr = w, rd = rds, rg = r, holds = (\<lambda>_. False)\<rparr> empty_stream"
    "nbufs r = nb" "bufsz r = bz" "n_readers r = n" "w_buf_curr r = 0" "w_buf_next r = 0"
    "\<forall>i < n. rds i = post (h\<lparr>iread := int i, state := IPCBUF_READER, xfer := 0\<rparr>)"
proof -
  let ?r = "(new_ring key nb bz n)\<lparr>w_state := IPCBUF_WCHANGE,
    sem_connect := (sem_connect (new_ring key nb bz n))(IPCBUF_WRITE := 0)\<rparr>"
  let ?w = "h\<lparr>state := IPCBUF_WCHANGE, xfer := 0\<rparr>"
  have nr: "sem_connect (new_ring key nb bz n) IPCBUF_WRITE = 1"
      "sem_connect (new_ring key nb bz n) IPCBUF_READ = n"
      "w_state (new_ring key nb bz n) = IPCBUF_DISCON" "w_xfer (new_ring key nb bz n) = 0"
    by (simp_all add: new_ring_def init_ring_def)
  have 3: "ipcbuf_lock_write (h, new_ring key nb bz n) = Done () (?w, ?r)"
    by (simp add: lock_write_Done nr h Let_def)
  have fields: "nbufs ?r = nb" "bufsz ?r = bz" "n_readers ?r = n" "w_buf_curr ?r = 0" "w_buf_next ?r = 0"
    "\<forall>i < n. r_bufs ?r i = 0 \<and> r_xfers ?r i = 0 \<and> r_states ?r i = IPCBUF_DISCON \<and>
      sem_data ?r i IPCBUF_READER_CONN = 1 \<and> sem_data ?r i IPCBUF_FULL = 0 \<and>
      sem_data ?r i IPCBUF_CLEAR = 0 \<and> sem_data ?r i IPCBUF_SODACK = 8 \<and>
      sem_data ?r i IPCBUF_EODACK = 8"
    using assms(3) by (simp_all add: new_ring_def init_ring_def sem_data_add_sem zero_ring_def)
  have "\<exists>rds f g c. attach_readers lock n h (\<lambda>_. h, ?r) =
      Some (rds, ?r\<lparr>r_states := g, sem_connect := c, sem_data := f\<rparr>) \<and>
    (\<forall>i q. q \<noteq> IPCBUF_READER_CONN \<longrightarrow> f i q = sem_data ?r i q) \<and> (\<forall>i < 0. rds i = h) \<and>
    (\<forall>i. 0 \<le> i \<and> i < n_readers ?r \<longrightarrow> rds i = post (h\<lparr>iread := int i, state := IPCBUF_READER, xfer := 0\<rparr>))"
    using fields nr h post by (intro attach_all [where nb = nb] lock) auto
  then obtain rds f g c where 4: "attach_readers lock n h (\<lambda>_. h, ?r) =
      Some (rds, ?r\<lparr>r_states := g, sem_connect := c, sem_data := f\<rparr>)"
    "\<forall>i q. q \<noteq> IPCBUF_READER_CONN \<longrightarrow> f i q = sem_data ?r i q"
    "\<forall>i < n. rds i = post (h\<lparr>iread := int i, state := IPCBUF_READER, xfer := 0\<rparr>)"
    using fields(3) by auto
  let ?r4 = "?r\<lparr>r_states := g, sem_connect := c, sem_data := f\<rparr>"
  have "ring_rel \<lparr>wr = w, rd = rds, rg = ?r4, holds = (\<lambda>_. False)\<rparr> empty_stream"
    if "state w = IPCBUF_WCHANGE" "xfer w = 0" for w
    using assms(1) fields 4(2,3) post that
    by (intro fresh_ring_rel) (auto simp: new_ring_def init_ring_def add_sem_def zero_ring_def)
  with 3 4 fields show thesis by (intro that [of ?r rds ?r4]) simp_all
qed

lemma create_connect:
  assumes "bz \<noteq> 0" "unat nb \<le> 65526" "n \<le> 8"
  shows "ipcbuf_create key nb bz n (h, no_kernel) =
      Done () (created_handle key nb n h, created key nb bz n no_kernel)"
    "ipcbuf_connect key (h, created key nb bz n no_kernel) =
      Done () (connected_handle key nb n h, created key nb bz n no_kernel)"
    "rings (created key nb bz n no_kernel) key = new_ring key nb bz n"
proof -
  note F = no_kernel_free [OF assms(2,3), of key]
  have "sync_size nb \<noteq> 0" using sync_size_mono [OF assms(2)] by (auto simp: sync_size_def)
  then show "ipcbuf_create key nb bz n (h, no_kernel) =
      Done () (created_handle key nb n h, created key nb bz n no_kernel)"
    using create_Done [OF assms(3,1)] F by blast
  show "ipcbuf_connect key (h, created key nb bz n no_kernel) =
      Done () (connected_handle key nb n h, created key nb bz n no_kernel)"
    by (rule connect_created [OF F assms(3)])
  show "rings (created key nb bz n no_kernel) key = new_ring key nb bz n" by (simp add: created_def)
qed

lemma start_ring_rel:
  assumes "nb \<noteq> 0" "bz \<noteq> 0" "unat nb \<le> 65526" "n \<le> 8"
  shows "\<exists>s. start_ring key nb bz n = Some s \<and> ring_rel s empty_stream \<and>
    nbufs (rg s) = nb \<and> bufsz (rg s) = bz \<and> n_readers (rg s) = n \<and> soclock_buf (wr s) = 0"
proof -
  let ?h = "connected_handle key nb n IPCBUF_INIT"
  have h: "state ?h = IPCBUF_VIEWER" "iread ?h = -1" "soclock_buf ?h = 0"
    by (simp_all add: connected_handle_def IPCBUF_INIT_def)
  obtain r0 rds r where
    l: "ipcbuf_lock_write (?h, new_ring key nb bz n) = Done () (?h\<lparr>state := IPCBUF_WCHANGE, xfer := 0\<rparr>, r0)"
      "attach_readers ipcbuf_lock_read n ?h (\<lambda>_. ?h, r0) = Some (rds, r)" and
    rel: "\<And>w. state w = IPCBUF_WCHANGE \<Longrightarrow> xfer w = 0 \<Longrightarrow>
       ring_rel \<lparr>wr = w, rd = rds, rg = r, holds = (\<lambda>_. False)\<rparr> empty_stream"
      "nbufs r = nb" "bufsz r = bz" "n_readers r = n"
    by (rule locked_ring [OF assms(1,2,4) h(1,2), where post = "\<lambda>h. h" and lock = ipcbuf_lock_read and key = key])
      simp_all
  then show ?thesis
    using create_connect(1,2) [OF assms(2,3,4), where key = key and h = IPCBUF_INIT]
      create_connect(3) [OF assms(2,3,4), of key] h
    by (simp add: start_ring_def)
qed

end
