(* ===== verification/Setup_Properties.thy ===== *)
theory Setup_Properties
  imports Ring_Start
begin

text \<open>
  The properties of creation, connection, destruction and of the locks.
\<close>

section \<open>Creation, connection, destruction\<close>

text \<open>C8: destroying a ring right after creating it gives the kernel back every segment and every
  semaphore set creation took, and nothing else.\<close>

theorem destroy_undoes_create:
  assumes "ipcbuf_create key nb bz n (h, k) = Done u (h', k')" and "bz \<noteq> 0"
  shows "\<exists>h'' k''. ipcbuf_destroy (h', k') = Done () (h'', k'') \<and>
    segs k'' = segs k \<and> semsets k'' = semsets k"
  using destroy_created [OF create_DoneD(3,4) [OF assms], where h = h and bz = bz] create_DoneD(5) [OF assms]
  by auto

theorem destroy_undoes_create_witness:
  "\<exists>h'' k''. ipcbuf_destroy (created_handle 56026 3 2 IPCBUF_INIT, created 56026 3 16 2 no_kernel) =
      Done () (h'', k'') \<and> segs k'' = (\<lambda>_. None) \<and> semsets k'' = (\<lambda>_. None)"
proof -
  have "sync_size 3 \<noteq> 0" by (simp add: sync_size_def)
  then have "ipcbuf_create 56026 3 16 2 (IPCBUF_INIT, no_kernel) =
      Done () (created_handle 56026 3 2 IPCBUF_INIT, created 56026 3 16 2 no_kernel)"
    using create_Done [of 2 16 3 56026 IPCBUF_INIT no_kernel] no_kernel_free [of 3 2 56026] by auto
  from destroy_undoes_create [OF this] show ?thesis by (simp add: no_kernel_def)
qed

text \<open>C9: creation succeeds exactly when the ring's own key and the keys derived from it are free:
  the connection semaphores, one semaphore set per reader, one segment per sub-block.\<close>

theorem create_succeeds_iff:
  assumes "n \<le> 8" and "bz \<noteq> 0" and "unat nb \<le> 65526"
  shows "(\<exists>s'. ipcbuf_create key nb bz n (h, k) = Done () s') \<longleftrightarrow>
    segs k key = None \<and> (\<forall>b < unat nb. segs k (ring_key key (b + 10)) = None) \<and>
    semsets k (ring_key key 1) = None \<and> (\<forall>i < n. semsets k (ring_key key (i + 2)) = None)"
proof -
  have sz: "sync_size nb \<noteq> 0"
    using sync_size_mono [OF assms(3)] by (auto simp: sync_size_def)
  have d: "all_free (key # sub_block_keys key nb) (segs no_kernel)"
    "all_free (ring_key key 1 # reader_keys key n) (semsets no_kernel)"
    using no_kernel_free [OF assms(3,1)] by blast+
  have "all_free (key # sub_block_keys key nb) (segs k) \<longleftrightarrow>
      segs k key = None \<and> (\<forall>b < unat nb. segs k (ring_key key (b + 10)) = None)"
    using d(1) by (auto simp: all_free_def sub_block_keys_def)
  moreover have "all_free (ring_key key 1 # reader_keys key n) (semsets k) \<longleftrightarrow>
      semsets k (ring_key key 1) = None \<and> (\<forall>i < n. semsets k (ring_key key (i + 2)) = None)"
    using d(2) by (auto simp: all_free_def reader_keys_def)
  ultimately show ?thesis
    using create_Done [OF assms(1,2) sz, of key h k "()"] by blast
qed

theorem create_succeeds_iff_witness:
  "\<exists>s'. ipcbuf_create 56026 3 16 2 (IPCBUF_INIT, no_kernel) = Done () s'"
proof -
  have "unat (3 :: u64) \<le> 65526" by simp
  from create_succeeds_iff [of 2 16 3 56026 IPCBUF_INIT no_kernel, OF _ _ this]
  show ?thesis by (simp add: no_kernel_def)
qed

text \<open>A process that connects to a created ring gets the identifiers the creator has, and the
  kernel does not change.\<close>

theorem connect_finds_created:
  assumes "ipcbuf_create key nb bz n (h, k) = Done u (h', k')" and "bz \<noteq> 0"
  shows "\<exists>h''. ipcbuf_connect key (h0, k') = Done () (h'', k') \<and> state h'' = IPCBUF_VIEWER \<and>
    sync_ptr h'' = sync_ptr h' \<and> semid_connect h'' = semid_connect h' \<and>
    semid_data h'' = semid_data h' \<and> buffer h'' = buffer h' \<and> shmid h'' = shmid h'"
  using connect_created [OF create_DoneD(3,4,1) [OF assms], where h = h0 and bz = bz] create_DoneD(5) [OF assms]
  by (simp add: connected_handle_def created_handle_def)

theorem connect_finds_created_witness:
  "\<exists>h''. ipcbuf_connect 56026 (IPCBUF_INIT, created 56026 3 16 2 no_kernel) =
    Done () (h'', created 56026 3 16 2 no_kernel) \<and> state h'' = IPCBUF_VIEWER"
proof -
  have "sync_size 3 \<noteq> 0" by (simp add: sync_size_def)
  then have "ipcbuf_create 56026 3 16 2 (IPCBUF_INIT, no_kernel) =
      Done () (created_handle 56026 3 2 IPCBUF_INIT, created 56026 3 16 2 no_kernel)"
    using create_Done [of 2 16 3 56026 IPCBUF_INIT no_kernel] no_kernel_free [of 3 2 56026] by auto
  from connect_finds_created [OF this, of IPCBUF_INIT] show ?thesis by auto
qed

text \<open>C12: two rings whose keys differ in the low 16 bits (such as the data and the header ring of a
  header-data unit, at a key and the next) never use the same key for any of their pieces.\<close>

definition ring_keys :: "key_t \<Rightarrow> u64 \<Rightarrow> nat \<Rightarrow> key_t set" where
  "ring_keys key nb n =
    (let r = init_ring key nb 1 n zero_ring
     in {key, semkey_connect r} \<union> semkey_data r ` {..<n} \<union> shmkey r ` {..<unat nb})"

theorem rings_share_no_key:
  assumes "unat key mod 65536 \<noteq> unat key' mod 65536" and "n \<le> 8" and "n' \<le> 8"
  shows "ring_keys key nb n \<inter> ring_keys key' nb' n' = {}"
proof -
  have "\<exists>j. x = ring_key key j" if "x \<in> ring_keys key nb n" "n \<le> 8" for x key nb n
    using that by (auto simp: ring_keys_def init_ring_def ring_key_def
        intro: exI [of _ 0] exI [of _ 1] exI [of _ "_ + 2"] exI [of _ "_ + 10"])
  then show ?thesis
    using assms ring_key_low by (metis (no_types, lifting) disjoint_iff)
qed

theorem rings_share_no_key_witness: "ring_keys 56026 4 1 \<inter> ring_keys 56027 8 2 = {}"
  by (rule rings_share_no_key) simp_all

section \<open>Locks\<close>

text \<open>\<open>m\<close> processes connected to a new ring.\<close>

definition lock_start :: "key_t \<Rightarrow> u64 \<Rightarrow> u64 \<Rightarrow> nat \<Rightarrow> unit procs" where
  "lock_start key nb bz n =
    \<lparr>hs = (\<lambda>_. connected_handle key nb n IPCBUF_INIT), lr = new_ring key nb bz n\<rparr>"

lemma lock_start_inv: "n \<le> 8 \<Longrightarrow> lock_inv m n (lock_start key nb bz n)"
  by (auto simp: lock_inv_def lock_start_def is_reader_def is_writer_def connected_handle_def
      IPCBUF_INIT_def holders_def new_ring_def init_ring_def sem_data_add_sem zero_ring_def word_gt_0)

lemma lock_run_inv:
  "run (lock_step m) (lock_start key nb bz n) cs s \<Longrightarrow> n \<le> 8 \<Longrightarrow> lock_inv m n s"
  by (rule locks.run_inv) (auto intro: lock_start_inv)

text \<open>A history: process 0 locks for writing, process 1 for reading, process 2 only looks.\<close>

lemma demo_locks:
  obtains s where "run (lock_step 3) (lock_start 56026 2 1 2) [(Lock_write, 0), (Lock_read, 1)] s"
    "is_writer (hs s 0)" "is_reader (hs s 1)" "state (hs s 2) = IPCBUF_VIEWER"
    "holders 3 is_reader (hs s) = 1"
proof -
  let ?h = "connected_handle 56026 2 2 IPCBUF_INIT" and ?r = "new_ring 56026 2 1 2"
  let ?s0 = "lock_start 56026 2 1 2"
  have h: "state ?h = IPCBUF_VIEWER" "iread ?h = -1" by (simp_all add: connected_handle_def IPCBUF_INIT_def)
  have r: "sem_connect ?r IPCBUF_WRITE = 1" "sem_connect ?r IPCBUF_READ = 2" "w_state ?r = IPCBUF_DISCON"
    "i < 2 \<Longrightarrow> sem_data ?r i IPCBUF_READER_CONN = 1" "i < 2 \<Longrightarrow> r_bufs ?r i = 0"
    "i < 2 \<Longrightarrow> r_states ?r i = IPCBUF_DISCON" for i
    by (simp_all add: new_ring_def init_ring_def sem_data_add_sem zero_ring_def)
  obtain w r1 where w: "ipcbuf_lock_write (?h, ?r) = Done () (w, r1)"
    using h r by (simp add: lock_write_Done Let_def)
  then have w': "is_writer w" "sem_connect r1 IPCBUF_READ = 2" "n_readers r1 = 2"
    "i < 2 \<Longrightarrow> sem_data r1 i IPCBUF_READER_CONN = 1" "i < 2 \<Longrightarrow> r_bufs r1 i = 0" 
    "i < 2 \<Longrightarrow> r_states r1 i = IPCBUF_DISCON" for i
    using r by (auto simp: lock_write_Done Let_def is_writer_def)
  let ?s1 = "?s0\<lparr>hs := (hs ?s0)(0 := w), lr := r1\<rparr>"
  have 1: "lock_step 3 ?s0 (Lock_write, 0) ?s1"
    by (rule lock_step.intros) (simp_all add: lock_start_def w)
  have "ipcbuf_lock_read (?h, r1) = Done () (lock_slot 0 (?h, r1))"
    using h w' by (intro lock_read_least) (auto simp: before_def word_gt_0)
  moreover obtain rd r2 where rd: "lock_slot 0 (?h, r1) = (rd, r2)" by fastforce
  ultimately have "ipcbuf_lock_read (?h, r1) = Done () (rd, r2)" by simp
  then have 2: "lock_step 3 ?s1 (Lock_read, 1) (?s1\<lparr>hs := (hs ?s1)(1 := rd), lr := r2\<rparr>)"
    by (intro lock_step.intros) (simp_all add: lock_start_def)
  let ?s2 = "?s1\<lparr>hs := (hs ?s1)(1 := rd), lr := r2\<rparr>"
  have rd': "is_reader rd" using rd w' by (auto simp: lock_slot_def is_reader_def Let_def)
  have run: "run (lock_step 3) ?s0 [(Lock_write, 0), (Lock_read, 1)] ?s2"
    by (rule run_Cons [where step = "lock_step 3", OF 1],
        rule run_Cons [where step = "lock_step 3", OF 2], rule run.run_Nil)
  have hs: "hs ?s2 0 = w" "hs ?s2 1 = rd" "hs ?s2 2 = ?h" by (simp_all add: lock_start_def)
  have one_of_three: "{j. j < 3 \<and> Q (f j)} = {Suc 0}" if "\<not> Q (f 0)" "Q (f 1)" "\<not> Q (f 2)"
    for Q and f :: "nat \<Rightarrow> 'a"
    using that by (auto simp: numeral_3_eq_3 numeral_2_eq_2 less_Suc_eq)
  have "\<not> is_reader w" using w'(1) by (auto simp: is_writer_def is_reader_def)
  moreover have "\<not> is_reader ?h" using h by (simp add: is_reader_def)
  ultimately have "{j. j < 3 \<and> is_reader (hs ?s2 j)} = {Suc 0}"
    by (intro one_of_three) (simp_all only: hs rd' simp_thms)
  then have one: "holders 3 is_reader (hs ?s2) = 1" by (simp add: holders_def)
  show thesis
    by (rule that [OF run]) (simp_all only: hs w' rd' h one)
qed

text \<open>C10: however many processes lock and unlock a ring, in whatever order, at most one is the
  writer.\<close>

theorem one_writer:
  assumes "run (lock_step m) (lock_start key nb bz n) cs s" and "n \<le> 8"
    and "j < m" "k < m" "is_writer (hs s j)" "is_writer (hs s k)"
  shows "j = k"
  using lock_inv_writer [OF lock_run_inv [OF assms(1,2)] assms(3-6)] .

theorem one_writer_witness:
  "\<exists>s. run (lock_step 3) (lock_start 56026 2 1 2) [(Lock_write, 0), (Lock_read, 1)] s \<and>
    is_writer (hs s 0) \<and> \<not> is_writer (hs s 1) \<and> \<not> is_writer (hs s 2)"
proof -
  obtain s where s: "run (lock_step 3) (lock_start 56026 2 1 2) [(Lock_write, 0), (Lock_read, 1)] s"
    "is_writer (hs s 0)" by (rule demo_locks)
  with one_writer [OF s(1), of 0 1] one_writer [OF s(1), of 0 2] show ?thesis by auto
qed

text \<open>C11: no two processes read from the same slot of the ring, and every reader has a slot of it.\<close>

theorem one_process_per_slot:
  assumes "run (lock_step m) (lock_start key nb bz n) cs s" and "n \<le> 8"
    and "j < m" "k < m" "is_reader (hs s j)" "is_reader (hs s k)"
  shows "0 \<le> iread (hs s j) \<and> iread (hs s j) < int n \<and> (iread (hs s j) = iread (hs s k) \<longrightarrow> j = k)"
  using lock_run_inv [OF assms(1,2)] lock_inv_reader [of m n s j k] assms(3-)
  by (auto simp: lock_inv_def)

theorem one_process_per_slot_witness:
  "\<exists>s. run (lock_step 3) (lock_start 56026 2 1 2) [(Lock_write, 0), (Lock_read, 1)] s \<and>
    is_reader (hs s 1) \<and> 0 \<le> iread (hs s 1) \<and> iread (hs s 1) < 2"
proof -
  obtain s where s: "run (lock_step 3) (lock_start 56026 2 1 2) [(Lock_write, 0), (Lock_read, 1)] s"
    "is_reader (hs s 1)" by (rule demo_locks)
  from one_process_per_slot [OF s(1) _ _ _ s(2) s(2)] s show ?thesis by auto
qed

text \<open>C12: a process let in by the READ semaphore always finds a free slot: \<open>ipcbuf_lock_read\<close> of a
  connected process returns whenever fewer than \<open>n\<close> processes read.\<close>

theorem lock_read_finds_slot:
  assumes "run (lock_step m) (lock_start key nb bz n) cs s" and "n \<le> 8" and "j < m"
    and "state (hs s j) = IPCBUF_VIEWER" and "holders m is_reader (hs s) < n"
  shows "\<exists>h r. ipcbuf_lock_read (hs s j, lr s) = Done () (h, r) \<and> is_reader h"
proof -
  let ?r = "lr s"
  have I: "lock_inv m n s" by (rule lock_run_inv [OF assms(1,2)])
  then have n: "n_readers ?r = n" and rb: "\<forall>i < n_readers ?r. r_bufs ?r i < - 1"
    and rd: "1 \<le> sem_connect ?r IPCBUF_READ" and ir: "iread (hs s j) = -1"
    using assms(3-5) by (auto simp: lock_inv_def is_reader_def)
  have "\<exists>i < n. 1 \<le> sem_data ?r i IPCBUF_READER_CONN"
  proof (rule ccontr)
    assume "\<not> ?thesis"
    then have "(\<Sum>i<n. sem_data ?r i IPCBUF_READER_CONN) = 0" by auto
    with lock_inv_conn [OF I] rd show False by simp
  qed
  moreover obtain ps r' where "set ps = {..<n_readers ?r}" and
    eq: "ipcbuf_lock_read (hs s j, ?r) =
      (case find (\<lambda>i. 1 \<le> sem_data ?r i IPCBUF_READER_CONN) ps of
         None \<Rightarrow> Err (-1) (hs s j, r') | Some i \<Rightarrow> Done () (lock_slot i (hs s j, ?r)))"
    by (rule lock_read_find [OF assms(4) ir rd rb])
  ultimately have "find (\<lambda>i. 1 \<le> sem_data ?r i IPCBUF_READER_CONN) ps \<noteq> None"
    using n by (auto simp: find_None_iff)
  then show ?thesis unfolding eq by (auto simp: lock_slot_def is_reader_def Let_def)
qed

theorem lock_read_finds_slot_witness:
  "\<exists>s h r. run (lock_step 3) (lock_start 56026 2 1 2) [(Lock_write, 0), (Lock_read, 1)] s \<and>
    ipcbuf_lock_read (hs s 2, lr s) = Done () (h, r) \<and> is_reader h"
proof -
  obtain s where s: "run (lock_step 3) (lock_start 56026 2 1 2) [(Lock_write, 0), (Lock_read, 1)] s"
    "state (hs s 2) = IPCBUF_VIEWER" "holders 3 is_reader (hs s) = 1" by (rule demo_locks)
  from lock_read_finds_slot [OF s(1) _ _ s(2)] s(1,3) show ?thesis by auto
qed

text \<open>C13: the reader that locks takes, among the slots no process is connected to, the one that
  has read the fewest buffers, and of those the first: an interrupted pipeline resumes where it
  is most behind.\<close>

theorem lock_read_takes_oldest:
  assumes "ipcbuf_lock_read (h, r) = Done u (h', r')" and "\<forall>i < n_readers r. r_bufs r i < - 1"
  shows "\<exists>i < n_readers r. iread h' = int i \<and> 1 \<le> sem_data r i IPCBUF_READER_CONN \<and>
    (\<forall>j < n_readers r. 1 \<le> sem_data r j IPCBUF_READER_CONN \<longrightarrow>
       r_bufs r i < r_bufs r j \<or> r_bufs r i = r_bufs r j \<and> i \<le> j)"
proof -
  obtain i where i: "i < n_readers r" "1 \<le> sem_data r i IPCBUF_READER_CONN"
    "\<forall>j < n_readers r. 1 \<le> sem_data r j IPCBUF_READER_CONN \<longrightarrow> j = i \<or> before (r_bufs r) i j"
    "(h', r') = lock_slot i (h, r)"
    using assms by (rule lock_read_Done)
  have "iread h' = int i" using i(4) by (auto simp: lock_slot_def Let_def)
  then show ?thesis using i(1-3) by (auto simp: before_def)
qed

theorem lock_read_takes_oldest_witness:
  "\<exists>h' r'. ipcbuf_lock_read (connected_handle 56026 2 2 IPCBUF_INIT,
       (new_ring 56026 2 1 2)\<lparr>r_bufs := (\<lambda>i. if i = 0 then 7 else 4)\<rparr>) = Done () (h', r') \<and>
     iread h' = 1"
proof -
  let ?h = "connected_handle 56026 2 2 IPCBUF_INIT"
  let ?r = "(new_ring 56026 2 1 2)\<lparr>r_bufs := (\<lambda>i. if i = 0 then 7 else 4)\<rparr>"
  have rb: "\<forall>i < n_readers ?r. r_bufs ?r i < - 1"
    by (auto simp: word_less_nat_alt unsigned_minus_1_eq_mask mask_eq_exp_minus_1)
  have c: "\<forall>i < 2. sem_data ?r i IPCBUF_READER_CONN = 1"
    by (simp add: new_ring_def init_ring_def sem_data_add_sem zero_ring_def)
  have "ipcbuf_lock_read (?h, ?r) = Done () (lock_slot 1 (?h, ?r))"
    using rb c by (intro lock_read_least)
      (auto simp: before_def connected_handle_def IPCBUF_INIT_def new_ring_def init_ring_def)
  then obtain h' r' where f: "ipcbuf_lock_read (?h, ?r) = Done () (h', r')"
    by (cases "lock_slot 1 (?h, ?r)") auto
  from lock_read_takes_oldest [OF f rb] c obtain i where i: "i < 2" "iread h' = int i"
      "\<forall>j < 2. r_bufs ?r i < r_bufs ?r j \<or> r_bufs ?r i = r_bufs ?r j \<and> i \<le> j"
    by auto
  have "i = 1" using i(1) i(3) [rule_format, of 1] by (cases "i = 0") auto
  then show ?thesis using f i(2) by auto
qed

end
