(* ===== verification/Ring_Progress.thy ===== *)
theory Ring_Progress
  imports Ring_Start
begin

text \<open>
  Reachable states of a ring in use: what no call changes, and the calls that always succeed.
\<close>

section \<open>Reachable states\<close>

text \<open>
  \<open>reachable key nb bz n es s\<close>: the calls that caused the events \<open>es\<close> led from the start of a ring
  of \<open>nb\<close> sub-blocks of \<open>bz\<close> bytes with \<open>n\<close> readers to \<open>s\<close>.
\<close>

definition reachable ::
  "key_t \<Rightarrow> u64 \<Rightarrow> u64 \<Rightarrow> nat \<Rightarrow> ring_event list \<Rightarrow> unit sys \<Rightarrow> bool" where
  "reachable key nb bz n es s \<longleftrightarrow> nb \<noteq> 0 \<and> bz \<noteq> 0 \<and>
     (\<exists>s0. start_ring key nb bz n = Some s0 \<and> run ring_step s0 es s)"

lemma start_ring_bounds:
  assumes "start_ring key nb bz n = Some s" and "bz \<noteq> 0"
  shows "n \<le> 8" "unat nb \<le> 65526"
proof -
  from assms(1) obtain s' where "ipcbuf_create key nb bz n (IPCBUF_INIT, no_kernel) = Done () s'"
    by (auto simp: start_ring_def split: option.splits)
  from create_DoneD(1,2) [OF this [unfolded IPCBUF_INIT_def] assms(2)]
  show "n \<le> 8" "unat nb \<le> 65526" .
qed

lemma ring_exec_const:
  assumes "ring_exec act s = Some (e, s')"
  shows "nbufs (rg s') = nbufs (rg s) \<and> bufsz (rg s') = bufsz (rg s) \<and>
    n_readers (rg s') = n_readers (rg s)"
proof (cases act)
  case Open
  with assms show ?thesis
    by (auto split: if_splits option.splits elim!: get_next_write_Done dest!: enable_sod_at_curr(2))
next
  case (Fill n)
  with assms show ?thesis
    by (auto simp: ipcbuf_mark_filled_def outcome_simps semop_loop0 Let_def may_fill_def
        split: if_splits option.splits)
next
  case (Take i)
  with assms show ?thesis
    by (auto simp: ipcbuf_get_next_read_def ipcbuf_get_next_read_work_def get_next_read_reader_def
        get_next_read_viewer_def viewer_start_def outcome_simps ipc_semop_Data Let_def
        split: if_splits option.splits)
next
  case (Clear i)
  with assms show ?thesis
    by (auto simp: ipcbuf_mark_cleared_def outcome_simps ipc_semop_Data Let_def
        split: if_splits option.splits)
next
  case (Ack i)
  with assms show ?thesis
    by (auto simp: ipcbuf_reset_def ipcbuf_eod_def ipcbuf_is_writer_def split: if_splits)
qed (use assms in \<open>auto simp: ipcbuf_zero_next_write_def ipcbuf_enable_eod_def
    ipcbuf_relock_write_def split: if_splits option.splits\<close>)

lemma ring_exec_soclock:
  assumes "ring_exec act s = Some (e, s')"
  shows "soclock_buf (wr s') = soclock_buf (wr s)"
proof (cases act)
  case Open
  with assms show ?thesis
    by (auto split: if_splits option.splits elim!: get_next_write_Done dest!: enable_sod_at_curr(2))
next
  case (Fill n)
  with assms show ?thesis
    by (auto simp: ipcbuf_mark_filled_def outcome_simps semop_loop0 Let_def may_fill_def
        split: if_splits option.splits)
qed (use assms in \<open>auto simp: ipcbuf_zero_next_write_def ipcbuf_enable_eod_def
    ipcbuf_relock_write_def split: if_splits option.splits\<close>)

text \<open>What no call changes, as an interpretation of the invariant interface.\<close>

definition ring_shape :: "u64 \<Rightarrow> u64 \<Rightarrow> nat \<Rightarrow> 'h sys \<Rightarrow> bool" where
  "ring_shape nb bz n s \<longleftrightarrow> nbufs (rg s) = nb \<and> bufsz (rg s) = bz \<and> n_readers (rg s) = n \<and>
     soclock_buf (wr s) = 0"

interpretation ring_const: invariant_system ring_step "ring_shape nb bz n" for nb bz n
  by unfold_locales
    (metis (no_types, lifting) ring_exec_const ring_exec_soclock ring_shape_def ring_step_def)

lemma reachableD:
  assumes "reachable key nb bz n es s"
  obtains a where "ring_rel s a" "run stream_step empty_stream es a" "stream_ok es a"
    "nbufs (rg s) = nb" "bufsz (rg s) = bz" "n_readers (rg s) = n" "soclock_buf (wr s) = 0"
proof -
  from assms obtain s0 where s0: "start_ring key nb bz n = Some s0" and run: "run ring_step s0 es s"
    and nz: "nb \<noteq> 0" "bz \<noteq> 0" by (auto simp: reachable_def)
  from start_ring_rel [OF nz, of n key] start_ring_bounds [OF s0 nz(2)] s0
  have rel: "ring_rel s0 empty_stream" and c: "ring_shape nb bz n s0"
    by (auto simp: ring_shape_def)
  from ring_sim.run_simulates [OF run rel] obtain a
    where a: "run stream_step empty_stream es a" "ring_rel s a" by auto
  show thesis
    using that [OF a(2,1) stream_run_ok [OF a(1)]] ring_const.run_inv [OF run c]
    by (simp add: ring_shape_def)
qed

section \<open>Progress\<close>

lemma take_progress:
  assumes rel: "ring_rel s a" and i: "i < n_readers (rg s)" and nh: "\<not> holds s i"
    and g: "got a i < length (posted a)" and st: "state (rd s i) \<noteq> IPCBUF_RSTOP"
  shows "\<exists>e s'. ring_exec (Take i) s = Some (e, s')"
proof -
  note R = ring_relD(8) [OF rel i, unfolded reader_rel_def prod.case]
  have i': "nat (iread (rd s i)) = i" using R by simp
  have nb: "nbufs (rg s) \<noteq> 0" using ring_relD(1) [OF rel] by (simp add: writer_rel_def)
  have full: "1 \<le> sem_data (rg s) i IPCBUF_FULL" using R g nh by simp
  have sod: "sem_data (rg s) i IPCBUF_SODACK \<le> 9"
    using R g ends_mono [of "got a i" "length (posted a)" "posted a"]
    by (cases "state (rd s i) = IPCBUF_READING") auto
  have "\<exists>p h r. ipcbuf_get_next_read (rd s i, rg s) = Done p (h, r)"
    using R st nb full sod
    by (auto simp: ipcbuf_get_next_read_def ipcbuf_get_next_read_work_def ipcbuf_eod_def
        ipcbuf_is_reader_def get_next_read_reader_def outcome_simps ipc_semop_Data Let_def i'
        sem_data_add_one)
  then show ?thesis using i nh by auto
qed

lemma enable_sod_ok:
  assumes "state h = IPCBUF_WCHANGE" "w_buf_next r = w_buf_curr r" "soclock_buf h = 0"
    and "nbufs r \<noteq> 0" and "\<forall>i < n_readers r. 1 \<le> sem_data r i IPCBUF_SODACK"
  shows "\<exists>s'. ipcbuf_enable_sod (w_buf_curr r) 0 (h, r) = Done () s'"
proof -
  have "w_buf_curr r - nbufs r + 1 \<le> w_buf_curr r" if "\<not> w_buf_curr r < nbufs r"
  proof -
    have "unat (w_buf_curr r - nbufs r) = unat (w_buf_curr r) - unat (nbufs r)"
      using that by (intro unat_sub) simp
    then have less: "unat (w_buf_curr r - nbufs r) < unat (w_buf_curr r)"
      using that assms(4) by (simp add: word_less_nat_alt unat_gt_0) (metis assms(4) unat_eq_zero
        diff_less neq0_conv)
    then have "unat (w_buf_curr r - nbufs r + 1) = Suc (unat (w_buf_curr r - nbufs r))"
      using unat_u64_bound [of "w_buf_curr r"] by (intro unat_add1) simp
    with less show ?thesis by (simp add: word_le_nat_alt)
  qed
  then have "\<not> w_buf_curr r < ipcbuf_get_sod_minbuf (h, r)"
    using assms by (auto simp: ipcbuf_get_sod_minbuf_def Let_def)
  then show ?thesis
    using assms by (simp add: ipcbuf_enable_sod_def outcome_simps semop_loop0 Let_def
        bump_counts.simps [of _ "w_buf_curr r"] Suc_le_eq)
qed

lemma clear_enough:
  assumes rel: "ring_rel s a" and i: "i < n_readers (rg s)" and g: "got a i = length (posted a)"
    and N: "unat (w_buf_next (rg s)) < unat (w_buf_curr (rg s)) + unat (nbufs (rg s))"
    and b: "b = block (rg s) (w_buf_next (rg s))"
  shows "unat (count (rg s) b) \<le> sem_data (rg s) i IPCBUF_CLEAR"
proof -
  let ?r = "rg s"
  note wD = writer_relD [OF ring_relD(1) [OF rel]]
  have "unat (count ?r b) = of_bool (unat (nbufs ?r) \<le> unat (w_buf_next ?r))"
    using wD N unfolding b block_unat by (intro count_next [OF ring_relD(5) [OF rel]]) simp_all
  then show ?thesis
    using reader_window(1) [OF rel i] g N wD by (auto simp: first_kept_def)
qed

lemma open_progress:
  assumes rel: "ring_rel s a" and mo: "may_open (wr s, rg s)" and so: "soclock_buf (wr s) = 0"
    and all: "\<forall>i < n_readers (rg s). got a i = length (posted a)"
  shows "\<exists>e s'. ring_exec Open s = Some (e, s')"
proof -
  let ?r = "rg s" and ?h = "wr s"
  note wD = writer_relD [OF ring_relD(1) [OF rel]]
  have nb: "nbufs ?r \<noteq> 0" using ring_relD(1) [OF rel] by (simp add: writer_rel_def)
  have start: "\<exists>h' r'. (if state ?h = IPCBUF_WCHANGE
        then fail_as 0 (ipcbuf_enable_sod (w_buf_curr ?r) 0 (?h, ?r)) else Done () (?h, ?r)) =
      Done () (h', r') \<and> ring_rel (s\<lparr>wr := h', rg := r'\<rparr>) a \<and> w_buf_next r' = w_buf_next ?r \<and>
      w_buf_curr r' = w_buf_curr ?r \<and> nbufs r' = nbufs ?r \<and> n_readers r' = n_readers ?r"
  proof (cases "state ?h = IPCBUF_WCHANGE")
    case True
    then have eq: "w_buf_next ?r = w_buf_curr ?r" using mo by (simp add: may_open_def)
    then have "\<not> transfer_open (?h, ?r)" using True by (simp add: transfer_open_def)
    then have "1 \<le> sem_data ?r i IPCBUF_SODACK" if "i < n_readers ?r" for i
      using ring_relD(8) [OF rel that] all that by (simp add: reader_rel_def)
    then obtain h' r' where e: "ipcbuf_enable_sod (w_buf_curr ?r) 0 (?h, ?r) = Done () (h', r')"
      using enable_sod_ok [OF True eq so nb] by auto
    then show ?thesis
      using True start_rel [OF rel True eq e] enable_sod_at_curr(2) [OF e] by auto
  qed (use rel in auto)
  then obtain h' r' where s1: "(if state ?h = IPCBUF_WCHANGE
        then fail_as 0 (ipcbuf_enable_sod (w_buf_curr ?r) 0 (?h, ?r)) else Done () (?h, ?r)) =
      Done () (h', r')" and rel': "ring_rel (s\<lparr>wr := h', rg := r'\<rparr>) a"
    and same: "w_buf_next r' = w_buf_next ?r" "w_buf_curr r' = w_buf_curr ?r" "nbufs r' = nbufs ?r"
      "n_readers r' = n_readers ?r" by blast
  have "unat (count r' (block r' (w_buf_next r'))) \<le> sem_data r' i IPCBUF_CLEAR"
    if "i < n_readers r'" for i
    using clear_enough [OF rel', of i] that all mo same by (simp add: may_open_def)
  then obtain s'' where "reclaim (block r' (w_buf_next r')) (h', r') = Done () s''"
    by (simp add: reclaim_Done)
  moreover have "ipcbuf_is_writer (?h, ?r)" using mo by (auto simp: may_open_def ipcbuf_is_writer_def)
  ultimately have "\<exists>b h r. ipcbuf_get_next_write (?h, ?r) = Done b (h, r)"
    using s1 nb same by (cases s'') (simp add: ipcbuf_get_next_write_def Let_def)
  then show ?thesis using mo by auto
qed

text \<open>A full block of an open transfer can always be marked filled.\<close>

lemma fill_progress:
  assumes rel: "ring_rel s a" and mf: "may_fill n (wr s, rg s)"
    and full: "state (wr s) = IPCBUF_WRITING" "n = bufsz (rg s)"
    and nb: "unat (nbufs (rg s)) \<le> 32767"
  shows "\<exists>e s'. ring_exec (Fill n) s = Some (e, s')"
proof -
  let ?r = "rg s"
  note wD = writer_relD [OF ring_relD(1) [OF rel]]
  have "sem_data ?r i IPCBUF_FULL \<le> 32766" if "i < n_readers ?r" for i
  proof -
    have "sem_data ?r i IPCBUF_FULL \<le> length (posted a) - got a i"
      using ring_relD(8) [OF rel that, unfolded reader_rel_def prod.case] by linarith
    moreover have "length (posted a) < unat (w_buf_next ?r)"
      using mf wD(2) by (auto simp: may_fill_def word_less_nat_alt)
    ultimately show ?thesis using reader_window(2,3) [OF rel that] nb by linarith
  qed
  then have "\<exists>h r. ipcbuf_mark_filled n (wr s, ?r) = Done () (h, r)"
    using full wD(3) by (simp add: ipcbuf_mark_filled_def ipcbuf_is_writer_def Let_def semop_loop0
        unat_gt_0)
  then show ?thesis using mf by auto
qed


end
