(* ===== verification/Ring_Properties.thy ===== *)
theory Ring_Properties
  imports Ring_Progress
begin

text \<open>
  The properties of a ring in use, stated for every reachable state, and a concrete run that
  satisfies their hypotheses.
\<close>

section \<open>A concrete run\<close>

text \<open>Start a ring and perform a list of calls.\<close>

definition exec_ring ::
  "key_t \<Rightarrow> u64 \<Rightarrow> u64 \<Rightarrow> nat \<Rightarrow> action list \<Rightarrow> (ring_event list \<times> unit sys) option" where
  "exec_ring key nb bz n acts =
    (case start_ring key nb bz n of None \<Rightarrow> None | Some s \<Rightarrow> run_calls acts s)"

lemma exec_ring_reachable:
  "exec_ring key nb bz n acts = Some (es, s) \<Longrightarrow> nb \<noteq> 0 \<Longrightarrow> bz \<noteq> 0 \<Longrightarrow> reachable key nb bz n es s"
  by (auto simp: exec_ring_def reachable_def split: option.splits dest: run_calls_run)

definition demo_events :: "ring_event list" where
  "demo_events = [Opened 0, Internal, Posted [7] False]"

text \<open>What the properties' hypotheses ask of the state after those events.\<close>

definition demo_ok :: "unit sys \<Rightarrow> bool" where
  "demo_ok s \<longleftrightarrow> \<not> holds s 0 \<and> state (rd s 0) = IPCBUF_READER \<and> state (wr s) = IPCBUF_WRITING"

lemma demo_run:
  "map_option (\<lambda>(es, s). (es, demo_ok s)) (exec_ring 56026 2 1 1 [Open, Store 0 [7], Fill 1])
    = Some (demo_events, True)"
  by code_simp

lemma demo_reachable: obtains s where "reachable 56026 2 1 1 demo_events s" "demo_ok s"
proof -
  from demo_run obtain s
    where e: "exec_ring 56026 2 1 1 [Open, Store 0 [7], Fill 1] = Some (demo_events, s)"
      and ok: "demo_ok s"
    by auto
  have "reachable 56026 2 1 1 demo_events s" by (rule exec_ring_reachable [OF e]) simp_all
  then show thesis using ok by (rule that)
qed

text \<open>After one more call the next block is open.\<close>

definition open_events :: "ring_event list" where
  "open_events = [Opened 0]"

lemma open_run:
  "map_option (\<lambda>(es, s). (es, state (wr s) = IPCBUF_WRITING \<and> may_fill 1 (wr s, rg s)))
    (exec_ring 56026 2 1 1 [Open]) = Some (open_events, True)"
  by code_simp

lemma open_reachable:
  obtains s where "reachable 56026 2 1 1 open_events s" "state (wr s) = IPCBUF_WRITING"
    "may_fill 1 (wr s, rg s)"
proof -
  from open_run obtain s where e: "exec_ring 56026 2 1 1 [Open] = Some (open_events, s)"
      and ok: "state (wr s) = IPCBUF_WRITING" "may_fill 1 (wr s, rg s)"
    by auto
  have "reachable 56026 2 1 1 open_events s" by (rule exec_ring_reachable [OF e]) simp_all
  then show thesis using ok by (rule that)
qed

text \<open>At the start nothing is sent, and the writer may open a block.\<close>

lemma start_run:
  "map_option (\<lambda>(es, s). (es, may_open (wr s, rg s))) (exec_ring 56026 2 1 1 []) = Some ([], True)"
  by code_simp

lemma start_reachable: obtains s where "reachable 56026 2 1 1 [] s" "may_open (wr s, rg s)"
proof -
  from start_run obtain s where e: "exec_ring 56026 2 1 1 [] = Some ([], s)"
      and ok: "may_open (wr s, rg s)"
    by auto
  have "reachable 56026 2 1 1 [] s" by (rule exec_ring_reachable [OF e]) simp_all
  then show thesis using ok by (rule that)
qed

section \<open>The properties\<close>

text \<open>C1: whatever the interleaving of the calls of the writer and the readers, what a reader has
  received is a prefix of what the writer sent: every block, once, in order, with exactly the
  bytes that were in it when it was marked filled.\<close>

theorem readers_receive_prefix:
  assumes "reachable key nb bz n es s"
  shows "prefix (received i es) (sent es)"
  using assms by (rule reachableD) (rule stream_okD(1))

theorem readers_receive_prefix_witness:
  "\<exists>s. reachable 56026 2 1 1 demo_events s \<and> prefix (received 0 demo_events) (sent demo_events)"
proof -
  obtain s where s: "reachable 56026 2 1 1 demo_events s" "demo_ok s" by (rule demo_reachable)
  with readers_receive_prefix [OF s(1), of 0] show ?thesis by blast
qed

text \<open>C2: each reader is told of the end of a transfer when it releases the last block of one, and
  only then: the end-of-data answers it gets are a prefix of the writer's.\<close>

theorem readers_see_transfer_ends:
  assumes "reachable key nb bz n es s"
  shows "prefix (cleared_marks i es) (sent_marks es)"
  using assms by (rule reachableD) (rule stream_okD(2))

theorem readers_see_transfer_ends_witness:
  "\<exists>s. reachable 56026 2 1 1 demo_events s \<and>
    prefix (cleared_marks 0 demo_events) (sent_marks demo_events)"
proof -
  obtain s where s: "reachable 56026 2 1 1 demo_events s" "demo_ok s" by (rule demo_reachable)
  with readers_see_transfer_ends [OF s(1), of 0] show ?thesis by blast
qed

text \<open>C3: the ring refines the stream: every history of calls is a history of the stream, and the
  shared memory, semaphores and handles it leads to represent the stream's state.\<close>

theorem ring_refines_stream:
  assumes "reachable key nb bz n es s"
  shows "\<exists>a. run stream_step empty_stream es a \<and> ring_rel s a"
  using assms by (rule reachableD) blast

theorem ring_refines_stream_witness:
  "\<exists>s a. reachable 56026 2 1 1 demo_events s \<and> run stream_step empty_stream demo_events a \<and>
    ring_rel s a"
proof -
  obtain s where s: "reachable 56026 2 1 1 demo_events s" "demo_ok s" by (rule demo_reachable)
  with ring_refines_stream [OF s(1)] show ?thesis by blast
qed

text \<open>C4: the writer never opens a block a reader still needs: it is at most \<open>nbufs\<close> blocks ahead of
  what each reader has released.\<close>

theorem writer_never_laps_reader:
  assumes "reachable key nb bz n es s" and "i < n"
  shows "unat (w_buf_next (rg s)) \<le> length (cleared_marks i es) + unat nb"
proof -
  obtain a where a: "ring_rel s a" "stream_ok es a" "nbufs (rg s) = nb" "n_readers (rg s) = n"
    using assms(1) by (rule reachableD)
  show ?thesis
    using reader_window(3) [OF a(1), of i] stream_okD(3) [OF a(2), of i] a(3,4) assms(2) by simp
qed

theorem writer_never_laps_reader_witness:
  "\<exists>s. reachable 56026 2 1 1 demo_events s \<and>
    unat (w_buf_next (rg s)) \<le> length (cleared_marks 0 demo_events) + unat (2 :: u64)"
proof -
  obtain s where s: "reachable 56026 2 1 1 demo_events s" "demo_ok s" by (rule demo_reachable)
  with writer_never_laps_reader [OF s(1), of 0] show ?thesis by auto
qed

text \<open>C5: the semaphores of each reader count the blocks of the ring: full, cleared, or in the
  reader's hands, with those already given back to the writer they add up to the blocks sent.\<close>

theorem semaphores_conserved:
  assumes "reachable key nb bz n es s" and "i < n"
  shows "sem_data (rg s) i IPCBUF_FULL + sem_data (rg s) i IPCBUF_CLEAR + of_bool (holds s i) +
    (unat (w_buf_next (rg s)) - unat nb) = length (sent es)"
proof -
  obtain a where a: "ring_rel s a" "stream_ok es a" "nbufs (rg s) = nb" "n_readers (rg s) = n"
    using assms(1) by (rule reachableD)
  then show ?thesis
    using ring_relD(8) [OF a(1), of i] stream_okD(4) [OF a(2)] assms(2)
    by (auto simp: reader_rel_def first_kept_def)
qed

theorem semaphores_conserved_witness:
  "\<exists>s. reachable 56026 2 1 1 demo_events s \<and>
    sem_data (rg s) 0 IPCBUF_FULL + sem_data (rg s) 0 IPCBUF_CLEAR + of_bool (holds s 0) +
    (unat (w_buf_next (rg s)) - unat (2 :: u64)) = length (sent demo_events)"
proof -
  obtain s where s: "reachable 56026 2 1 1 demo_events s" "demo_ok s" by (rule demo_reachable)
  have "sem_data (rg s) 0 IPCBUF_FULL + sem_data (rg s) 0 IPCBUF_CLEAR + of_bool (holds s 0) +
    (unat (w_buf_next (rg s)) - unat (2 :: u64)) = length (sent demo_events)"
    by (rule semaphores_conserved [OF s(1)]) simp
  with s(1) show ?thesis by (intro exI [of _ s] conjI)
qed





text \<open>In a ring of at most 32767 sub-blocks a full block of a transfer can always be marked
  filled: no semaphore overflows, whatever the readers have left unread.\<close>

theorem full_block_accepted:
  assumes "reachable key nb bz n es s" and "state (wr s) = IPCBUF_WRITING"
    and "may_fill bz (wr s, rg s)" and "unat nb \<le> 32767"
  shows "\<exists>s'. ipcbuf_mark_filled bz (wr s, rg s) = Done () s'"
proof -
  obtain a where a: "ring_rel s a" "nbufs (rg s) = nb" "bufsz (rg s) = bz"
    using assms(1) by (rule reachableD)
  from fill_progress [OF a(1) assms(3,2)] a assms(4)
  obtain e s' where "ring_exec (Fill bz) s = Some (e, s')" by auto
  then show ?thesis by (auto split: if_splits option.splits)
qed

theorem full_block_accepted_witness:
  "\<exists>s s'. reachable 56026 2 1 1 open_events s \<and> ipcbuf_mark_filled 1 (wr s, rg s) = Done () s'"
proof -
  obtain s where s: "reachable 56026 2 1 1 open_events s" "state (wr s) = IPCBUF_WRITING"
    "may_fill 1 (wr s, rg s)" by (rule open_reachable)
  have "\<exists>s'. ipcbuf_mark_filled 1 (wr s, rg s) = Done () s'"
    by (rule full_block_accepted [OF s]) simp
  with s show ?thesis by blast
qed

end
