(* ===== verification/Ipcbuf_Query.thy ===== *)
theory Ipcbuf_Query
  imports Ring_Properties
begin

text \<open>
  The functions of src/ipcbuf.c that only look: positions, sizes and semaphore values. Where a
  function reads the element of an array that was allocated for \<open>n_readers\<close> readers, \<open>None\<close>
  stands for an index outside it.
\<close>

section \<open>Positions and sizes\<close>

definition ipcbuf_get_write_byte_xfer :: "('h, 'r) buf_st \<Rightarrow> u64" where
  "ipcbuf_get_write_byte_xfer = (\<lambda>(id, r).
     if eod r (slot (xfer id)) then e_byte r (slot (xfer id))
     else ipcbuf_tell (w_buf_curr r) (id, r))"

definition ipcbuf_get_write_count_xfer :: "('h, 'r) buf_st \<Rightarrow> u64" where
  "ipcbuf_get_write_count_xfer = (\<lambda>(id, r).
     if w_xfer r = xfer id then w_buf_curr r else e_byte r (slot (xfer id)))"

definition ipcbuf_get_write_count :: "('h, 'r) buf_st \<Rightarrow> u64" where
  "ipcbuf_get_write_count = (\<lambda>(id, r). w_buf_curr r)"

definition ipcbuf_get_write_index :: "('h, 'r) buf_st \<Rightarrow> u64 option" where
  "ipcbuf_get_write_index = (\<lambda>(id, r).
     if nbufs r = 0 then None
     else if w_buf_next r > w_buf_curr r then Some ((w_buf_next r - 1) mod nbufs r)
     else Some (w_buf_curr r mod nbufs r))"

definition ipcbuf_get_read_count_iread :: "nat \<Rightarrow> ('h, 'r) buf_st \<Rightarrow> u64 option" where
  "ipcbuf_get_read_count_iread i = (\<lambda>(id, r).
     if i < IPCBUF_READERS then Some (r_bufs r i) else None)"

definition ipcbuf_get_read_count :: "('h, 'r) buf_st \<Rightarrow> u64 option" where
  "ipcbuf_get_read_count = (\<lambda>(id, r).
     if iread id = -1 then ipcbuf_get_read_count_iread 0 (id, r)
     else ipcbuf_get_read_count_iread (nat (iread id)) (id, r))"

definition ipcbuf_get_read_index :: "('h, 'r) buf_st \<Rightarrow> u64 option" where
  "ipcbuf_get_read_index = (\<lambda>(id, r).
     case ipcbuf_get_read_count (id, r) of
       None \<Rightarrow> None
     | Some b \<Rightarrow> if nbufs r = 0 then None else Some (b mod nbufs r))"

definition ipcbuf_get_nbufs :: "('h, 'r) buf_st \<Rightarrow> u64" where
  "ipcbuf_get_nbufs = (\<lambda>(id, r). nbufs r)"

definition ipcbuf_get_bufsz :: "('h, 'r) buf_st \<Rightarrow> u64" where
  "ipcbuf_get_bufsz = (\<lambda>(id, r). bufsz r)"

definition ipcbuf_get_nreaders :: "('h, 'r) buf_st \<Rightarrow> nat" where
  "ipcbuf_get_nreaders = (\<lambda>(id, r). n_readers r)"

definition ipcbuf_get_device :: "('h, 'r) buf_st \<Rightarrow> int" where
  "ipcbuf_get_device = (\<lambda>(id, r). -1)"

section \<open>Semaphore values\<close>

text \<open>
  \<open>ipcbuf_get_nfull_iread\<close> and its likes: the value for reader \<open>iread\<close>; with a negative argument,
  for reader 0 if the process is not a reader, and otherwise the greatest over all readers.
\<close>

definition sem_of_reader :: "data_sem \<Rightarrow> nat \<Rightarrow> 'r ring_scheme \<Rightarrow> nat option" where
  "sem_of_reader q i r = (if i < n_readers r then Some (sem_data r i q) else None)"

fun max_sem :: "data_sem \<Rightarrow> 'r ring_scheme \<Rightarrow> nat \<Rightarrow> nat \<Rightarrow> nat \<Rightarrow> nat" where
  "max_sem q r i 0 m = m"
| "max_sem q r i (Suc n) m =
     max_sem q r (Suc i) n (if sem_data r i q > m then sem_data r i q else m)"

definition get_sem_iread :: "data_sem \<Rightarrow> int \<Rightarrow> ('h, 'r) buf_st \<Rightarrow> nat option" where
  "get_sem_iread q i = (\<lambda>(id, r).
     if i \<ge> 0 then sem_of_reader q (nat i) r
     else if iread id = -1 then sem_of_reader q 0 r
     else Some (max_sem q r 0 (n_readers r) 0))"

definition ipcbuf_get_nfull_iread :: "int \<Rightarrow> ('h, 'r) buf_st \<Rightarrow> nat option" where
  "ipcbuf_get_nfull_iread = get_sem_iread IPCBUF_FULL"

definition ipcbuf_get_nfull :: "('h, 'r) buf_st \<Rightarrow> nat option" where
  "ipcbuf_get_nfull = ipcbuf_get_nfull_iread (-1)"

definition ipcbuf_get_nclear_iread :: "int \<Rightarrow> ('h, 'r) buf_st \<Rightarrow> nat option" where
  "ipcbuf_get_nclear_iread = get_sem_iread IPCBUF_CLEAR"

definition ipcbuf_get_nclear :: "('h, 'r) buf_st \<Rightarrow> nat option" where
  "ipcbuf_get_nclear = ipcbuf_get_nclear_iread (-1)"

definition ipcbuf_get_sodack_iread :: "int \<Rightarrow> ('h, 'r) buf_st \<Rightarrow> nat option" where
  "ipcbuf_get_sodack_iread = get_sem_iread IPCBUF_SODACK"

definition ipcbuf_get_sodack :: "('h, 'r) buf_st \<Rightarrow> nat option" where
  "ipcbuf_get_sodack = ipcbuf_get_sodack_iread (-1)"

definition ipcbuf_get_eodack_iread :: "int \<Rightarrow> ('h, 'r) buf_st \<Rightarrow> nat option" where
  "ipcbuf_get_eodack_iread = get_sem_iread IPCBUF_EODACK"

definition ipcbuf_get_eodack :: "('h, 'r) buf_st \<Rightarrow> nat option" where
  "ipcbuf_get_eodack = ipcbuf_get_eodack_iread (-1)"

text \<open>
  \<open>ipcbuf_get_reader_conn_iread\<close> computes the least value over the readers, from 1, and returns the
  value it read last.
\<close>

fun min_reader_conn :: "'r ring_scheme \<Rightarrow> nat \<Rightarrow> nat \<Rightarrow> nat \<Rightarrow> nat \<Rightarrow> nat \<times> nat" where
  "min_reader_conn r i 0 m v = (m, v)"
| "min_reader_conn r i (Suc n) m v0 =
     (let v = sem_data r i IPCBUF_READER_CONN
      in min_reader_conn r (Suc i) n (if v < m then v else m) v)"

definition ipcbuf_get_reader_conn_iread :: "int \<Rightarrow> ('h, 'r) buf_st \<Rightarrow> nat option" where
  "ipcbuf_get_reader_conn_iread i = (\<lambda>(id, r).
     if i \<ge> 0 then sem_of_reader IPCBUF_READER_CONN (nat i) r
     else if iread id = -1 then sem_of_reader IPCBUF_READER_CONN 0 r
     else Some (snd (min_reader_conn r 0 (n_readers r) 1 0)))"

definition ipcbuf_get_reader_conn :: "('h, 'r) buf_st \<Rightarrow> nat option" where
  "ipcbuf_get_reader_conn = ipcbuf_get_reader_conn_iread (-1)"

definition ipcbuf_get_write_semaphore_count :: "('h, 'r) buf_st \<Rightarrow> nat" where
  "ipcbuf_get_write_semaphore_count = (\<lambda>(id, r). sem_connect r IPCBUF_WRITE)"

definition ipcbuf_get_read_semaphore_count :: "('h, 'r) buf_st \<Rightarrow> nat" where
  "ipcbuf_get_read_semaphore_count = (\<lambda>(id, r). sem_connect r IPCBUF_READ)"

section \<open>Names of states\<close>

fun ipcbuf_get_state_name :: "ipc_state \<Rightarrow> string" where
  "ipcbuf_get_state_name IPCBUF_DISCON = ''DISCON''"
| "ipcbuf_get_state_name IPCBUF_WCHANGE = ''WCHANGE''"
| "ipcbuf_get_state_name IPCBUF_VIEWER = ''VIEWER''"
| "ipcbuf_get_state_name IPCBUF_WRITER = ''WRITER''"
| "ipcbuf_get_state_name IPCBUF_WRITING = ''WRITING''"
| "ipcbuf_get_state_name IPCBUF_READER = ''READER''"
| "ipcbuf_get_state_name IPCBUF_READING = ''READING''"
| "ipcbuf_get_state_name IPCBUF_RSTOP = ''RSTOP''"
| "ipcbuf_get_state_name IPCBUF_VIEWING = ''VIEWING''"
| "ipcbuf_get_state_name IPCBUF_VSTOP = ''VSTOP''"

section \<open>What the queries return\<close>

lemma max_sem_le: "(\<And>j. i \<le> j \<Longrightarrow> j < i + n \<Longrightarrow> sem_data r j q \<le> k) \<Longrightarrow> m \<le> k \<Longrightarrow> max_sem q r i n m \<le> k"
  by (induction n arbitrary: i m) auto

lemma max_sem_start: "m \<le> max_sem q r i n m"
  by (induction n arbitrary: i m) (auto intro: order_trans [OF less_imp_le])

lemma max_sem_ge: "i \<le> j \<Longrightarrow> j < i + n \<Longrightarrow> sem_data r j q \<le> max_sem q r i n m"
proof (induction n arbitrary: i m)
  case (Suc n)
  let ?m = "if sem_data r i q > m then sem_data r i q else m"
  show ?case
  proof (cases "i = j")
    case True
    have "sem_data r j q \<le> ?m" using True by simp
    also have "\<dots> \<le> max_sem q r (Suc i) n ?m" by (rule max_sem_start)
    finally show ?thesis by simp
  next
    case False
    with Suc.prems have "sem_data r j q \<le> max_sem q r (Suc i) n ?m" by (intro Suc.IH) auto
    then show ?thesis by simp
  qed
qed simp

text \<open>In a ring in use, a reader that asks for the number of full buffers is told of the reader
  that is most behind: at least as many as any reader has left, and never more than the ring
  holds.\<close>

theorem nfull_is_worst_reader:
  assumes "reachable key nb bz n es s" and "i < n"
  shows "\<exists>v. ipcbuf_get_nfull (rd s i, rg s) = Some v \<and> v \<le> unat nb \<and>
    (\<forall>j < n. length (sent es) \<le> length (cleared_marks j es) + of_bool (holds s j) + v)"
proof -
  obtain a where a: "ring_rel s a" "stream_ok es a" "nbufs (rg s) = nb" "n_readers (rg s) = n"
    using assms(1) by (rule reachableD)
  note R = ring_relD(8) [OF a(1), unfolded reader_rel_def prod.case]
  have ir: "iread (rd s i) = int i" using R [of i] assms(2) a(4) by simp
  let ?v = "max_sem IPCBUF_FULL (rg s) 0 n 0"
  have "sem_data (rg s) j IPCBUF_FULL \<le> unat nb" if "j < n" for j
  proof -
    have j: "j < n_readers (rg s)" using that a(4) by simp
    have "sem_data (rg s) j IPCBUF_FULL + got a j \<le> length (posted a)" using R [OF j] by linarith
    then show ?thesis
      using reader_window(3) [OF a(1) j, unfolded a(3)] writer_relD(5) [OF ring_relD(1) [OF a(1)], unfolded a(3)]
      by linarith
  qed
  then have "?v \<le> unat nb" by (intro max_sem_le) auto
  moreover have "length (sent es) \<le> length (cleared_marks j es) + of_bool (holds s j) + ?v"
    if "j < n" for j
    using max_sem_ge [of 0 j n "rg s" IPCBUF_FULL 0] R [of j] that a(4) stream_okD(3,4) [OF a(2)]
    by simp
  ultimately show ?thesis
    using ir a(4) by (simp add: ipcbuf_get_nfull_def ipcbuf_get_nfull_iread_def get_sem_iread_def)
qed

theorem nfull_is_worst_reader_witness:
  "\<exists>s v. reachable 56026 2 1 1 demo_events s \<and> ipcbuf_get_nfull (rd s 0, rg s) = Some v \<and> v \<le> 2"
proof -
  obtain s where s: "reachable 56026 2 1 1 demo_events s" by (rule demo_reachable)
  from nfull_is_worst_reader [OF s, of 0] s show ?thesis by auto
qed

text \<open>
  \<open>ipcbuf_get_reader_conn\<close> of a reader, which looks for a reader without a process (the least
  value), reports the last reader instead: with one process on slot 0 and none on slot 1 it
  answers 1.
\<close>

lemma reader_conn_not_least:
  "\<exists>h (r :: ring). iread h = 0 \<and> n_readers r = 2 \<and> sem_data r 0 IPCBUF_READER_CONN = 0 \<and>
    fst (min_reader_conn r 0 2 1 0) = 0 \<and> ipcbuf_get_reader_conn (h :: ipcbuf, r) = Some 1"
  by (rule exI [of _ "IPCBUF_INIT\<lparr>iread := 0\<rparr>"],
      rule exI [of _ "zero_ring\<lparr>n_readers := 2, sem_data := (\<lambda>i q. i)\<rparr>"])
    (simp add: ipcbuf_get_reader_conn_def ipcbuf_get_reader_conn_iread_def numeral_2_eq_2 Let_def)

end
