(* ===== verification/C_String.thy ===== *)
theory C_String
  imports Main "HOL-Library.Sublist"
begin

text \<open>
  The functions of the C library on strings that the text components use. A C string is the list of its
  characters before the terminating NUL.
\<close>

abbreviation NUL :: char where "NUL \<equiv> CHR 0x00"
abbreviation NL :: char where "NL \<equiv> CHR 0x0A"
abbreviation TAB :: char where "TAB \<equiv> CHR 0x09"
abbreviation BLANK :: char where "BLANK \<equiv> CHR 0x20"
abbreviation BACKSLASH :: char where "BACKSLASH \<equiv> CHR 0x5C"
abbreviation HASH :: char where "HASH \<equiv> CHR 0x23"

text \<open>The character at an index, and the NUL behind the last.\<close>

definition char_at :: "string \<Rightarrow> nat \<Rightarrow> char" where
  "char_at s i = (if i < length s then s ! i else NUL)"

fun strstr :: "string \<Rightarrow> string \<Rightarrow> nat option" where
  "strstr h k =
    (if prefix k h then Some 0
     else case h of [] \<Rightarrow> None | c # t \<Rightarrow> map_option Suc (strstr t k))"

declare strstr.simps [simp del]

text \<open>\<open>strstr (s + i, k)\<close>, as an index of \<open>s\<close>; there is nothing behind the NUL.\<close>

definition strstr_from :: "string \<Rightarrow> nat \<Rightarrow> string \<Rightarrow> nat option" where
  "strstr_from s i k = (if i > length s then None else map_option ((+) i) (strstr (drop i s) k))"

definition strcspn :: "string \<Rightarrow> string \<Rightarrow> nat" where
  "strcspn s reject = length (takeWhile (\<lambda>c. c \<notin> set reject) s)"

definition isspace :: "char \<Rightarrow> bool" where
  "isspace c \<longleftrightarrow> c \<in> {BLANK, TAB, NL, CHR 0x0B, CHR 0x0C, CHR 0x0D}"

text \<open>A word: what \<open>%s\<close> of scanf reads.\<close>

definition token :: "string \<Rightarrow> bool" where
  "token s \<longleftrightarrow> s \<noteq> [] \<and> list_all (\<lambda>c. \<not> isspace c) s"

section \<open>Printing and scanning\<close>

text \<open>\<open>%-ns\<close> of printf.\<close>

definition pad :: "nat \<Rightarrow> string \<Rightarrow> string" where
  "pad n s = s @ replicate (n - length s) BLANK"

definition digit :: "nat \<Rightarrow> char" where "digit n = ''0123456789'' ! n"

fun decimal :: "nat \<Rightarrow> string" where
  "decimal n = (if n < 10 then [digit n] else decimal (n div 10) @ [digit (n mod 10)])"

declare decimal.simps [simp del]

definition printf_d :: "int \<Rightarrow> string" where
  "printf_d n = (if n < 0 then CHR ''-'' # decimal (nat (- n)) else decimal (nat n))"

definition isdigit :: "char \<Rightarrow> bool" where
  "isdigit c \<longleftrightarrow> c \<in> set ''0123456789''"

definition digits_value :: "string \<Rightarrow> nat" where
  "digits_value = foldl (\<lambda>v c. 10 * v + (of_char c - 48)) 0"

text \<open>
  One conversion of scanf: the number of items it stores, -1 (\<open>EOF\<close>) if the input ends before it,
  and the item. A number that does not fit the type of the argument is outside the model.
\<close>

definition scanf_s :: "string \<Rightarrow> int \<times> string option" where
  "scanf_s s =
    (let t = dropWhile isspace s
     in if t = [] then (-1, None) else (1, Some (takeWhile (\<lambda>c. \<not> isspace c) t)))"

text \<open>An optional sign and digits, and what follows them.\<close>

definition scan_int :: "string \<Rightarrow> (int \<times> string) option" where
  "scan_int s =
    (case dropWhile isspace s of
       [] \<Rightarrow> None
     | c # t \<Rightarrow>
        let u = (if c = CHR ''-'' \<or> c = CHR ''+'' then t else c # t);
            ds = takeWhile isdigit u; v = int (digits_value ds)
        in if ds = [] then None else Some (if c = CHR ''-'' then - v else v, dropWhile isdigit u))"

definition scanf_d :: "string \<Rightarrow> int \<times> int option" where
  "scanf_d s =
    (case scan_int s of
       Some (v, r) \<Rightarrow> (1, Some v)
     | None \<Rightarrow> (if dropWhile isspace s = [] then -1 else 0, None))"

text \<open>Integers separated by a character, as \<open>%u:%u:%u\<close> reads: the ones it stores, at most \<open>n\<close>.\<close>

fun scan_fields :: "char \<Rightarrow> nat \<Rightarrow> string \<Rightarrow> int list" where
  "scan_fields sep 0 s = []"
| "scan_fields sep (Suc n) s =
    (case scan_int s of
       None \<Rightarrow> []
     | Some (v, r) \<Rightarrow> v # (if r \<noteq> [] \<and> r ! 0 = sep then scan_fields sep n (tl r) else []))"

section \<open>Comparison without case\<close>

definition tolower :: "char \<Rightarrow> char" where
  "tolower c = (let n = of_char c :: nat in if 65 \<le> n \<and> n \<le> 90 then char_of (n + 32) else c)"

definition strcasecmp_eq :: "string \<Rightarrow> string \<Rightarrow> bool" where
  "strcasecmp_eq a b \<longleftrightarrow> map tolower a = map tolower b"

section \<open>Lemmas\<close>

lemma find_none: "find P xs = None \<longleftrightarrow> (\<forall>x \<in> set xs. \<not> P x)"
  by (induction xs) auto

lemma strstr_None: "strstr h k = None \<longleftrightarrow> (\<forall>i \<le> length h. \<not> prefix k (drop i h))"
proof (induction h)
  case Nil
  then show ?case by (simp add: strstr.simps [of "[]"])
next
  case (Cons c h)
  have "(\<forall>i \<le> length (c # h). \<not> prefix k (drop i (c # h))) \<longleftrightarrow>
      \<not> prefix k (c # h) \<and> (\<forall>i \<le> length h. \<not> prefix k (drop i h))"
    by (auto simp: drop_Cons split: nat.splits)
  with Cons show ?case by (simp add: strstr.simps [of "c # h"])
qed

lemma strstr_Some:
  "strstr h k = Some i \<longleftrightarrow> i \<le> length h \<and> prefix k (drop i h) \<and> (\<forall>j < i. \<not> prefix k (drop j h))"
proof (induction h arbitrary: i)
  case Nil
  then show ?case by (auto simp: strstr.simps [of "[]"])
next
  case (Cons c h)
  show ?case
  proof (cases i)
    case 0
    then show ?thesis by (auto simp: strstr.simps [of "c # h"])
  next
    case (Suc m)
    have "(\<forall>j < Suc m. \<not> prefix k (drop j (c # h))) \<longleftrightarrow>
        \<not> prefix k (c # h) \<and> (\<forall>j < m. \<not> prefix k (drop j h))"
      by (auto simp: drop_Cons split: nat.splits)
    with Suc Cons [of m] show ?thesis by (auto simp: strstr.simps [of "c # h"])
  qed
qed

lemma strstr_append_None: "strstr (x @ y) k = None \<Longrightarrow> strstr x k = None"
proof (rule ccontr)
  assume n: "strstr (x @ y) k = None" and "strstr x k \<noteq> None"
  then obtain i where i: "i \<le> length x" "prefix k (drop i x)" by (auto simp: strstr_None)
  then have "prefix k (drop i (x @ y))" by (auto intro: prefix_prefix)
  then show False using n i(1) by (auto simp: strstr_None simp del: drop_append)
qed

lemma strstr_from_None:
  "strstr_from s i k = None \<longleftrightarrow> (\<forall>j. i \<le> j \<and> j \<le> length s \<longrightarrow> \<not> prefix k (drop j s))"
proof (cases "i \<le> length s")
  case True
  have "(\<forall>m \<le> length s - i. \<not> prefix k (drop (i + m) s)) \<longleftrightarrow>
      (\<forall>j. i \<le> j \<and> j \<le> length s \<longrightarrow> \<not> prefix k (drop j s))" (is "?l = ?r")
  proof
    assume l: ?l
    show ?r
    proof (intro allI impI)
      fix j assume "i \<le> j \<and> j \<le> length s"
      then have "j - i \<le> length s - i" "i + (j - i) = j" by auto
      then show "\<not> prefix k (drop j s)" using l by metis
    qed
  qed (use True in auto)
  then show ?thesis using True by (simp add: strstr_from_def strstr_None add.commute)
qed (auto simp: strstr_from_def)

lemma strstr_from_Some:
  "strstr_from s i k = Some j \<longleftrightarrow>
    i \<le> j \<and> j \<le> length s \<and> prefix k (drop j s) \<and> (\<forall>m. i \<le> m \<and> m < j \<longrightarrow> \<not> prefix k (drop m s))"
    (is "?l \<longleftrightarrow> ?r")
proof
  assume ?l
  then obtain n where n: "strstr (drop i s) k = Some n" and j: "j = i + n" and i: "i \<le> length s"
    by (auto simp: strstr_from_def split: if_splits)
  have "\<not> prefix k (drop m s)" if "i \<le> m" "m < j" for m
    using n [unfolded strstr_Some] that j by (auto dest: spec [of _ "m - i"])
  then show ?r using n j i by (auto simp: strstr_Some add.commute)
next
  assume r: ?r
  then have "strstr (drop i s) k = Some (j - i)"
    by (auto simp: strstr_Some)
  then show ?l using r by (simp add: strstr_from_def)
qed

lemma char_at_append [simp]:
  "char_at (a @ b) i = (if i < length a then a ! i else char_at b (i - length a))"
  by (auto simp: char_at_def nth_append)

lemma char_at_0 [simp]: "char_at [] i = NUL" "char_at (c # s) 0 = c" "char_at (c # s) (Suc i) = char_at s i"
  by (simp_all add: char_at_def)

lemma pad_nonempty [simp]: "pad n s = [] \<longleftrightarrow> s = [] \<and> n = 0"
  by (auto simp: pad_def)

lemma length_pad [simp]: "length (pad n s) = max n (length s)"
  by (simp add: pad_def)

lemma set_pad: "set (pad n s) \<subseteq> insert BLANK (set s)"
  by (auto simp: pad_def)

lemma prefix_pad [simp]: "prefix s (pad n s)"
  by (simp add: pad_def)

lemma token_no_space: "token s \<Longrightarrow> c \<in> set s \<Longrightarrow> \<not> isspace c"
  by (auto simp: token_def list_all_iff)

lemma digit_isdigit: "n < 10 \<Longrightarrow> isdigit (digit n)"
  unfolding isdigit_def digit_def by (rule nth_mem) simp

lemma digit_value: "n < 10 \<Longrightarrow> of_char (digit n) - 48 = (n :: nat)"
  by (auto simp: digit_def numeral_eq_Suc less_Suc_eq)

lemma decimal_digits: "list_all isdigit (decimal n)"
  by (induction n rule: decimal.induct)
    (subst decimal.simps, auto simp: digit_isdigit)

lemma decimal_nonempty: "decimal n \<noteq> []"
  by (subst decimal.simps) simp

lemma length_decimal: "n < 10 ^ k \<Longrightarrow> 0 < k \<Longrightarrow> length (decimal n) \<le> k"
proof (induction k arbitrary: n)
  case (Suc k)
  show ?case
  proof (cases "n < 10")
    case False
    then have "0 < k" using Suc.prems(1) by (cases k) auto
    moreover have "n div 10 < 10 ^ k" using Suc.prems(1) by (simp add: less_mult_imp_div_less)
    ultimately show ?thesis using Suc.IH [of "n div 10"] False by (subst decimal.simps) simp
  qed (subst decimal.simps, simp)
qed simp

lemma digits_value_decimal: "digits_value (decimal n) = n"
proof (induction n rule: decimal.induct)
  case (1 n)
  then show ?case
    by (subst decimal.simps) (auto simp: digits_value_def digit_value)
qed

lemma isdigit_not_space: "isdigit c \<Longrightarrow> \<not> isspace c"
  by (auto simp: isdigit_def isspace_def)

lemma printf_d_token: "token (printf_d n)"
proof -
  have d: "token (decimal m)" for m
    using decimal_digits [of m] decimal_nonempty [of m]
    by (auto simp: token_def list_all_iff isdigit_not_space)
  then have "token (CHR ''-'' # decimal m)" for m
    using d [of m] by (simp add: token_def isspace_def)
  with d show ?thesis by (simp add: printf_d_def)
qed

lemma scanf_s_token: "token s \<Longrightarrow> list_all isspace w \<Longrightarrow> isspace c \<Longrightarrow> scanf_s (w @ s @ c # t) = (1, Some s)"
  by (cases s) (auto simp: scanf_s_def token_def list_all_iff Let_def dropWhile_append takeWhile_append)

lemma scan_int_printf_d:
  assumes "list_all isspace w" "r = [] \<or> \<not> isdigit (hd r)"
  shows "scan_int (w @ printf_d n @ r) = Some (n, r)"
proof -
  have sgn: "\<not> isdigit CHR ''-''" "\<not> isdigit CHR ''+''" "\<not> isspace CHR ''-''"
    by (simp_all add: isdigit_def isspace_def)
  obtain d ds where ds: "decimal (nat \<bar>n\<bar>) = d # ds" "isdigit d" "list_all isdigit ds"
    using decimal_digits [of "nat \<bar>n\<bar>"] decimal_nonempty [of "nat \<bar>n\<bar>"]
    by (cases "decimal (nat \<bar>n\<bar>)") auto
  have v: "digits_value (d # ds) = nat \<bar>n\<bar>"
    using digits_value_decimal [of "nat \<bar>n\<bar>"] by (simp add: ds)
  have tw: "takeWhile isdigit (d # ds @ r) = d # ds" "dropWhile isdigit (d # ds @ r) = r"
    using ds(2,3) assms(2) by (cases r; simp add: takeWhile_append dropWhile_append list_all_iff)+
  have skip: "dropWhile isspace (w @ u) = dropWhile isspace u" for u
    using assms(1) by (simp add: dropWhile_append list_all_iff)
  show ?thesis
  proof (cases "n < 0")
    case True
    then have "printf_d n = CHR ''-'' # d # ds" using ds(1) by (simp add: printf_d_def)
    then show ?thesis using True v tw sgn by (simp add: scan_int_def skip)
  next
    case False
    then have "printf_d n = d # ds" using ds(1) by (simp add: printf_d_def)
    moreover have "\<not> isspace d" "d \<noteq> CHR ''-''" "d \<noteq> CHR ''+''"
      using ds(2) sgn isdigit_not_space by auto
    ultimately show ?thesis using False v tw by (simp add: scan_int_def skip)
  qed
qed

lemma scanf_d_printf_d:
  assumes "list_all isspace w" "isspace c"
  shows "scanf_d (w @ printf_d n @ c # t) = (1, Some n)"
proof -
  have "\<not> isdigit c" using assms(2) isdigit_not_space by blast
  then show ?thesis using scan_int_printf_d [OF assms(1), of "c # t" n] by (simp add: scanf_d_def)
qed

end
