(* ===== verification/Ipcio.thy ===== *)
theory Ipcio
  imports Ipcbuf_Query C_String
begin

text \<open>
  src/ipcio.c: the byte-stream interface to a ring. A handle \<open>ipcio_t\<close> extends \<open>ipcbuf_t\<close> with
  the block in use and the position in it, so every function of src/ipcbuf.c applies to it. An
  address in the ring is a sub-block and an offset; a copy outside the sub-block is a crash.
  The bytes a call copies are its argument or its result. The code for CUDA devices and
  \<open>ipcio_percent_full\<close>, which computes with \<open>float\<close>, are not modelled.
\<close>

section \<open>The handle\<close>

type_synonym address = "nat \<times> u64"

record ipcio = ipcbuf +
  curbuf :: "address option"
  curbufsz :: u64
  bytes :: u64
  rdwrt :: char
  marked_filled :: bool
  sod_pending :: bool
  sod_buf :: u64
  sod_byte :: u64
  buf_ptrs :: "address option list"
  bufs_opened :: u32
  bufs_opened_max :: u32

type_synonym ('h, 'r) io_st = "'h ipcio_scheme \<times> 'r ring_scheme"

definition ipcio_init :: "'h ipcio_scheme \<Rightarrow> 'h ipcio_scheme" where
  "ipcio_init ipc =
    ipc\<lparr>bytes := 0, rdwrt := NUL, curbuf := None, curbufsz := 0, marked_filled := False,
        sod_pending := False, sod_buf := 0, sod_byte := 0, bufs_opened_max := 0,
        bufs_opened := 0, buf_ptrs := []\<rparr>"

text \<open>\<open>bufs_opened_max\<close> is unsigned, \<open>nbufs\<close> has 64 bits. What malloc returns is set before it is read.\<close>

definition ipcio_alloc :: "('h, 'r) io_st \<Rightarrow> ('h, 'r) io_st" where
  "ipcio_alloc = (\<lambda>(ipc, r).
     (ipc\<lparr>bufs_opened_max := ucast (ipcbuf_get_nbufs (ipc, r) - 1),
          buf_ptrs := replicate (unat (ipcbuf_get_nbufs (ipc, r))) None\<rparr>, r))"

definition ipcio_dealloc :: "'h ipcio_scheme \<Rightarrow> 'h ipcio_scheme" where
  "ipcio_dealloc ipc = ipc\<lparr>buf_ptrs := [], bufs_opened_max := 0, bufs_opened := 0\<rparr>"

definition ipcio_create ::
  "key_t \<Rightarrow> u64 \<Rightarrow> u64 \<Rightarrow> nat \<Rightarrow> 'h ipcio_ext life_st \<Rightarrow> (unit, 'h ipcio_ext life_st) outcome" where
  "ipcio_create key nb bz n s =
     andthen (fail_as (-1) (ipcbuf_create key nb bz n s)) (\<lambda>_ (ipc, k). Done () (ipcio_init ipc, k))"

definition ipcio_connect :: "key_t \<Rightarrow> 'h ipcio_ext life_st \<Rightarrow> (unit, 'h ipcio_ext life_st) outcome" where
  "ipcio_connect key s =
     andthen (fail_as (-1) (ipcbuf_connect key s)) (\<lambda>_ (ipc, k). Done () (ipcio_init ipc, k))"

definition ipcio_disconnect :: "'h ipcio_ext life_st \<Rightarrow> (unit, 'h ipcio_ext life_st) outcome" where
  "ipcio_disconnect s =
     andthen (fail_as (-1) (ipcbuf_disconnect s)) (\<lambda>_ (ipc, k). Done () (ipcio_init ipc, k))"

definition ipcio_destroy :: "'h ipcio_ext life_st \<Rightarrow> (unit, 'h ipcio_ext life_st) outcome" where
  "ipcio_destroy = (\<lambda>(ipc, k). ipcbuf_destroy (ipcio_init ipc, k))"

section \<open>Opening and closing\<close>

definition ipcio_open :: "char \<Rightarrow> ('h, 'r) io_st \<Rightarrow> (unit, ('h, 'r) io_st) outcome" where
  "ipcio_open mode = (\<lambda>(ipc, r).
     if mode \<notin> {CHR ''R'', CHR ''r'', CHR ''w'', CHR ''W''} then Err (-1) (ipc, r)
     else
       let s = (ipc\<lparr>rdwrt := NUL, bytes := 0, curbuf := None\<rparr>, r);
           opened = (\<lambda>_ (ipc, r). Done () (ipcio_alloc (ipc\<lparr>rdwrt := mode\<rparr>, r)))
       in if mode = CHR ''w'' \<or> mode = CHR ''W'' then
            andthen (fail_as (-1) (ipcbuf_lock_write s)) (\<lambda>_ s.
            andthen (if mode = CHR ''w'' then fail_as (-1) (ipcbuf_disable_sod s) else Done () s)
              opened)
          else
            andthen (if mode = CHR ''R'' then fail_as (-1) (ipcbuf_lock_read s) else Done () s)
              opened)"

definition ipcio_get_start_minimum :: "('h, 'r) io_st \<Rightarrow> u64" where
  "ipcio_get_start_minimum s = ipcbuf_get_sod_minbuf s * ipcbuf_get_bufsz s"

definition ipcio_check_pending_sod :: "('h, 'r) io_st \<Rightarrow> (unit, ('h, 'r) io_st) outcome" where
  "ipcio_check_pending_sod = (\<lambda>(ipc, r).
     if \<not> sod_pending ipc then Done () (ipc, r)
     else if ipcbuf_get_write_count (ipc, r) \<le> sod_buf ipc then Done () (ipc, r)
     else andthen (fail_as (-1) (ipcbuf_enable_sod (sod_buf ipc) (sod_byte ipc) (ipc, r)))
            (\<lambda>_ (ipc, r). Done () (ipc\<lparr>sod_pending := False\<rparr>, r)))"

definition ipcio_start :: "u64 \<Rightarrow> ('h, 'r) io_st \<Rightarrow> (unit, ('h, 'r) io_st) outcome" where
  "ipcio_start byte = (\<lambda>(ipc, r).
     if rdwrt ipc \<noteq> CHR ''w'' then Err (-1) (ipc, r)
     else if bufsz r = 0 then Crash
     else ipcio_check_pending_sod
            (ipc\<lparr>sod_buf := byte div bufsz r, sod_byte := byte mod bufsz r, sod_pending := True,
                 rdwrt := CHR ''W''\<rparr>, r))"

section \<open>Blocks opened for direct access\<close>

definition ipcio_open_block_read ::
  "('h, 'r) io_st \<Rightarrow> (address \<times> u64 \<times> u64, ('h, 'r) io_st) outcome" where
  "ipcio_open_block_read = (\<lambda>(ipc, r).
     if bytes ipc \<noteq> 0 then Err 0 (ipc, r)
     else if curbuf ipc \<noteq> None then Err 0 (ipc, r)
     else if rdwrt ipc \<noteq> CHR ''r'' \<and> rdwrt ipc \<noteq> CHR ''R'' then Err 0 (ipc, r)
     else if ipcbuf_eod (ipc, r) then Err 0 (ipc, r)
     else andthen (ipcbuf_get_next_read (ipc, r)) (\<lambda>p (ipc, r).
       case ipcbuf_get_read_index (ipc, r) of
         None \<Rightarrow> Crash
       | Some block_id \<Rightarrow>
           Done ((rp_block p, rp_offset p), rp_bytes p, block_id)
             (ipc\<lparr>curbuf := Some (rp_block p, rp_offset p), curbufsz := rp_bytes p, bytes := 0\<rparr>, r)))"

definition ipcio_close_block_read :: "u64 \<Rightarrow> ('h, 'r) io_st \<Rightarrow> (unit, ('h, 'r) io_st) outcome" where
  "ipcio_close_block_read n = (\<lambda>(ipc, r).
     if bytes ipc \<noteq> 0 then Err (-1) (ipc, r)
     else if curbuf ipc = None then Err (-1) (ipc, r)
     else if rdwrt ipc \<noteq> CHR ''R'' then Err (-1) (ipc, r)
     else
       let ipc = ipc\<lparr>bytes := bytes ipc + n\<rparr>
       in if bytes ipc = curbufsz ipc then
            andthen (fail_as (-1) (ipcbuf_mark_cleared (ipc, r))) (\<lambda>_ (ipc, r).
              Done () (ipc\<lparr>curbuf := None, bytes := 0\<rparr>, r))
          else Done () (ipc, r))"

definition ipcio_open_block_write ::
  "('h, 'r) io_st \<Rightarrow> (address \<times> u64, ('h, 'r) io_st) outcome" where
  "ipcio_open_block_write = (\<lambda>(ipc, r).
     if bytes ipc \<noteq> 0 then Err 0 (ipc, r)
     else if curbuf ipc \<noteq> None \<and> bufs_opened ipc = 0 then Err 0 (ipc, r)
     else if rdwrt ipc \<noteq> CHR ''W'' then Err 0 (ipc, r)
     else if bufs_opened ipc \<ge> bufs_opened_max ipc then Err 0 (ipc, r)
     else andthen (ipcbuf_get_next_write (ipc, r)) (\<lambda>b (ipc, r).
       if unat (bufs_opened ipc) \<ge> length (buf_ptrs ipc) then Crash
       else
         let ipc = ipc\<lparr>buf_ptrs := (buf_ptrs ipc)[unat (bufs_opened ipc) := Some (b, 0)]\<rparr>;
             ipc = (if bufs_opened ipc = 0
                    then ipc\<lparr>curbuf := Some (b, 0), marked_filled := False, bytes := 0\<rparr> else ipc);
             ipc = ipc\<lparr>bufs_opened := bufs_opened ipc + 1\<rparr>
         in case ipcbuf_get_write_index (ipc, r) of
              None \<Rightarrow> Crash
            | Some block_id \<Rightarrow> Done ((b, 0), block_id) (ipc, r)))"

definition ipcio_zero_next_block :: "('h, 'r) io_st \<Rightarrow> (unit, ('h, 'r) io_st) outcome" where
  "ipcio_zero_next_block s =
     (if rdwrt (fst s) \<noteq> CHR ''W'' then Err (-1) s else ipcbuf_zero_next_write s)"

definition ipcio_update_block_write :: "u64 \<Rightarrow> ('h, 'r) io_st \<Rightarrow> (unit, ('h, 'r) io_st) outcome" where
  "ipcio_update_block_write n = (\<lambda>(ipc, r).
     if bytes ipc \<noteq> 0 then Err (-1) (ipc, r)
     else if curbuf ipc = None then Err (-1) (ipc, r)
     else if rdwrt ipc \<noteq> CHR ''W'' then Err (-1) (ipc, r)
     else if bytes ipc + n > bufsz r then Err (-1) (ipc, r)
     else Done () (ipc\<lparr>bytes := bytes ipc + n\<rparr>, r))"

text \<open>Closing a block forgets the oldest open one and moves the others down the list.\<close>

definition close_oldest :: "'h ipcio_scheme \<Rightarrow> ('h ipcio_scheme) option" where
  "close_oldest ipc =
    (let ipc = ipc\<lparr>bufs_opened := bufs_opened ipc - 1\<rparr>;
         n = unat (bufs_opened ipc)
     in if n \<ge> length (buf_ptrs ipc) then None
        else if n = 0 then
          Some (ipc\<lparr>buf_ptrs := (buf_ptrs ipc)[0 := None], curbuf := None, marked_filled := True,
                    bytes := 0\<rparr>)
        else
          let ps = map (\<lambda>j. buf_ptrs ipc ! (j + 1)) [0..<n] @ None # drop (Suc n) (buf_ptrs ipc)
          in Some (ipc\<lparr>buf_ptrs := ps, curbuf := ps ! 0, marked_filled := False, bytes := 0\<rparr>))"

definition ipcio_close_block_write :: "u64 \<Rightarrow> ('h, 'r) io_st \<Rightarrow> (unit, ('h, 'r) io_st) outcome" where
  "ipcio_close_block_write n s =
     andthen (fail_as (-1) (ipcio_update_block_write n s)) (\<lambda>_ (ipc, r).
     if marked_filled ipc then Done () (ipc, r)
     else andthen (fail_as (-2) (ipcbuf_mark_filled (bytes ipc) (ipc, r))) (\<lambda>_ s.
          andthen (fail_as (-3) (ipcio_check_pending_sod s)) (\<lambda>_ (ipc, r).
          case close_oldest ipc of
            None \<Rightarrow> Crash
          | Some ipc \<Rightarrow> Done () (ipc, r))))"

section \<open>Stop and close\<close>

text \<open>
  The loop of \<open>ipcio_stop_close\<close> that closes the blocks still open. Every turn closes one or
  leaves a position the next turn refuses, so it makes at most one turn more than there are
  open blocks.
\<close>

fun close_all :: "nat \<Rightarrow> ('h, 'r) io_st \<Rightarrow> (unit, ('h, 'r) io_st) outcome" where
  "close_all n s =
    (if bufs_opened (fst s) = 0 then Done () s
     else case n of
       0 \<Rightarrow> Wait s
     | Suc m \<Rightarrow> andthen (fail_as (-1) (ipcio_close_block_write (bufsz (snd s)) s))
                 (\<lambda>_ s. close_all m s))"

declare close_all.simps [simp del]

definition open_next :: "('h, 'r) io_st \<Rightarrow> (unit, ('h, 'r) io_st) outcome" where
  "open_next s = andthen (fail_as (-1) (ipcbuf_get_next_write s)) (\<lambda>b (ipc, r).
     Done () (ipc\<lparr>curbuf := Some (b, 0), marked_filled := False, bytes := 0\<rparr>, r))"

definition stop_writing :: "('h, 'r) io_st \<Rightarrow> (unit, ('h, 'r) io_st) outcome" where
  "stop_writing s =
     andthen (if ipcbuf_is_wchange s \<and> curbuf (fst s) = None then open_next s else Done () s) (\<lambda>_ s.
     andthen
       (if ipcbuf_is_writing s then
          andthen (close_all (Suc (unat (bufs_opened (fst s)))) s) (\<lambda>_ s.
          andthen (fail_as (-1) (ipcbuf_enable_eod s)) (\<lambda>_ s.
          andthen (fail_as (-1) (ipcbuf_mark_filled (bytes (fst s)) s)) (\<lambda>_ s.
          andthen (fail_as (-1) (ipcio_check_pending_sod s)) (\<lambda>_ (ipc, r).
            let ipc = ipc\<lparr>marked_filled := True\<rparr>
            in Done () (if bytes ipc = bufsz r then ipc\<lparr>curbuf := None\<rparr> else ipc, r)))))
        else Done () s) (\<lambda>_ (ipc, r).
     Done () (ipc\<lparr>rdwrt := CHR ''w''\<rparr>, r)))"

text \<open>A writer that closes moves the write position behind the last end of data.\<close>

definition close_writer :: "('h, 'r) io_st \<Rightarrow> (unit, ('h, 'r) io_st) outcome" where
  "close_writer = (\<lambda>(ipc, r).
     let b = e_buf r (slot (w_xfer r - 1)) + 1;
         r = (if w_xfer r > 0 then r\<lparr>w_buf_curr := b, w_buf_next := b\<rparr> else r)
     in andthen (fail_as (-1) (ipcbuf_unlock_write (ipc, r))) (\<lambda>_ (ipc, r).
          Done () (ipc\<lparr>rdwrt := NUL\<rparr>, r)))"

definition close_reader :: "('h, 'r) io_st \<Rightarrow> (unit, ('h, 'r) io_st) outcome" where
  "close_reader s = andthen (fail_as (-1) (ipcbuf_unlock_read s)) (\<lambda>_ (ipc, r).
     Done () (ipc\<lparr>rdwrt := NUL\<rparr>, r))"

definition ipcio_stop_close :: "bool \<Rightarrow> ('h, 'r) io_st \<Rightarrow> (unit, ('h, 'r) io_st) outcome" where
  "ipcio_stop_close unlock s =
    (if rdwrt (fst s) = CHR ''W'' then
       andthen (stop_writing s) (\<lambda>_ s. if unlock then close_writer s else Done () s)
     else if rdwrt (fst s) = CHR ''w'' then close_writer s
     else if rdwrt (fst s) = CHR ''R'' then close_reader s
     else Err (-1) s)"

definition ipcio_stop :: "('h, 'r) io_st \<Rightarrow> (unit, ('h, 'r) io_st) outcome" where
  "ipcio_stop s = (if rdwrt (fst s) \<noteq> CHR ''W'' then Err (-1) s else ipcio_stop_close False s)"

definition ipcio_close :: "('h, 'r) io_st \<Rightarrow> (unit, ('h, 'r) io_st) outcome" where
  "ipcio_close = ipcio_stop_close True"

definition ipcio_is_open :: "'h ipcio_scheme \<Rightarrow> bool" where
  "ipcio_is_open ipc \<longleftrightarrow>
     rdwrt ipc = CHR ''R'' \<or> rdwrt ipc = CHR ''r'' \<or> rdwrt ipc = CHR ''w'' \<or> rdwrt ipc = CHR ''W''"

section \<open>Writing\<close>

text \<open>memcpy into, and out of, the ring at \<open>curbuf + bytes\<close>.\<close>

definition copy_in :: "address \<Rightarrow> u64 \<Rightarrow> u8 list \<Rightarrow> 'r ring_scheme \<Rightarrow> 'r ring_scheme option" where
  "copy_in = (\<lambda>(b, off) pos d r.
     let j = unat off + unat pos; m = mem r b
     in if j + length d > length m then None
        else Some (r\<lparr>mem := (mem r)(b := take j m @ d @ drop (j + length d) m)\<rparr>))"

definition copy_out :: "address \<Rightarrow> u64 \<Rightarrow> nat \<Rightarrow> 'r ring_scheme \<Rightarrow> u8 list option" where
  "copy_out = (\<lambda>(b, off) pos n r.
     let j = unat off + unat pos; m = mem r b
     in if j + n > length m then None else Some (take n (drop j m)))"

text \<open>One turn of the loop: mark a block filled by an earlier turn, open a block, copy.\<close>

definition flush_full :: "('h, 'r) io_st \<Rightarrow> (unit, ('h, 'r) io_st) outcome" where
  "flush_full s =
    (if bytes (fst s) = bufsz (snd s) then
       andthen
         (if marked_filled (fst s) then Done () s
          else andthen (fail_as (-1) (ipcbuf_mark_filled (bytes (fst s)) s)) (\<lambda>_ s.
               fail_as (-1) (ipcio_check_pending_sod s)))
         (\<lambda>_ (ipc, r). Done () (ipc\<lparr>curbuf := None, bytes := 0, marked_filled := True\<rparr>, r))
     else Done () s)"

definition put_bytes :: "u8 list \<Rightarrow> ('h, 'r) io_st \<Rightarrow> (nat, ('h, 'r) io_st) outcome" where
  "put_bytes d = (\<lambda>(ipc, r).
     let space = min (unat (bufsz r - bytes ipc)) (length d)
     in if space = 0 then Done 0 (ipc, r)
        else case curbuf ipc of
          None \<Rightarrow> Crash
        | Some p \<Rightarrow>
            (case copy_in p (bytes ipc) (take space d) r of
               None \<Rightarrow> Crash
             | Some r' \<Rightarrow> Done space (ipc\<lparr>bytes := bytes ipc + of_nat space\<rparr>, r')))"

definition write_turn :: "u8 list \<Rightarrow> ('h, 'r) io_st \<Rightarrow> (nat, ('h, 'r) io_st) outcome" where
  "write_turn d s =
     andthen (flush_full s) (\<lambda>_ s.
     andthen (if curbuf (fst s) = None then open_next s else Done () s) (\<lambda>_ s.
     put_bytes d s))"

text \<open>
  The loop. In a ring whose blocks have at least one byte every turn copies one, so the loop
  makes at most \<open>length d\<close> turns; with blocks of no bytes it never returns.
\<close>

fun write_loop :: "nat \<Rightarrow> u8 list \<Rightarrow> ('h, 'r) io_st \<Rightarrow> (unit, ('h, 'r) io_st) outcome" where
  "write_loop n d s =
    (if d = [] then Done () s
     else case n of
       0 \<Rightarrow> Wait s
     | Suc m \<Rightarrow> andthen (write_turn d s) (\<lambda>k s. write_loop m (drop k d) s))"

declare write_loop.simps [simp del]

definition ipcio_write :: "u8 list \<Rightarrow> ('h, 'r) io_st \<Rightarrow> (nat, ('h, 'r) io_st) outcome" where
  "ipcio_write d s =
    (if rdwrt (fst s) \<noteq> CHR ''W'' \<and> rdwrt (fst s) \<noteq> CHR ''w'' then Err (-1) s
     else andthen (write_loop (length d) d s) (\<lambda>_. Done (length d)))"

section \<open>Reading\<close>

text \<open>
  One turn: open a block if none is, copy, release the block at its end. The result is the number
  of bytes and, if the caller gave a destination (\<open>to_ptr\<close>), the bytes.
\<close>

definition open_read :: "('h, 'r) io_st \<Rightarrow> (unit, ('h, 'r) io_st) outcome" where
  "open_read s =
    (if curbuf (fst s) \<noteq> None then Done () s
     else andthen (fail_as (-1) (ipcbuf_get_next_read s)) (\<lambda>p (ipc, r).
       Done () (ipc\<lparr>curbuf := Some (rp_block p, rp_offset p), curbufsz := rp_bytes p, bytes := 0\<rparr>, r)))"

definition get_bytes :: "bool \<Rightarrow> nat \<Rightarrow> ('h, 'r) io_st \<Rightarrow> (nat \<times> u8 list, ('h, 'r) io_st) outcome" where
  "get_bytes to_ptr n = (\<lambda>(ipc, r).
     let space = min (unat (curbufsz ipc - bytes ipc)) n;
         s = (ipc\<lparr>bytes := bytes ipc + of_nat space\<rparr>, r)
     in if \<not> to_ptr \<or> space = 0 then Done (space, []) s
        else case curbuf ipc of
          None \<Rightarrow> Crash
        | Some p \<Rightarrow>
            (case copy_out p (bytes ipc) space r of
               None \<Rightarrow> Crash
             | Some d \<Rightarrow> Done (space, d) s))"

definition finish_block :: "('h, 'r) io_st \<Rightarrow> (unit, ('h, 'r) io_st) outcome" where
  "finish_block s =
    (if bytes (fst s) = curbufsz (fst s) then
       andthen (if rdwrt (fst s) = CHR ''R'' then fail_as (-1) (ipcbuf_mark_cleared s) else Done () s)
         (\<lambda>_ (ipc, r). Done () (ipc\<lparr>curbuf := None, bytes := 0\<rparr>, r))
     else Done () s)"

definition read_turn :: "bool \<Rightarrow> nat \<Rightarrow> ('h, 'r) io_st \<Rightarrow> (nat \<times> u8 list, ('h, 'r) io_st) outcome" where
  "read_turn to_ptr n s =
     andthen (open_read s) (\<lambda>_ s.
     andthen (get_bytes to_ptr n s) (\<lambda>d s.
     andthen (finish_block s) (\<lambda>_. Done d)))"

fun read_loop :: "nat \<Rightarrow> bool \<Rightarrow> nat \<Rightarrow> ('h, 'r) io_st \<Rightarrow> (nat \<times> u8 list, ('h, 'r) io_st) outcome" where
  "read_loop fuel to_ptr n s =
    (if ipcbuf_eod s then Done (0, []) s
     else case fuel of
       0 \<Rightarrow> Wait s
     | Suc f \<Rightarrow> andthen (read_turn to_ptr n s) (\<lambda>(k, d) s.
          if n - k = 0 then Done (k, d) s
          else andthen (read_loop f to_ptr (n - k) s) (\<lambda>(k', d'). Done (k + k', d @ d'))))"

declare read_loop.simps [simp del]

text \<open>
  Every turn copies a byte or finishes a block, and only blocks that are full now can be opened
  by a call that returns: at most \<open>FULL\<close> of them for a reader, \<open>nbufs + 1\<close> for a viewer.
\<close>

definition read_fuel :: "nat \<Rightarrow> ('h, 'r) io_st \<Rightarrow> nat" where
  "read_fuel n = (\<lambda>(ipc, r). n + sem_data r (nat (iread ipc)) IPCBUF_FULL + unat (nbufs r) + 3)"

definition ipcio_read :: "bool \<Rightarrow> nat \<Rightarrow> ('h, 'r) io_st \<Rightarrow> (nat \<times> u8 list, ('h, 'r) io_st) outcome" where
  "ipcio_read to_ptr n s =
    (if rdwrt (fst s) \<noteq> CHR ''r'' \<and> rdwrt (fst s) \<noteq> CHR ''R'' then Err (-1) s
     else read_loop (read_fuel n s) to_ptr n s)"

section \<open>Positions\<close>

definition ipcio_tell :: "('h, 'r) io_st \<Rightarrow> u64" where
  "ipcio_tell s =
    (let mode = rdwrt (fst s);
         current = (if mode = CHR ''R'' \<or> mode = CHR ''r'' then ipcbuf_tell_read s
                    else if mode = CHR ''W'' \<or> mode = CHR ''w'' then ipcbuf_tell_write s
                    else -1)
     in if current < 0 then 0 else of_int current + bytes (fst s))"

text \<open>
  \<open>offset\<close> has type \<open>int64_t\<close>, but every comparison of the code is with an unsigned number and so
  unsigned: it is the word with the same bits. \<open>relative\<close> is \<open>whence == SEEK_CUR\<close>.
\<close>

definition ipcio_seek :: "u64 \<Rightarrow> bool \<Rightarrow> ('h, 'r) io_st \<Rightarrow> (u64, ('h, 'r) io_st) outcome" where
  "ipcio_seek offset relative = (\<lambda>(ipc, r).
     let current = ipcio_tell (ipc, r);
         offset = (if relative then offset + current else offset)
     in if current < offset then
          andthen (fail_as (-1) (ipcio_read False (unat (offset - current)) (ipc, r)))
            (\<lambda>_ s. Done (ipcio_tell s) s)
        else if offset < current then
          (if current - offset > bytes ipc then Err (-1) (ipc, r)
           else let s = (ipc\<lparr>bytes := bytes ipc - (current - offset)\<rparr>, r) in Done (ipcio_tell s) s)
        else Done (ipcio_tell (ipc, r)) (ipc, r))"

definition ipcio_space_left :: "('h, 'r) io_st \<Rightarrow> int option" where
  "ipcio_space_left s =
    map_option (\<lambda>full. sint ((ipcbuf_get_nbufs s - of_nat full) * ipcbuf_get_bufsz s))
      (ipcbuf_get_nfull s)"

definition ipcio_get_soclock_byte :: "('h, 'r) io_st \<Rightarrow> u64" where
  "ipcio_get_soclock_byte s = ipcbuf_get_bufsz s * soclock_buf (fst s)"

end
