(* ===== verification/Ipcio_Stream.thy ===== *)
theory Ipcio_Stream
  imports Ring_Spec
begin

text \<open>
  What the byte-stream interface promises: the writer produces a sequence of transfers, each a
  string of bytes; every reader receives the same transfers, however the bytes are cut into
  blocks and calls. A party's history is the list of the transfers it completed and the bytes
  of the transfer in progress.
\<close>

type_synonym history = "u8 list list \<times> u8 list"

text \<open>The history a log of blocks amounts to: a block marked as last completes the transfer.\<close>

fun transfers :: "(u8 list \<times> bool) list \<Rightarrow> u8 list \<Rightarrow> history" where
  "transfers [] c = ([], c)"
| "transfers ((d, l) # P) c =
    (if l then let (ts, c') = transfers P [] in ((c @ d) # ts, c') else transfers P (c @ d))"

text \<open>Bytes added to the transfer in progress, and its completion.\<close>

definition add_bytes :: "u8 list \<Rightarrow> history \<Rightarrow> history" where
  "add_bytes d = (\<lambda>(ts, c). (ts, c @ d))"

definition complete :: "history \<Rightarrow> history" where
  "complete = (\<lambda>(ts, c). (ts @ [c], []))"

lemma add_bytes_simps [simp]:
  "add_bytes [] h = h" "add_bytes e (add_bytes d h) = add_bytes (d @ e) h"
  by (simp_all add: add_bytes_def split: prod.splits)

lemma transfers_snoc:
  "transfers (P @ [(d, l)]) c =
    (if l then complete (add_bytes d (transfers P c)) else add_bytes d (transfers P c))"
  by (induction P c rule: transfers.induct)
    (auto simp: add_bytes_def complete_def split: prod.splits)

text \<open>
  \<open>behind h k\<close>: a party with history \<open>h\<close> has received what a party with history \<open>k\<close> sent, as
  far as it got: its complete transfers are the first ones sent, its bytes in progress the start
  of the next.
\<close>

definition behind :: "history \<Rightarrow> history \<Rightarrow> bool" where
  "behind h k \<longleftrightarrow> prefix (fst h) (fst k) \<and>
     prefix (snd h) ((fst k @ [snd k]) ! length (fst h))"

lemma behind_refl [simp]: "behind h h"
  by (simp add: behind_def nth_append)

lemma behind_iff:
  "behind (hs, c) (ts, d) \<longleftrightarrow> prefix hs ts \<and> prefix c (if length hs < length ts then ts ! length hs else d)"
  using prefix_length_le [of hs ts] by (auto simp: behind_def nth_append)

lemma behind_add: "behind h k \<Longrightarrow> behind h (add_bytes d k)"
  by (cases h; cases k) (auto simp: behind_iff add_bytes_def)

lemma behind_complete: "behind h k \<Longrightarrow> behind h (complete k)"
  using prefix_length_le [of "fst h" "fst k"]
  by (cases h; cases k) (auto simp: behind_iff complete_def nth_append split: if_splits)

lemma behind_transfers_append:
  "behind h (transfers P []) \<Longrightarrow> behind h (transfers (P @ Q) [])"
proof (induction Q rule: rev_induct)
  case (snoc x Q)
  then show ?case
    using transfers_snoc [of "P @ Q" "fst x" "snd x" "[]"]
    by (cases x) (auto intro: behind_add behind_complete)
qed simp

text \<open>A reader that has taken \<open>g\<close> blocks and the bytes \<open>d\<close> of the next is behind the log.\<close>

lemma behind_prefix_log:
  assumes "g < length P" and "prefix d (fst (P ! g))"
  shows "behind (add_bytes d (transfers (take g P) [])) (transfers P [])"
proof -
  obtain e l where e: "P ! g = (e, l)" by fastforce
  from assms(2) obtain f where f: "e = d @ f" by (auto simp: e prefix_def)
  have "behind (add_bytes d (transfers (take g P) [])) (transfers (take (Suc g) P) [])"
    using assms(1) transfers_snoc [of "take g P" e l "[]"]
      behind_add [OF behind_refl, of "add_bytes d (transfers (take g P) [])" f]
    by (auto simp: take_Suc_conv_app_nth e f intro: behind_complete)
  then show ?thesis
    using behind_transfers_append [of _ "take (Suc g) P" "drop (Suc g) P"] by simp
qed

lemma behind_log: "behind (transfers (take g P) []) (transfers P [])"
  using behind_transfers_append [OF behind_refl, of "take g P" "drop g P"] by simp

end
