(* ===== verification/Ipcio_System.thy ===== *)
theory Ipcio_System
  imports Ipcio Ipcio_Stream
begin

text \<open>
  The byte-stream interface in use: a writer and readers that call \<open>ipcio_write\<close>, \<open>ipcio_read\<close>
  and the functions that end and acknowledge a transfer, in any interleaving. Each call makes
  the ring steps of Ring_System. The specification is of the bytes each party has written or
  read; \<open>writer_io\<close> and \<open>reader_io\<close> say what a handle holds between two calls.
\<close>

section \<open>The system\<close>

text \<open>
  \<open>Write d\<close> and \<open>Read i n\<close> are the calls of those names. \<open>Finish\<close>: the writer, which has written
  to the block in use, closes the ring and opens it again. \<open>Next i\<close>: reader \<open>i\<close>, told of the end
  of the transfer, resets the ring to wait for the next. The writer writes less than $2^{64}$
  blocks in all.
\<close>

datatype io_call = Write "u8 list" | Finish | Read nat nat | Next nat

datatype io_event = Wrote "u8 list" | Finished | Got nat "u8 list" bool | Waits nat

fun io_exec :: "io_call \<Rightarrow> 'h ipcio_ext sys \<Rightarrow> (io_event \<times> 'h ipcio_ext sys) option" where
  "io_exec (Write d) s =
    (if uint (w_buf_next (rg s)) + int (length d) < 2 ^ 64 - 1 then
       case returned (ipcio_write d (wr s, rg s)) of
         Some (n, h, r) \<Rightarrow> Some (Wrote (take n d), s\<lparr>wr := h, rg := r\<rparr>)
       | None \<Rightarrow> None
     else None)"
| "io_exec Finish s =
    (if bytes (wr s) \<noteq> 0 then
       case returned (andthen (ipcio_close (wr s, rg s)) (\<lambda>_. ipcio_open (CHR ''W''))) of
         Some (u, h, r) \<Rightarrow> Some (Finished, s\<lparr>wr := h, rg := r\<rparr>)
       | None \<Rightarrow> None
     else None)"
| "io_exec (Read i n) s =
    (if i < n_readers (rg s) \<and> \<not> ipcbuf_eod (rd s i, rg s) then
       case returned (ipcio_read True n (rd s i, rg s)) of
         Some ((k, d), h, r) \<Rightarrow>
           Some (Got i d (ipcbuf_eod (h, r)),
                 s\<lparr>rd := (rd s)(i := h), rg := r, holds := (holds s)(i := curbuf h \<noteq> None)\<rparr>)
       | None \<Rightarrow> None
     else None)"
| "io_exec (Next i) s =
    (if i < n_readers (rg s) \<and> ipcbuf_eod (rd s i, rg s) then
       case returned (ipcbuf_reset (rd s i, rg s)) of
         Some (u, h, r) \<Rightarrow> Some (Waits i, s\<lparr>rd := (rd s)(i := h), rg := r\<rparr>)
       | None \<Rightarrow> None
     else None)"

definition io_step :: "'h ipcio_ext sys \<Rightarrow> io_event \<Rightarrow> 'h ipcio_ext sys \<Rightarrow> bool" where
  "io_step s e s' \<longleftrightarrow> (\<exists>c. io_exec c s = Some (e, s'))"

fun run_io :: "io_call list \<Rightarrow> 'h ipcio_ext sys \<Rightarrow> (io_event list \<times> 'h ipcio_ext sys) option" where
  "run_io [] s = Some ([], s)"
| "run_io (c # cs) s =
    (case io_exec c s of
       None \<Rightarrow> None
     | Some (e, s') \<Rightarrow>
        (case run_io cs s' of None \<Rightarrow> None | Some (es, t) \<Rightarrow> Some (e # es, t)))"

lemma run_io_run: "run_io cs s = Some (es, t) \<Longrightarrow> run io_step s es t"
proof (induction cs arbitrary: s es)
  case (Cons c cs)
  then obtain e s' es' where "io_exec c s = Some (e, s')" "run_io cs s' = Some (es', t)" "es = e # es'"
    by (auto split: option.splits)
  then show ?case using Cons.IH by (metis run_Cons io_step_def)
qed (auto intro: run.run_Nil)

section \<open>Its specification\<close>

text \<open>The state of the specification: the history of the writer, and of each reader.\<close>

inductive io_spec_step ::
  "history \<times> (nat \<Rightarrow> history) \<Rightarrow> io_event \<Rightarrow> history \<times> (nat \<Rightarrow> history) \<Rightarrow> bool" where
  wrote: "io_spec_step (W, R) (Wrote d) (add_bytes d W, R)"
| finished: "io_spec_step (W, R) Finished (complete W, R)"
| got: "h = (if l then complete (add_bytes d (R i)) else add_bytes d (R i)) \<Longrightarrow> behind h W \<Longrightarrow>
    io_spec_step (W, R) (Got i d l) (W, R(i := h))"
| waits: "io_spec_step (W, R) (Waits i) (W, R)"

text \<open>What a list of events says the writer wrote, and reader \<open>i\<close> read.\<close>

definition written :: "io_event list \<Rightarrow> history" where
  "written es = foldl (\<lambda>h e. case e of Wrote d \<Rightarrow> add_bytes d h | Finished \<Rightarrow> complete h | _ \<Rightarrow> h) ([], []) es"

definition read_by :: "nat \<Rightarrow> io_event list \<Rightarrow> history" where
  "read_by i es = foldl (\<lambda>h e. case e of
     Got j d l \<Rightarrow>
       (if j = i then if l then complete (add_bytes d h) else add_bytes d h else h)
   | _ \<Rightarrow> h) ([], []) es"

lemma io_spec_run:
  "run io_spec_step (([], []), \<lambda>_. ([], [])) es (W, R) \<Longrightarrow>
    W = written es \<and> R = (\<lambda>i. read_by i es) \<and> (\<forall>i. behind (R i) W)"
proof (induction es "(W, R)" arbitrary: W R rule: run.induct)
  case run_Nil
  then show ?case by (simp add: written_def read_by_def)
next
  case (run_snoc es t e)
  obtain W' R' where t: "t = (W', R')" by fastforce
  with run_snoc have IH: "W' = written es" "R' = (\<lambda>i. read_by i es)" "\<And>i. behind (R' i) W'" by auto
  from run_snoc.hyps(3) [unfolded t] show ?case
    by cases (use IH in \<open>auto simp: written_def read_by_def fun_eq_iff intro: behind_add behind_complete\<close>)
qed

section \<open>The relation\<close>

text \<open>
  The writer has no block in use, and then no block is open; or the block in use is the
  only open one.
\<close>

definition writer_io :: "('h, 'r) io_st \<Rightarrow> bool" where
  "writer_io = (\<lambda>(h, r).
     rdwrt h = CHR ''W'' \<and> \<not> sod_pending h \<and> bufs_opened h = 0 \<and> bufsz r \<noteq> 0 \<and>
     (curbuf h = None \<and> bytes h = 0 \<and> w_buf_next r = w_buf_curr r \<and>
        (state h = IPCBUF_WCHANGE \<or> state h = IPCBUF_WRITING) \<or>
      curbuf h = Some (block r (w_buf_curr r), 0) \<and> bytes h \<le> bufsz r \<and>
        \<not> marked_filled h \<and> w_buf_next r = w_buf_curr r + 1 \<and> state h = IPCBUF_WRITING))"

definition pending :: "('h, 'r) io_st \<Rightarrow> u8 list" where
  "pending = (\<lambda>(h, r). case curbuf h of
     None \<Rightarrow> []
   | Some (b, off) \<Rightarrow> take (unat (bytes h)) (mem r b))"

text \<open>A reader has in use the block it holds, and has copied the first \<open>bytes\<close> of it.\<close>

definition reader_io :: "'h ipcio_scheme \<Rightarrow> u64 \<Rightarrow> bool \<Rightarrow> log \<Rightarrow> nat \<Rightarrow> bool" where
  "reader_io h nb hold P g \<longleftrightarrow>
     rdwrt h = CHR ''R'' \<and> hold = (curbuf h \<noteq> None) \<and>
     (hold \<longrightarrow> curbuf h = Some (g mod unat nb, 0) \<and> unat (curbufsz h) = length (fst (P ! g)) \<and>
       bytes h \<le> curbufsz h) \<and>
     (\<not> hold \<longrightarrow> bytes h = 0)"

definition part_read :: "'h ipcio_scheme \<Rightarrow> log \<Rightarrow> nat \<Rightarrow> u8 list" where
  "part_read h P g = (case curbuf h of None \<Rightarrow> [] | Some p \<Rightarrow> take (unat (bytes h)) (fst (P ! g)))"

text \<open>The ring's relation does not look at the fields \<open>ipcio_t\<close> adds.\<close>

lemma ring_rel_wr:
  assumes "state h' = state h" "xfer h' = xfer h"
  shows "ring_rel (s\<lparr>wr := h', rg := r\<rparr>) a = ring_rel (s\<lparr>wr := h, rg := r\<rparr>) a"
  using assms by (simp add: ring_rel_def writer_rel_def transfer_open_def)

lemma ring_rel_rd:
  assumes "state h' = state h" "xfer h' = xfer h" "iread h' = iread h"
  shows "ring_rel (s\<lparr>rd := f(i := h'), rg := r, holds := H\<rparr>) a =
    ring_rel (s\<lparr>rd := f(i := h), rg := r, holds := H\<rparr>) a"
proof -
  have "reader_rel j ((f(i := h')) j, r) = reader_rel j ((f(i := h)) j, r)" for j
    using assms by (auto simp: reader_rel_def fun_eq_iff)
  then show ?thesis by (simp add: ring_rel_def)
qed


end
