(* ===== verification/Ipcio_Writing.thy ===== *)
theory Ipcio_Writing
  imports Ipcio_System
begin

text \<open>
  The writer's side of the byte-stream interface: a turn of the loop of \<open>ipcio_write\<close> makes the
  ring steps \<open>Fill\<close>, \<open>Open\<close> and \<open>Store\<close>, closing the ring and opening it again \<open>End_of_data\<close>,
  \<open>Fill\<close> and \<open>Relock\<close>. The lemmas give the bytes each adds to the writer's history.
\<close>

section \<open>Steps of the writer\<close>

text \<open>What the writer has written, as the ring and its handle hold it.\<close>

definition held :: "'h ipcio_ext sys \<Rightarrow> stream \<Rightarrow> history" where
  "held s a = add_bytes (pending (wr s, rg s)) (transfers (posted a) [])"

text \<open>A step of the writer: what it keeps, and one that adds the bytes \<open>d\<close>.\<close>

definition advances :: "'h ipcio_ext sys \<Rightarrow> stream \<Rightarrow> 'h ipcio_ext sys \<Rightarrow> stream \<Rightarrow> bool" where
  "advances s a s' a' \<longleftrightarrow>
     ring_rel s' a' \<and> writer_io (wr s', rg s') \<and>
     got a' = got a \<and> prefix (posted a) (posted a') \<and> rd s' = rd s \<and> holds s' = holds s \<and>
     nbufs (rg s') = nbufs (rg s) \<and> bufsz (rg s') = bufsz (rg s) \<and> n_readers (rg s') = n_readers (rg s)"

definition writes :: "'h ipcio_ext sys \<Rightarrow> stream \<Rightarrow> u8 list \<Rightarrow> 'h ipcio_ext sys \<Rightarrow> stream \<Rightarrow> bool" where
  "writes s a d s' a' \<longleftrightarrow> advances s a s' a' \<and> held s' a' = add_bytes d (held s a)"

lemmas writes_defs = writes_def advances_def

lemma writes_refl: "ring_rel s a \<Longrightarrow> writer_io (wr s, rg s) \<Longrightarrow> writes s a [] s a"
  by (simp add: writes_defs)

lemma writes_trans: "writes s a d s' a' \<Longrightarrow> writes s' a' e s'' a'' \<Longrightarrow> writes s a (d @ e) s'' a''"
  by (auto simp: writes_defs intro: prefix_order.trans)

lemma writer_ioD:
  assumes "writer_io (h, r)"
  shows "rdwrt h = CHR ''W''" "\<not> sod_pending h" "bufs_opened h = 0" "bufsz r \<noteq> 0"
    "curbuf h = None \<Longrightarrow> bytes h = 0 \<and> w_buf_next r = w_buf_curr r \<and>
       (state h = IPCBUF_WCHANGE \<or> state h = IPCBUF_WRITING)"
    "curbuf h \<noteq> None \<Longrightarrow> curbuf h = Some (block r (w_buf_curr r), 0) \<and> bytes h \<le> bufsz r \<and>
       \<not> marked_filled h \<and> w_buf_next r = w_buf_curr r + 1 \<and> state h = IPCBUF_WRITING"
  using assms by (auto simp: writer_io_def)

lemma writer_io_openI:
  "rdwrt h = CHR ''W'' \<Longrightarrow> \<not> sod_pending h \<Longrightarrow> bufs_opened h = 0 \<Longrightarrow> bufsz r \<noteq> 0 \<Longrightarrow>
    curbuf h = Some (block r (w_buf_curr r), 0) \<Longrightarrow> bytes h \<le> bufsz r \<Longrightarrow> \<not> marked_filled h \<Longrightarrow>
    w_buf_next r = w_buf_curr r + 1 \<Longrightarrow> state h = IPCBUF_WRITING \<Longrightarrow> writer_io (h, r)"
  by (simp add: writer_io_def)

lemma no_pending_sod [simp]: "\<not> sod_pending h \<Longrightarrow> ipcio_check_pending_sod (h, r) = Done () (h, r)"
  by (simp add: ipcio_check_pending_sod_def)

lemma open_block_less:
  "ring_rel s a \<Longrightarrow> w_buf_next (rg s) = w_buf_curr (rg s) + 1 \<Longrightarrow> w_buf_curr (rg s) < w_buf_next (rg s)"
  using writer_relD(2,5) [OF ring_relD(1), of s a] by (simp add: order_less_le word_le_nat_alt)

text \<open>The only open block may be marked filled.\<close>

lemma may_fill_open:
  assumes rel: "ring_rel s a" and w: "writer_io (wr s, rg s)" and b: "bytes (wr s) \<noteq> 0"
  shows "may_fill (bytes (wr s)) (wr s, rg s)"
proof -
  have W: "bytes (wr s) \<le> bufsz (rg s)" "w_buf_next (rg s) = w_buf_curr (rg s) + 1"
    "state (wr s) = IPCBUF_WRITING"
    using writer_ioD(5,6) [OF w] b by blast+
  moreover have "w_buf_curr (rg s) < w_buf_next (rg s)" by (rule open_block_less [OF rel W(2)])
  ultimately show ?thesis using b by (simp add: may_fill_def word_gt_0)
qed

lemma flush_writes:
  assumes rel: "ring_rel s a" and w: "writer_io (wr s, rg s)"
    and f: "flush_full (wr s, rg s) = Done u (h, r)"
  obtains a' where "writes s a [] (s\<lparr>wr := h, rg := r\<rparr>) a'" "curbuf h = None \<or> bytes h < bufsz r"
    "w_buf_next r = w_buf_next (rg s)"
proof (cases "bytes (wr s) = bufsz (rg s)")
  case False
  then have "h = wr s" "r = rg s" using f by (simp_all add: flush_full_def)
  moreover have "curbuf h = None \<or> bytes h < bufsz r"
    using writer_ioD(6) [OF w] False calculation by (cases "curbuf (wr s)") auto
  ultimately show thesis using that [of a] writes_refl [OF rel w] by simp
next
  case True
  note W = writer_ioD [OF w]
  have b: "bytes (wr s) \<noteq> 0" using True W(4) by simp
  then have c: "curbuf (wr s) \<noteq> None" using W(5) by blast
  note W6 = W(6) [OF c]
  let ?r1 = "add_sem 0 (n_readers (rg s)) IPCBUF_FULL 1
    ((rg s)\<lparr>count := (count (rg s))(block (rg s) (w_buf_curr (rg s)) :=
         count (rg s) (block (rg s) (w_buf_curr (rg s))) + 1),
       w_buf_curr := w_buf_curr (rg s) + 1\<rparr>)"
  let ?h1 = "(wr s)\<lparr>curbuf := None, bytes := 0, marked_filled := True\<rparr>"
  obtain h1 r1 where mf: "ipcbuf_mark_filled (bufsz (rg s)) (wr s, rg s) = Done () (h1, r1)"
      and hr: "andthen (ipcio_check_pending_sod (h1, r1)) (\<lambda>_ (ipc, r).
        Done () (ipc\<lparr>curbuf := None, bytes := 0, marked_filled := True\<rparr>, r)) = Done () (h, r)"
    using f W6 by (auto simp: flush_full_def True outcome_simps)
  have r1: "h1 = wr s" "r1 = ?r1"
    using mark_filled_Done(4) [OF mf] W6 W(4) by simp_all
  then have hr: "h = ?h1" "r = ?r1" using hr W(2) by simp_all
  define d where "d = take (unat (bufsz (rg s))) (mem (rg s) (block (rg s) (w_buf_curr (rg s))))"
  have "ring_exec (Fill (bufsz (rg s))) s = Some (Posted d False, s\<lparr>wr := h1, rg := r1\<rparr>)"
    using may_fill_open [OF rel w b] mf W6 by (simp add: True d_def)
  from Fill_step [OF rel this] obtain a' where a': "stream_step a (Posted d False) a'"
      "ring_rel (s\<lparr>wr := h1, rg := r1\<rparr>) a'" by blast
  then have p: "a' = a\<lparr>posted := posted a @ [(d, False)]\<rparr>" by (auto elim: stream_PostedE)
  have "ring_rel (s\<lparr>wr := h, rg := r\<rparr>) a'"
    using a'(2) ring_rel_wr [where h' = h and h = h1] by (simp add: r1 hr)
  moreover have "writer_io (h, r)"
    using W(1-4) W6 by (auto simp only: hr writer_io_def prod.case) simp_all
  moreover have "held (s\<lparr>wr := h, rg := r\<rparr>) a' = held s a"
    using W6 by (simp add: held_def pending_def hr p d_def True transfers_snoc)
  ultimately have "writes s a [] (s\<lparr>wr := h, rg := r\<rparr>) a'"
    by (simp add: writes_defs p hr)
  then show thesis by (rule that) (simp_all add: hr)
qed

lemma opened_same: "stream_step a (Opened b) a' \<Longrightarrow> a' = a"
  and internal_same: "stream_step a Internal a' \<Longrightarrow> a' = a"
  by (auto elim: stream_step.cases)

lemma open_next_writes:
  assumes rel: "ring_rel s a" and w: "writer_io (wr s, rg s)" and c: "curbuf (wr s) = None"
    and N: "w_buf_next (rg s) < - 1"
    and f: "open_next (wr s, rg s) = Done u (h, r)"
  shows "writes s a [] (s\<lparr>wr := h, rg := r\<rparr>) a" "curbuf h \<noteq> None" "bytes h < bufsz r"
    "w_buf_next r = w_buf_next (rg s) + 1"
proof -
  note W = writer_ioD [OF w] and W5 = writer_ioD(5) [OF w c]
  from f obtain b h1 r1 where g: "ipcbuf_get_next_write (wr s, rg s) = Done b (h1, r1)"
    and hr: "h = h1\<lparr>curbuf := Some (b, 0), marked_filled := False, bytes := 0\<rparr>" "r = r1"
    by (auto simp: open_next_def outcome_simps)
  have "ring_exec Open s = Some (Opened b, s\<lparr>wr := h1, rg := r1\<rparr>)"
    using W5 N g writer_relD(3) [OF ring_relD(1) [OF rel]] by (auto simp: may_open_def)
  then have r1: "ring_rel (s\<lparr>wr := h1, rg := r1\<rparr>) a"
    using Open_step [OF rel] opened_same by blast
  have e: "rdwrt h1 = rdwrt (wr s) \<and> sod_pending h1 = sod_pending (wr s) \<and>
      bufs_opened h1 = bufs_opened (wr s) \<and> state h1 = IPCBUF_WRITING \<and> bufsz r1 = bufsz (rg s) \<and>
      nbufs r1 = nbufs (rg s) \<and> n_readers r1 = n_readers (rg s) \<and>
      w_buf_curr r1 = w_buf_curr (rg s) \<and> w_buf_next r1 = w_buf_next (rg s) + 1 \<and>
      b = block (rg s) (w_buf_next (rg s))"
    using g
  proof (rule get_next_write_Done)
    fix h' r'
    assume d: "(h', r') = (wr s, rg s) \<and> state (wr s) \<noteq> IPCBUF_WCHANGE \<or> state (wr s) = IPCBUF_WCHANGE \<and>
        ipcbuf_enable_sod (w_buf_curr (rg s)) 0 (wr s, rg s) = Done () (h', r')"
      and b: "b = block r' (w_buf_next r')"
      and e: "(h1, r1) = (h', add_sem 0 (n_readers r') IPCBUF_CLEAR (- int (unat (count r' b))) r'
           \<lparr>count := (count r')(b := 0), w_buf_next := w_buf_next r' + 1\<rparr>)"
    from d have "rdwrt h' = rdwrt (wr s) \<and> sod_pending h' = sod_pending (wr s) \<and>
      bufs_opened h' = bufs_opened (wr s) \<and> state h' = IPCBUF_WRITING \<and> bufsz r' = bufsz (rg s) \<and>
      nbufs r' = nbufs (rg s) \<and> n_readers r' = n_readers (rg s) \<and>
      w_buf_curr r' = w_buf_curr (rg s) \<and> w_buf_next r' = w_buf_next (rg s)"
      using W5 by (auto dest!: enable_sod_at_curr(2))
    then show ?thesis using e b by (simp add: block_def)
  qed
  have "ring_rel (s\<lparr>wr := h, rg := r\<rparr>) a"
    using r1 ring_rel_wr [where h' = h and h = h1] by (simp add: hr)
  moreover have "writer_io (h, r)"
    using W(1-4) W5 e by (simp add: writer_io_def hr block_def)
  moreover have "held (s\<lparr>wr := h, rg := r\<rparr>) a = held s a"
    using c by (simp add: held_def pending_def hr)
  ultimately show "writes s a [] (s\<lparr>wr := h, rg := r\<rparr>) a"
    using e by (simp add: writes_defs hr)
  show "curbuf h \<noteq> None" "bytes h < bufsz r" "w_buf_next r = w_buf_next (rg s) + 1"
    using e W(4) by (simp_all add: hr word_gt_0)
qed

lemma unat_add_of_nat: "unat w + k < 2 ^ 64 \<Longrightarrow> unat (w + of_nat k) = unat w + k"
  for w :: u64
  by (simp add: unat_word_ariths)

lemma put_bytes_writes:
  assumes rel: "ring_rel s a" and w: "writer_io (wr s, rg s)" and c: "curbuf (wr s) \<noteq> None"
    and sp: "bytes (wr s) < bufsz (rg s)" and d: "d \<noteq> []"
    and f: "put_bytes d (wr s, rg s) = Done k (h, r)"
  shows "writes s a (take k d) (s\<lparr>wr := h, rg := r\<rparr>) a" "0 < k" "k \<le> length d"
    "curbuf h \<noteq> None" "bytes h \<noteq> 0" "w_buf_next r = w_buf_next (rg s)"
proof -
  let ?r = "rg s" and ?h = "wr s"
  note W = writer_ioD [OF w] and W6 = writer_ioD(6) [OF w c]
  define b j where "b = block ?r (w_buf_curr ?r)" and "j = unat (bytes ?h)"
  have le: "bytes ?h \<le> bufsz ?r" using W6 by blast
  then have room: "unat (bufsz ?r - bytes ?h) = unat (bufsz ?r) - j" by (simp add: unat_sub j_def)
  have jlt: "j < unat (bufsz ?r)" using sp by (simp add: word_less_nat_alt j_def)
  define m where "m = take j (mem ?r b) @ take k d @ drop (j + k) (mem ?r b)"
  have nz: "min (unat (bufsz ?r - bytes ?h)) (length d) \<noteq> 0" using room jlt d by simp
  from f W6 nz have kk: "k = min (unat (bufsz ?r - bytes ?h)) (length d)"
    and h: "h = ?h\<lparr>bytes := bytes ?h + of_nat k\<rparr>" and r: "r = ?r\<lparr>mem := (mem ?r)(b := m)\<rparr>"
    by (auto simp: put_bytes_def copy_in_def Let_def m_def b_def j_def split: if_splits)
  have k0: "0 < k" and kd: "k \<le> length d" and jk: "j + k \<le> unat (bufsz ?r)"
    using nz room jlt by (auto simp: kk)
  have nb: "0 < unat (nbufs ?r)" using writer_relD(3) [OF ring_relD(1) [OF rel]] .
  then have "b < unat (nbufs ?r)" by (simp add: block_unat b_def)
  then have m: "length (mem ?r b) = unat (bufsz ?r)"
    using ring_relD(6) [OF rel] by (simp add: data_rel_def)
  have lt: "unat (w_buf_curr ?r) < unat (w_buf_next ?r)"
    using W6 open_block_less [OF rel] by (simp add: word_less_nat_alt)
  then have "b \<in> set (map (\<lambda>p. p mod unat (nbufs ?r)) [unat (w_buf_curr ?r)..<unat (w_buf_next ?r)])"
    by (auto simp: block_unat b_def intro!: image_eqI [of _ _ "unat (w_buf_curr ?r)"])
  moreover have "length m = unat (bufsz ?r)" using m jk kd by (simp add: m_def)
  ultimately have "ring_exec (Store b m) s = Some (Internal, s\<lparr>rg := r\<rparr>)"
    by (simp add: may_store_def r)
  then have "ring_rel (s\<lparr>rg := r\<rparr>) a" using Store_step [OF rel] internal_same by blast
  moreover have "ring_rel (s\<lparr>wr := h, rg := r\<rparr>) a = ring_rel (s\<lparr>wr := ?h, rg := r\<rparr>) a"
    by (rule ring_rel_wr) (simp_all add: h)
  ultimately have rel': "ring_rel (s\<lparr>wr := h, rg := r\<rparr>) a" by simp
  have b': "unat (bytes ?h + of_nat k) = j + k"
    unfolding j_def using jk unat_u64_bound [of "bufsz ?r"] by (intro unat_add_of_nat) (simp add: j_def)
  then have bs: "bytes h \<le> bufsz r" and b0: "bytes h \<noteq> 0"
    using jk k0 by (auto simp: word_le_nat_alt h r)
  have "rdwrt h = rdwrt ?h" "sod_pending h = sod_pending ?h" "bufs_opened h = bufs_opened ?h"
    "curbuf h = curbuf ?h" "marked_filled h = marked_filled ?h" "state h = state ?h"
    "w_buf_curr r = w_buf_curr ?r" "w_buf_next r = w_buf_next ?r" "bufsz r = bufsz ?r" "nbufs r = nbufs ?r"
    by (simp_all add: h r)
  then have "writer_io (h, r)"
    using W(1-4) W6 bs by (intro writer_io_openI) (simp_all add: block_def)
  moreover have "pending (h, r) = pending (?h, ?r) @ take k d"
    using W6 b' jk m kd by (simp add: pending_def h r b_def [symmetric] m_def j_def)
  then have "held (s\<lparr>wr := h, rg := r\<rparr>) a = add_bytes (take k d) (held s a)"
    by (simp add: held_def)
  ultimately show "writes s a (take k d) (s\<lparr>wr := h, rg := r\<rparr>) a"
    using rel' by (simp add: writes_defs r)
  show "0 < k" "k \<le> length d" "curbuf h \<noteq> None" "bytes h \<noteq> 0" "w_buf_next r = w_buf_next (rg s)"
    using k0 kd c b0 by (simp_all add: h r)
qed

lemma writes_sys [simp]:
  "wr (s\<lparr>wr := h, rg := r\<rparr>) = h" "rg (s\<lparr>wr := h, rg := r\<rparr>) = r"
  by simp_all

text \<open>A turn of the loop copies at least one byte and opens at most one block.\<close>

lemma write_turn_writes:
  assumes rel: "ring_rel s a" and w: "writer_io (wr s, rg s)" and N: "w_buf_next (rg s) < - 1"
    and d: "d \<noteq> []" and f: "write_turn d (wr s, rg s) = Done k (h, r)"
  obtains a' where "writes s a (take k d) (s\<lparr>wr := h, rg := r\<rparr>) a'" "0 < k" "k \<le> length d"
    "bytes h \<noteq> 0" "unat (w_buf_next r) \<le> Suc (unat (w_buf_next (rg s)))"
proof -
  from f obtain h1 r1 h2 r2 where 1: "flush_full (wr s, rg s) = Done () (h1, r1)"
    and 2: "(if curbuf h1 = None then open_next (h1, r1) else Done () (h1, r1)) = Done () (h2, r2)"
    and 3: "put_bytes d (h2, r2) = Done k (h, r)"
    by (auto simp: write_turn_def outcome_simps)
  let ?s1 = "s\<lparr>wr := h1, rg := r1\<rparr>" and ?s2 = "s\<lparr>wr := h2, rg := r2\<rparr>"
  from 1 obtain a' where w1: "writes s a [] ?s1 a'" and b1: "curbuf h1 = None \<or> bytes h1 < bufsz r1"
    and n1: "w_buf_next r1 = w_buf_next (rg s)"
    by (rule flush_writes [OF rel w])
  then have i1: "ring_rel ?s1 a'" "writer_io (wr ?s1, rg ?s1)" by (simp_all add: writes_defs)
  have w2: "writes ?s1 a' [] ?s2 a' \<and> curbuf h2 \<noteq> None \<and> bytes h2 < bufsz r2 \<and>
    unat (w_buf_next r2) \<le> Suc (unat (w_buf_next (rg s)))"
  proof (cases "curbuf h1 = None")
    case True
    with 2 have o: "open_next (wr ?s1, rg ?s1) = Done () (h2, r2)" by simp
    have N1: "w_buf_next (rg ?s1) < - 1" using N n1 by simp
    have "unat (w_buf_next r2) \<le> Suc (unat (w_buf_next (rg s)))"
      using open_next_writes(4) [OF i1 _ N1 o] True n1 by (simp add: unat_word_ariths)
    then show ?thesis using open_next_writes(1-3) [OF i1 _ N1 o] True by simp
  next
    case False
    with 2 b1 n1 writes_refl [OF i1] show ?thesis by auto
  qed
  then have i2: "ring_rel ?s2 a'" "writer_io (wr ?s2, rg ?s2)" by (simp_all add: writes_defs)
  have w3: "writes ?s2 a' (take k d) (s\<lparr>wr := h, rg := r\<rparr>) a'" "0 < k" "k \<le> length d" "bytes h \<noteq> 0"
    "w_buf_next r = w_buf_next r2"
    using put_bytes_writes [OF i2 _ _ d, of k h r] w2 3 by simp_all
  show thesis
  proof (rule that)
    have "writes ?s1 a' [] ?s2 a'" using w2 by blast
    from writes_trans [OF writes_trans [OF w1 this] w3(1)]
    show "writes s a (take k d) (s\<lparr>wr := h, rg := r\<rparr>) a'" by simp
    show "0 < k" "k \<le> length d" "bytes h \<noteq> 0" by fact+
    show "unat (w_buf_next r) \<le> Suc (unat (w_buf_next (rg s)))" using w2 w3(5) by simp
  qed
qed

lemma write_loop_writes:
  assumes "ring_rel s a" "writer_io (wr s, rg s)" "unat (w_buf_next (rg s)) + length d < 2 ^ 64 - 1"
    "write_loop n d (wr s, rg s) = Done u (h, r)"
  shows "\<exists>a'. writes s a d (s\<lparr>wr := h, rg := r\<rparr>) a' \<and> (d \<noteq> [] \<longrightarrow> bytes h \<noteq> 0) \<and>
    unat (w_buf_next r) \<le> unat (w_buf_next (rg s)) + length d"
  using assms
proof (induction n arbitrary: d s a)
  case 0
  then have "d = []" "h = wr s" "r = rg s" by (auto simp: write_loop.simps split: if_splits)
  then show ?case using writes_refl [OF 0(1,2)] by auto
next
  case (Suc n)
  show ?case
  proof (cases "d = []")
    case True
    then have "h = wr s" "r = rg s" using Suc.prems(4) by (simp_all add: write_loop.simps)
    then show ?thesis using True writes_refl [OF Suc.prems(1,2)] by auto
  next
    case False
    with Suc.prems(4) obtain k h1 r1 where t: "write_turn d (wr s, rg s) = Done k (h1, r1)"
      and l: "write_loop n (drop k d) (h1, r1) = Done () (h, r)"
      by (auto simp: write_loop.simps [of "Suc n"] outcome_simps)
    let ?s1 = "s\<lparr>wr := h1, rg := r1\<rparr>"
    have "w_buf_next (rg s) < - 1"
      using Suc.prems(3) by (simp add: word_less_nat_alt unsigned_minus_1_eq_mask mask_eq_exp_minus_1)
    from write_turn_writes [OF Suc.prems(1,2) this False t]
    obtain a1 where w1: "writes s a (take k d) ?s1 a1" and k: "0 < k" "k \<le> length d" and b1: "bytes h1 \<noteq> 0"
      and n1: "unat (w_buf_next r1) \<le> Suc (unat (w_buf_next (rg s)))" .
    have "\<exists>a'. writes ?s1 a1 (drop k d) (?s1\<lparr>wr := h, rg := r\<rparr>) a' \<and> (drop k d \<noteq> [] \<longrightarrow> bytes h \<noteq> 0) \<and>
        unat (w_buf_next r) \<le> unat (w_buf_next (rg ?s1)) + length (drop k d)"
      using w1 l n1 k Suc.prems(3) by (intro Suc.IH) (auto simp: writes_defs)
    then obtain a' where w2: "writes ?s1 a1 (drop k d) (s\<lparr>wr := h, rg := r\<rparr>) a'"
      and b2: "drop k d \<noteq> [] \<longrightarrow> bytes h \<noteq> 0"
      and n2: "unat (w_buf_next r) \<le> unat (w_buf_next r1) + (length d - k)" by auto
    have "bytes h \<noteq> 0"
      using b1 b2 l by (cases "drop k d = []") (auto simp: write_loop.simps)
    moreover have "unat (w_buf_next r) \<le> unat (w_buf_next (rg s)) + length d" using n1 n2 k by linarith
    ultimately show ?thesis using writes_trans [OF w1 w2] by auto
  qed
qed

text \<open>Closing after the last byte and opening again: end of data, the last block, a new transfer.\<close>

lemma reopen_write:
  assumes "ipcbuf_is_writer (h, r)" "rdwrt h = CHR ''w''"
    and b: "w_xfer r > 0 \<Longrightarrow> e_buf r (slot (w_xfer r - 1)) + 1 = w_buf_curr r \<and> w_buf_next r = w_buf_curr r"
    and f: "andthen (ipcio_stop_close True (h, r)) (\<lambda>_. ipcio_open (CHR ''W'')) = Done u (h', r')"
  shows "r' = r\<lparr>w_state := IPCBUF_WCHANGE\<rparr>" "state h' = IPCBUF_WCHANGE"
    "xfer h' = w_xfer r mod IPCBUF_XFERS" "rdwrt h' = CHR ''W''" "bytes h' = 0" "curbuf h' = None"
    "sod_pending h' = sod_pending h" "bufs_opened h' = bufs_opened h"
proof -
  have "(if w_xfer r > 0 then r\<lparr>w_buf_curr := e_buf r (slot (w_xfer r - 1)) + 1,
      w_buf_next := e_buf r (slot (w_xfer r - 1)) + 1\<rparr> else r) = r"
    using b by (cases r) auto
  then have "r' = r\<lparr>w_state := IPCBUF_WCHANGE\<rparr> \<and> state h' = IPCBUF_WCHANGE \<and>
    xfer h' = w_xfer r mod IPCBUF_XFERS \<and> rdwrt h' = CHR ''W'' \<and> bytes h' = 0 \<and> curbuf h' = None \<and>
    sod_pending h' = sod_pending h \<and> bufs_opened h' = bufs_opened h"
    using assms(1,2) f
    by (auto simp: ipcio_stop_close_def close_writer_def ipcio_open_def ipcbuf_unlock_write_def
        ipcbuf_lock_write_def ipc_semop_Conn outcome_simps ipcio_alloc_def Let_def)
  then show "r' = r\<lparr>w_state := IPCBUF_WCHANGE\<rparr>" "state h' = IPCBUF_WCHANGE"
    "xfer h' = w_xfer r mod IPCBUF_XFERS" "rdwrt h' = CHR ''W''" "bytes h' = 0" "curbuf h' = None"
    "sod_pending h' = sod_pending h" "bufs_opened h' = bufs_opened h"
    by simp_all
qed

text \<open>The close of a writer with one block open, up to the end of the transfer.\<close>

lemma close_open_block:
  assumes "rdwrt h = CHR ''W''" "bufs_opened h = 0" "state h = IPCBUF_WRITING"
    and f: "andthen (ipcio_close (h, r)) k = Done u s'"
  obtains h2 r2 h3 where
    "ipcbuf_mark_filled (bytes h) (h\<lparr>state := IPCBUF_WCHANGE\<rparr>, r\<lparr>w_state := IPCBUF_WCHANGE\<rparr>) =
       Done () (h2, r2)"
    "sod_pending h2 = sod_pending h \<Longrightarrow> bufs_opened h2 = bufs_opened h \<Longrightarrow> \<not> sod_pending h \<Longrightarrow>
       andthen (ipcio_stop_close True (h3, r2)) k = Done u s' \<and> rdwrt h3 = CHR ''w'' \<and>
       state h3 = state h2 \<and> xfer h3 = xfer h2 \<and> \<not> sod_pending h3 \<and> bufs_opened h3 = bufs_opened h"
proof -
  let ?h1 = "h\<lparr>state := IPCBUF_WCHANGE\<rparr>" and ?r1 = "r\<lparr>w_state := IPCBUF_WCHANGE\<rparr>"
  have close: "ipcio_close (h, r) =
    andthen (andthen (fail_as (-1) (ipcbuf_mark_filled (bytes h) (?h1, ?r1))) (\<lambda>_ s.
      andthen (fail_as (-1) (ipcio_check_pending_sod s)) (\<lambda>_ (ipc, r).
        let ipc = ipc\<lparr>marked_filled := True\<rparr>
        in Done () (if bytes ipc = bufsz r then ipc\<lparr>curbuf := None\<rparr> else ipc, r))))
      (\<lambda>_ (ipc, r). close_writer (ipc\<lparr>rdwrt := CHR ''w''\<rparr>, r))"
    using assms(1-3)
    by (simp add: ipcio_close_def ipcio_stop_close_def stop_writing_def ipcbuf_is_wchange_def
        ipcbuf_is_writing_def close_all.simps ipcbuf_enable_eod_def andthen_assoc Let_def split_def)
  from f close obtain h2 r2 where
    mf: "ipcbuf_mark_filled (bytes h) (?h1, ?r1) = Done () (h2, r2)"
    by (auto simp: outcome_simps)
  let ?h3 = "(if bytes h2 = bufsz r2 then h2\<lparr>marked_filled := True, curbuf := None\<rparr>
      else h2\<lparr>marked_filled := True\<rparr>)\<lparr>rdwrt := CHR ''w''\<rparr>"
  show thesis
  proof (rule that)
    show "ipcbuf_mark_filled (bytes h) (?h1, ?r1) = Done () (h2, r2)" by (rule mf)
    assume "sod_pending h2 = sod_pending h" "bufs_opened h2 = bufs_opened h" "\<not> sod_pending h"
    then show "andthen (ipcio_stop_close True (?h3, r2)) k = Done u s' \<and> rdwrt ?h3 = CHR ''w'' \<and>
       state ?h3 = state h2 \<and> xfer ?h3 = xfer h2 \<and> \<not> sod_pending ?h3 \<and> bufs_opened ?h3 = bufs_opened h"
      using f mf by (simp add: close ipcio_stop_close_def Let_def)
  qed
qed

lemma finish_advances:
  assumes rel: "ring_rel s a" and w: "writer_io (wr s, rg s)" and b: "bytes (wr s) \<noteq> 0"
    and f: "andthen (ipcio_close (wr s, rg s)) (\<lambda>_. ipcio_open (CHR ''W'')) = Done u (h, r)"
  obtains a' where "advances s a (s\<lparr>wr := h, rg := r\<rparr>) a'"
    "held (s\<lparr>wr := h, rg := r\<rparr>) a' = complete (held s a)"
proof -
  let ?h = "wr s" and ?r = "rg s" and ?n = "bytes (wr s)"
  note W = writer_ioD [OF w]
  have c: "curbuf ?h \<noteq> None" using W(5) b by blast
  note W6 = W(6) [OF c]
  let ?h1 = "?h\<lparr>state := IPCBUF_WCHANGE\<rparr>" and ?r1 = "?r\<lparr>w_state := IPCBUF_WCHANGE\<rparr>"
  let ?s1 = "s\<lparr>wr := ?h1, rg := ?r1\<rparr>"
  have lt: "w_buf_curr ?r < w_buf_next ?r" using W6 open_block_less [OF rel] by simp
  have "ring_exec End_of_data s = Some (Internal, ?s1)"
    using W6 lt by (simp add: may_end_def ipcbuf_enable_eod_def)
  then have rel1: "ring_rel ?s1 a" using End_of_data_step [OF rel] internal_same by blast
  obtain h2 r2 h3 where mf: "ipcbuf_mark_filled ?n (?h1, ?r1) = Done () (h2, r2)"
    and h3: "sod_pending h2 = sod_pending ?h \<Longrightarrow> bufs_opened h2 = bufs_opened ?h \<Longrightarrow> \<not> sod_pending ?h \<Longrightarrow>
       andthen (ipcio_stop_close True (h3, r2)) (\<lambda>_. ipcio_open (CHR ''W'')) = Done u (h, r) \<and>
       rdwrt h3 = CHR ''w'' \<and> state h3 = state h2 \<and> xfer h3 = xfer h2 \<and> \<not> sod_pending h3 \<and>
       bufs_opened h3 = bufs_opened ?h"
    using close_open_block [OF W(1,3) conjunct2 [OF conjunct2 [OF conjunct2 [OF conjunct2 [OF W6]]]] f]
    by blast
  let ?d = "take (unat ?n) (mem ?r (block ?r (w_buf_curr ?r)))"
  have fill: "ring_exec (Fill ?n) ?s1 = Some (Posted ?d True, s\<lparr>wr := h2, rg := r2\<rparr>)"
    using W6 lt b mf by (simp add: may_fill_def word_gt_0 block_def)
  from Fill_step [OF rel1 this] obtain a' where a': "stream_step a (Posted ?d True) a'"
    and rel2: "ring_rel (s\<lparr>wr := h2, rg := r2\<rparr>) a'" by blast
  then have p: "a' = a\<lparr>posted := posted a @ [(?d, True)]\<rparr>" by (auto elim: stream_PostedE)
  have eff: "h2 = ?h1\<lparr>xfer := (w_xfer ?r + 1) mod IPCBUF_XFERS, state := IPCBUF_WRITER\<rparr>"
    "w_buf_curr r2 = w_buf_curr ?r + 1" "w_buf_next r2 = w_buf_curr ?r + 1" "w_xfer r2 = w_xfer ?r + 1"
    "e_buf r2 (slot (xfer ?h)) = w_buf_curr ?r" "nbufs r2 = nbufs ?r" "bufsz r2 = bufsz ?r"
    "n_readers r2 = n_readers ?r" "mem r2 = mem ?r"
    using mark_filled_Done(3) [OF mf _ b] W6 by simp_all
  have P: "state h3 = IPCBUF_WRITER" "rdwrt h3 = CHR ''w''" "\<not> sod_pending h3" "bufs_opened h3 = 0"
    and fin: "andthen (ipcio_stop_close True (h3, r2)) (\<lambda>_. ipcio_open (CHR ''W'')) = Done u (h, r)"
    using h3 W(2,3) by (simp_all add: eff(1))
  have "slot (w_xfer ?r) = slot (xfer ?h)"
    using ring_relD(1) [OF rel] writer_relD(4) [OF ring_relD(1) [OF rel], of "length (posted a)"]
    by (auto simp: writer_rel_def slot_of_nat)
  then have bk: "e_buf r2 (slot (w_xfer r2 - 1)) + 1 = w_buf_curr r2 \<and> w_buf_next r2 = w_buf_curr r2"
    using eff by simp
  have "ipcbuf_is_writer (h3, r2)" using P by (simp add: ipcbuf_is_writer_def)
  note R = reopen_write [OF this P(2) bk fin]
  have "ring_exec Relock (s\<lparr>wr := h2, rg := r2\<rparr>) = Some (Internal,
      s\<lparr>wr := h2\<lparr>state := IPCBUF_WCHANGE, xfer := w_xfer r2 mod IPCBUF_XFERS\<rparr>, rg := r\<rparr>)"
    by (simp add: ipcbuf_relock_write_def ipcbuf_is_writer_def eff(1) R(1))
  then have "ring_rel (s\<lparr>wr := h2\<lparr>state := IPCBUF_WCHANGE, xfer := w_xfer r2 mod IPCBUF_XFERS\<rparr>, rg := r\<rparr>) a'"
    using Relock_step [OF rel2] internal_same by blast
  moreover have "ring_rel (s\<lparr>wr := h, rg := r\<rparr>) a' =
      ring_rel (s\<lparr>wr := h2\<lparr>state := IPCBUF_WCHANGE, xfer := w_xfer r2 mod IPCBUF_XFERS\<rparr>, rg := r\<rparr>) a'"
    by (rule ring_rel_wr) (simp_all add: R)
  moreover have "writer_io (h, r)"
    using R P W(4) eff by (simp add: writer_io_def)
  ultimately have "advances s a (s\<lparr>wr := h, rg := r\<rparr>) a'"
    using eff by (simp add: advances_def p R(1))
  moreover have "held (s\<lparr>wr := h, rg := r\<rparr>) a' = complete (held s a)"
    using W6 by (simp add: held_def pending_def R p transfers_snoc)
  ultimately show thesis by (rule that)
qed

end
