(* ===== verification/Ipcio_Reading.thy ===== *)
theory Ipcio_Reading
  imports Ipcio_Writing
begin

text \<open>
  A reader's side of the byte-stream interface: a turn of the loop of \<open>ipcio_read\<close> makes the ring
  steps \<open>Take\<close> and \<open>Clear\<close> around a copy. With the writer's side this makes every call a step of
  the specification of histories.
\<close>

section \<open>Steps of a reader\<close>

text \<open>What reader \<open>i\<close> has read, as the stream and its handle hold it.\<close>

definition taken :: "'h ipcio_ext sys \<Rightarrow> stream \<Rightarrow> nat \<Rightarrow> history" where
  "taken s a i = add_bytes (part_read (rd s i) (posted a) (got a i)) (transfers (take (got a i) (posted a)) [])"

text \<open>The system after a call of reader \<open>i\<close>.\<close>

definition set_reader ::
  "nat \<Rightarrow> 'h ipcio_scheme \<Rightarrow> ring \<Rightarrow> 'h ipcio_ext sys \<Rightarrow> 'h ipcio_ext sys" where
  "set_reader i h r s =
     s\<lparr>rd := (rd s)(i := h), rg := r, holds := (holds s)(i := curbuf h \<noteq> None)\<rparr>"

lemma set_reader_simps [simp]:
  "wr (set_reader i h r s) = wr s" "rg (set_reader i h r s) = r"
  "rd (set_reader i h r s) = (rd s)(i := h)"
  "holds (set_reader i h r s) = (holds s)(i := curbuf h \<noteq> None)"
  "set_reader i h' r' (set_reader i h r s) = set_reader i h' r' s"
  by (simp_all add: set_reader_def)

lemma set_reader_same: "holds s i = (curbuf (rd s i) \<noteq> None) \<Longrightarrow> set_reader i (rd s i) (rg s) s = s"
  by (simp add: set_reader_def fun_upd_idem)

lemma ring_rel_set_reader:
  assumes "state h' = state h" "xfer h' = xfer h" "iread h' = iread h"
  shows "ring_rel (set_reader i h' r s) a =
    ring_rel (s\<lparr>rd := (rd s)(i := h), rg := r, holds := (holds s)(i := curbuf h' \<noteq> None)\<rparr>) a"
  unfolding set_reader_def by (rule ring_rel_rd) fact+

text \<open>A step of reader \<open>i\<close>: what it keeps.\<close>

definition reads :: "nat \<Rightarrow> 'h ipcio_ext sys \<Rightarrow> stream \<Rightarrow> 'h ipcio_scheme \<Rightarrow> ring \<Rightarrow> stream \<Rightarrow> bool" where
  "reads i s a h r a' \<longleftrightarrow>
     ring_rel (set_reader i h r s) a' \<and>
     reader_io h (nbufs r) (curbuf h \<noteq> None) (posted a') (got a' i) \<and>
     posted a' = posted a \<and> (\<forall>j. j \<noteq> i \<longrightarrow> got a' j = got a j) \<and>
     nbufs r = nbufs (rg s) \<and> bufsz r = bufsz (rg s) \<and> n_readers r = n_readers (rg s) \<and>
     w_buf_curr r = w_buf_curr (rg s) \<and> w_buf_next r = w_buf_next (rg s) \<and> mem r = mem (rg s)"

lemma reads_refl:
  "ring_rel s a \<Longrightarrow> reader_io (rd s i) (nbufs (rg s)) (holds s i) (posted a) (got a i) \<Longrightarrow>
    reads i s a (rd s i) (rg s) a"
  using set_reader_same [of s i] by (simp add: reads_def reader_io_def)

lemma reads_trans:
  "reads i s a h r a' \<Longrightarrow> reads i (set_reader i h r s) a' h' r' a'' \<Longrightarrow> reads i s a h' r' a''"
  by (auto simp: reads_def)

lemma reads_step:
  assumes "reads i s a h r a'" and "i < n_readers (rg s)"
  shows "ring_rel (set_reader i h r s) a'" "i < n_readers (rg (set_reader i h r s))"
    "reader_io (rd (set_reader i h r s) i) (nbufs (rg (set_reader i h r s)))
       (holds (set_reader i h r s) i) (posted a') (got a' i)"
  using assms by (auto simp add: reads_def)

lemma taken_cong:
  "posted a' = posted a \<Longrightarrow> got a' i = got a i \<Longrightarrow> taken s a' i = taken s a i"
  by (simp add: taken_def)

lemma open_read_reads:
  assumes rel: "ring_rel s a" and i: "i < n_readers (rg s)"
    and io: "reader_io (rd s i) (nbufs (rg s)) (holds s i) (posted a) (got a i)"
    and f: "open_read (rd s i, rg s) = Done u (h, r)"
  obtains a' where "reads i s a h r a'" "curbuf h \<noteq> None" "taken (set_reader i h r s) a' i = taken s a i"
proof (cases "curbuf (rd s i) = None")
  case False
  then have "h = rd s i" "r = rg s" using f by (simp_all add: open_read_def)
  then show thesis using that [of a] reads_refl [OF rel io] False by (simp add: taken_def)
next
  case True
  then have nh: "\<not> holds s i" using io by (simp add: reader_io_def)
  from f True obtain p h1 where g: "ipcbuf_get_next_read (rd s i, rg s) = Done p (h1, r)"
    and h: "h = h1\<lparr>curbuf := Some (rp_block p, rp_offset p), curbufsz := rp_bytes p, bytes := 0\<rparr>"
    by (auto simp: open_read_def outcome_simps)
  note P = take_ptr [OF rel i nh g]
  let ?s = "s\<lparr>rd := (rd s)(i := h1), rg := r, holds := (holds s)(i := True)\<rparr>"
  have "ring_exec (Take i) s = Some (Took i (read_bytes p r), ?s)" using i nh g by simp
  from Take_step [OF rel this] obtain a' where a': "stream_step a (Took i (read_bytes p r)) a'"
    and rel': "ring_rel ?s a'" by blast
  from a' have eq: "posted a' = posted a" "got a' = got a" by (auto elim: stream_TookE)
  have "rdwrt h1 = rdwrt (rd s i)"
    using rel i nh g by (cases rule: take_cases) simp_all
  then have "reader_io h (nbufs r) True (posted a') (got a' i)"
    using io P eq by (simp add: reader_io_def h)
  moreover have "ring_rel (set_reader i h r s) a'"
    using rel' ring_rel_set_reader [where h' = h and h = h1 and i = i and r = r and s = s] by (simp add: h)
  ultimately have "reads i s a h r a'" using P eq by (simp add: reads_def h)
  moreover have "taken (set_reader i h r s) a' i = taken s a i"
    using True by (simp add: taken_def eq part_read_def h)
  ultimately show thesis using that by (simp add: h)
qed

lemma get_bytes_reads:
  assumes rel: "ring_rel s a" and i: "i < n_readers (rg s)"
    and io: "reader_io (rd s i) (nbufs (rg s)) (holds s i) (posted a) (got a i)"
    and c: "curbuf (rd s i) \<noteq> None"
    and f: "get_bytes True n (rd s i, rg s) = Done (k, d) (h, r)"
  shows "reads i s a h r a" "curbuf h \<noteq> None" "k = length d" "k \<le> n"
    "taken (set_reader i h r s) a i = add_bytes d (taken s a i)"
proof -
  let ?h = "rd s i" and ?P = "posted a" and ?g = "got a i"
  from c io have hold: "holds s i" and IO: "curbuf ?h = Some (?g mod unat (nbufs (rg s)), 0)"
    "unat (curbufsz ?h) = length (fst (?P ! ?g))" "bytes ?h \<le> curbufsz ?h" "rdwrt ?h = CHR ''R''"
    by (auto simp: reader_io_def)
  have g: "?g < length ?P"
    using ring_relD(8) [OF rel i] hold by (auto simp: reader_rel_def)
  note D = block_data [OF rel i g]
  define j where "j = unat (bytes ?h)"
  have jl: "j \<le> length (fst (?P ! ?g))" using IO(2,3) by (simp add: j_def word_le_nat_alt)
  have room: "unat (curbufsz ?h - bytes ?h) = length (fst (?P ! ?g)) - j"
    using IO(2,3) by (simp add: unat_sub j_def)
  from f have k: "k = min (length (fst (?P ! ?g)) - j) n" and h: "h = ?h\<lparr>bytes := bytes ?h + of_nat k\<rparr>"
    and r: "r = rg s" and d: "d = take k (drop j (mem (rg s) (?g mod unat (nbufs (rg s)))))"
    by (auto simp: get_bytes_def copy_out_def Let_def IO(1) room j_def split: if_splits)
  have kj: "j + k \<le> length (fst (?P ! ?g))" using k jl by simp
  have d': "d = take k (drop j (fst (?P ! ?g)))"
    by (subst d, subst D(3) [symmetric]) (use kj in \<open>simp add: drop_take\<close>)
  have b': "unat (bytes ?h + of_nat k) = j + k"
    unfolding j_def using kj IO(2) unat_u64_bound [of "curbufsz ?h"]
    by (intro unat_add_of_nat) (simp add: j_def)
  then have "reader_io h (nbufs r) True ?P ?g"
    using IO kj by (simp add: reader_io_def h r word_le_nat_alt)
  moreover have "ring_rel (set_reader i h r s) a"
    using ring_rel_set_reader [where h' = h and h = ?h and i = i and r = r and s = s and a = a] rel hold IO(1)
    by (simp add: h r fun_upd_idem)
  ultimately show "reads i s a h r a" using IO(1) by (simp add: reads_def h r)
  show "curbuf h \<noteq> None" using IO(1) by (simp add: h)
  show "k = length d" "k \<le> n" using kj k d' by simp_all
  have "part_read h ?P ?g = part_read ?h ?P ?g @ d"
    using IO(1) b' by (simp add: part_read_def h d' take_add j_def)
  then show "taken (set_reader i h r s) a i = add_bytes d (taken s a i)"
    by (simp add: taken_def)
qed

text \<open>At the end of the block the reader releases it, and is told if it was the last.\<close>

lemma finish_block_reads:
  assumes rel: "ring_rel s a" and i: "i < n_readers (rg s)"
    and io: "reader_io (rd s i) (nbufs (rg s)) (holds s i) (posted a) (got a i)"
    and c: "curbuf (rd s i) \<noteq> None"
    and f: "finish_block (rd s i, rg s) = Done u (h, r)"
  obtains a' where "reads i s a h r a'"
    "taken (set_reader i h r s) a' i =
      (if ipcbuf_eod (h, r) then complete (taken s a i) else taken s a i)"
proof (cases "bytes (rd s i) = curbufsz (rd s i)")
  let ?h = "rd s i" and ?P = "posted a" and ?g = "got a i"
  from c io have hold: "holds s i" and IO: "curbuf ?h = Some (?g mod unat (nbufs (rg s)), 0)"
    "unat (curbufsz ?h) = length (fst (?P ! ?g))" "rdwrt ?h = CHR ''R''"
    by (auto simp: reader_io_def)
  case False
  then have "h = ?h" "r = rg s" using f by (simp_all add: finish_block_def)
  moreover have "\<not> ipcbuf_eod (?h, rg s)"
    using ring_relD(8) [OF rel i] hold by (auto simp: reader_rel_def ipcbuf_eod_def)
  ultimately show thesis using that [of a] reads_refl [OF rel io] by (simp add: taken_def)
next
  let ?h = "rd s i" and ?P = "posted a" and ?g = "got a i"
  from c io have hold: "holds s i" and IO: "curbuf ?h = Some (?g mod unat (nbufs (rg s)), 0)"
    "unat (curbufsz ?h) = length (fst (?P ! ?g))" "rdwrt ?h = CHR ''R''"
    by (auto simp: reader_io_def)
  case True
  then obtain h1 where m: "ipcbuf_mark_cleared (?h, rg s) = Done () (h1, r)"
    and h: "h = h1\<lparr>curbuf := None, bytes := 0\<rparr>"
    using f IO(3) by (auto simp: finish_block_def outcome_simps)
  let ?s = "s\<lparr>rd := (rd s)(i := h1), rg := r, holds := (holds s)(i := False)\<rparr>"
  have "ring_exec (Clear i) s = Some (Cleared i (ipcbuf_eod (h1, r)), ?s)" using i hold m by simp
  from Clear_step [OF rel this] obtain a' where a': "stream_step a (Cleared i (ipcbuf_eod (h1, r))) a'"
    and rel': "ring_rel ?s a'" by blast
  have eq: "posted a' = posted a" "got a' = (got a)(i := Suc ?g)" "ipcbuf_eod (h1, r) = snd (?P ! ?g)"
    using a' by (auto elim: stream_ClearedE)
  have same: "rdwrt h1 = rdwrt ?h" "nbufs r = nbufs (rg s)" "bufsz r = bufsz (rg s)"
    "n_readers r = n_readers (rg s)" "w_buf_curr r = w_buf_curr (rg s)"
    "w_buf_next r = w_buf_next (rg s)" "mem r = mem (rg s)"
    using m by (auto simp: ipcbuf_mark_cleared_def ipc_semop_Data outcome_simps Let_def split: if_splits)
  have g: "?g < length ?P"
    using ring_relD(8) [OF rel i] hold by (auto simp: reader_rel_def)
  have "reader_io h (nbufs r) False (posted a') (got a' i)"
    using IO same by (simp add: reader_io_def h)
  moreover have "ring_rel (set_reader i h r s) a'"
    using rel' ring_rel_set_reader [where h' = h and h = h1 and i = i and r = r and s = s] by (simp add: h)
  ultimately have "reads i s a h r a'" using same eq by (simp add: reads_def h)
  moreover have "part_read ?h ?P ?g = fst (?P ! ?g)"
    using IO True by (simp add: part_read_def)
  then have "taken (set_reader i h r s) a' i =
      (if ipcbuf_eod (h, r) then complete (taken s a i) else taken s a i)"
    using transfers_snoc [of "take ?g ?P" "fst (?P ! ?g)" "snd (?P ! ?g)" "[]"] g eq
    by (simp add: taken_def part_read_def h take_Suc_conv_app_nth ipcbuf_eod_def)
  ultimately show thesis by (rule that)
qed

text \<open>A turn, and the loop, add the bytes copied, and complete the transfer at its end.\<close>

definition ending :: "bool \<Rightarrow> history \<Rightarrow> history" where
  "ending l h = (if l then complete h else h)"

lemma read_turn_reads:
  assumes rel: "ring_rel s a" and i: "i < n_readers (rg s)"
    and io: "reader_io (rd s i) (nbufs (rg s)) (holds s i) (posted a) (got a i)"
    and f: "read_turn True n (rd s i, rg s) = Done (k, d) (h, r)"
  obtains a' where "reads i s a h r a'" "k = length d" "k \<le> n"
    "taken (set_reader i h r s) a' i = ending (ipcbuf_eod (h, r)) (add_bytes d (taken s a i))"
proof -
  from f obtain h1 r1 h2 r2 where f1: "open_read (rd s i, rg s) = Done () (h1, r1)"
    and f2: "get_bytes True n (h1, r1) = Done (k, d) (h2, r2)"
    and f3: "finish_block (h2, r2) = Done () (h, r)"
    by (auto simp: read_turn_def outcome_simps)
  obtain a1 where s1: "reads i s a h1 r1 a1" and c1: "curbuf h1 \<noteq> None"
    and t1: "taken (set_reader i h1 r1 s) a1 i = taken s a i"
    by (rule open_read_reads [OF rel i io f1])
  let ?s1 = "set_reader i h1 r1 s"
  have f2: "get_bytes True n (rd ?s1 i, rg ?s1) = Done (k, d) (h2, r2)" and c1: "curbuf (rd ?s1 i) \<noteq> None"
    using f2 c1 by simp_all
  note G = get_bytes_reads [OF reads_step [OF s1 i] c1 f2]
  let ?s2 = "set_reader i h2 r2 ?s1"
  have s2: "reads i s a h2 r2 a1" by (rule reads_trans [OF s1 G(1)])
  have f3: "finish_block (rd ?s2 i, rg ?s2) = Done () (h, r)" and c2: "curbuf (rd ?s2 i) \<noteq> None"
    using f3 G(2) by simp_all
  have S2: "ring_rel ?s2 a1" "i < n_readers (rg ?s2)"
      "reader_io (rd ?s2 i) (nbufs (rg ?s2)) (holds ?s2 i) (posted a1) (got a1 i)"
    using reads_step [OF s2 i] by simp_all
  obtain a' where s3: "reads i ?s2 a1 h r a'"
    and t3: "taken (set_reader i h r ?s2) a' i =
      (if ipcbuf_eod (h, r) then complete (taken ?s2 a1 i) else taken ?s2 a1 i)"
    by (rule finish_block_reads [OF S2 c2 f3])
  have twice: "set_reader i h2 r2 ?s1 = set_reader i h2 r2 s" by simp
  have "reads i (set_reader i h2 r2 s) a1 h r a'" using s3 by simp
  then have "reads i s a h r a'" by (rule reads_trans [OF s2])
  then show thesis
    using G(3-5) t1 t3 [unfolded twice] by (intro that) (auto simp: ending_def)
qed

lemma read_loop_reads:
  assumes "ring_rel s a" "i < n_readers (rg s)"
    "reader_io (rd s i) (nbufs (rg s)) (holds s i) (posted a) (got a i)"
    "\<not> ipcbuf_eod (rd s i, rg s)"
    "read_loop fuel True n (rd s i, rg s) = Done (k, d) (h, r)"
  shows "\<exists>a'. reads i s a h r a' \<and> k = length d \<and> k \<le> n \<and> (k = n \<or> ipcbuf_eod (h, r)) \<and>
    taken (set_reader i h r s) a' i = ending (ipcbuf_eod (h, r)) (add_bytes d (taken s a i))"
  using assms
proof (induction fuel arbitrary: n k d s a)
  case 0
  then show ?case by (simp add: read_loop.simps)
next
  case (Suc fuel)
  note i = Suc.prems(2)
  from Suc.prems(4,5) obtain k1 d1 h1 r1 where
    f: "read_turn True n (rd s i, rg s) = Done (k1, d1) (h1, r1)" and
    rest: "(if n - k1 = 0 then Done (k1, d1) (h1, r1)
      else andthen (read_loop fuel True (n - k1) (h1, r1)) (\<lambda>(k', d'). Done (k1 + k', d1 @ d'))) =
        Done (k, d) (h, r)"
    by (auto simp: read_loop.simps [of "Suc fuel"] outcome_simps split: prod.splits)
  obtain a1 where s1: "reads i s a h1 r1 a1" and k1: "k1 = length d1" "k1 \<le> n"
    and t1: "taken (set_reader i h1 r1 s) a1 i = ending (ipcbuf_eod (h1, r1)) (add_bytes d1 (taken s a i))"
    by (rule read_turn_reads [OF Suc.prems(1-3) f])
  let ?s1 = "set_reader i h1 r1 s"
  consider (stop) "n - k1 = 0" | (eod) "n - k1 \<noteq> 0" "ipcbuf_eod (h1, r1)"
    | (more) "n - k1 \<noteq> 0" "\<not> ipcbuf_eod (h1, r1)" by blast
  then show ?case
  proof cases
    case stop
    with rest s1 k1 t1 show ?thesis by auto
  next
    case eod
    then have "read_loop fuel True (n - k1) (h1, r1) = Done (0, []) (h1, r1)"
      by (simp add: read_loop.simps)
    with eod rest have "k = k1 \<and> d = d1 \<and> h = h1 \<and> r = r1" by simp
    with eod s1 k1 t1 show ?thesis by auto
  next
    case more
    then obtain k2 d2 where l: "read_loop fuel True (n - k1) (h1, r1) = Done (k2, d2) (h, r)"
      and kd: "k = k1 + k2" "d = d1 @ d2"
      using rest by (auto simp: outcome_simps)
    have "\<exists>a'. reads i ?s1 a1 h r a' \<and> k2 = length d2 \<and> k2 \<le> n - k1 \<and> (k2 = n - k1 \<or> ipcbuf_eod (h, r)) \<and>
      taken (set_reader i h r ?s1) a' i = ending (ipcbuf_eod (h, r)) (add_bytes d2 (taken ?s1 a1 i))"
      using reads_step [OF s1 i] more(2) l by (intro Suc.IH) simp_all
    then obtain a' where s2: "reads i ?s1 a1 h r a'" and "k2 = length d2" "k2 \<le> n - k1"
      "k2 = n - k1 \<or> ipcbuf_eod (h, r)"
      "taken (set_reader i h r s) a' i = ending (ipcbuf_eod (h, r)) (add_bytes d2 (taken ?s1 a1 i))"
      by auto
    moreover have "reads i s a h r a'" by (rule reads_trans [OF s1 s2])
    ultimately show ?thesis using t1 more(2) k1 kd by (intro exI [of _ a']) (auto simp: ending_def)
  qed
qed

section \<open>The simulation\<close>

text \<open>
  The system stands for the histories \<open>(W, R)\<close>: the ring for a stream, the handles for the
  blocks in use, and the bytes of both for the histories.
\<close>

definition io_rel :: "'h ipcio_ext sys \<Rightarrow> stream \<Rightarrow> history \<times> (nat \<Rightarrow> history) \<Rightarrow> bool" where
  "io_rel s a = (\<lambda>(W, R).
     ring_rel s a \<and> writer_io (wr s, rg s) \<and> W = held s a \<and>
     (\<forall>i < n_readers (rg s).
        reader_io (rd s i) (nbufs (rg s)) (holds s i) (posted a) (got a i) \<and> R i = taken s a i) \<and>
     (\<forall>i. n_readers (rg s) \<le> i \<longrightarrow> R i = ([], [])))"

text \<open>A reader is always behind the writer.\<close>

lemma taken_behind:
  assumes rel: "ring_rel s a" and i: "i < n_readers (rg s)"
    and io: "reader_io (rd s i) (nbufs (rg s)) (holds s i) (posted a) (got a i)"
  shows "behind (taken s a i) (held s a)"
proof -
  have "behind (taken s a i) (transfers (posted a) [])"
  proof (cases "curbuf (rd s i)")
    case None
    then show ?thesis by (simp add: taken_def part_read_def behind_log)
  next
    case (Some p)
    then have "got a i < length (posted a)"
      using ring_relD(8) [OF rel i] io by (auto simp: reader_rel_def reader_io_def)
    then show ?thesis
      by (simp add: taken_def part_read_def Some behind_prefix_log take_is_prefix)
  qed
  then show ?thesis by (simp add: held_def behind_add)
qed

text \<open>Blocks added to the log change nothing for a reader.\<close>

lemma reader_extend:
  assumes rel: "ring_rel s a" and i: "i < n_readers (rg s)"
    and io: "reader_io (rd s i) (nbufs (rg s)) (holds s i) (posted a) (got a i)"
    and P: "prefix (posted a) (posted a')" "got a' = got a" "rd s' = rd s"
  shows "reader_io (rd s i) (nbufs (rg s)) (holds s i) (posted a') (got a i)"
    "taken s' a' i = taken s a i"
proof -
  obtain Q where Q: "posted a' = posted a @ Q" using P(1) by (auto simp: prefix_def)
  have g: "got a i \<le> length (posted a)" "holds s i \<Longrightarrow> got a i < length (posted a)"
    using ring_relD(8) [OF rel i] by (auto simp: reader_rel_def)
  show "reader_io (rd s i) (nbufs (rg s)) (holds s i) (posted a') (got a i)"
    using io g(2) by (auto simp: reader_io_def Q nth_append)
  have "part_read (rd s i) (posted a') (got a i) = part_read (rd s i) (posted a) (got a i)"
    using io g(2) by (auto simp: part_read_def reader_io_def Q nth_append split: option.split)
  then show "taken s' a' i = taken s a i" using g(1) by (simp add: taken_def P Q)
qed

lemma advances_io_rel:
  assumes io: "io_rel s a (W, R)" and adv: "advances s a s' a'"
  shows "io_rel s' a' (held s' a', R)"
  using io adv reader_extend [of s a _ a' s']
  by (auto simp: io_rel_def advances_def)

lemma reads_io_rel:
  assumes io: "io_rel s a (W, R)" and i: "i < n_readers (rg s)" and r: "reads i s a h r a'"
  shows "io_rel (set_reader i h r s) a' (W, R(i := taken (set_reader i h r s) a' i))"
proof -
  let ?s = "set_reader i h r s"
  have "writer_io (wr s, r)" "pending (wr s, r) = pending (wr s, rg s)"
    using io r by (auto simp: io_rel_def reads_def writer_io_def pending_def block_def split: option.split)
  moreover have "taken ?s a' j = taken s a j" if "j \<noteq> i" for j
    using that r by (simp add: taken_def reads_def)
  ultimately show ?thesis
    using io r i by (auto simp: io_rel_def reads_def held_def)
qed

lemma Next_io_rel:
  assumes io: "io_rel s a (W, R)" and ex: "io_exec (Next i) s = Some (e, s')"
  shows "e = Waits i" "\<exists>a'. io_rel s' a' (W, R)"
proof -
  have rel: "ring_rel s a" using io by (simp add: io_rel_def)
  from ex obtain h r where f: "i < n_readers (rg s)" "ipcbuf_eod (rd s i, rg s)"
    "ipcbuf_reset (rd s i, rg s) = Done () (h, r)" and e: "e = Waits i"
    and s': "s' = s\<lparr>rd := (rd s)(i := h), rg := r\<rparr>"
    by (auto split: if_splits option.splits)
  show "e = Waits i" by (rule e)
  have "ring_exec (Ack i) s = Some (Internal, s')" using f by (simp add: s')
  then have rel': "ring_rel s' a" using Ack_step [OF rel] internal_same by blast
  have st: "state (rd s i) = IPCBUF_RSTOP"
    using ring_relD(8) [OF rel f(1)] f(2) by (auto simp: ipcbuf_eod_def reader_rel_def)
  then have h: "h = (rd s i)\<lparr>state := IPCBUF_READER\<rparr>"
    and r: "r = (rg s)\<lparr>r_states := (r_states (rg s))(nat (iread (rd s i)) := IPCBUF_READER)\<rparr>"
    using f(3) by (simp_all add: ipcbuf_reset_def)
  have "taken s' a j = taken s a j" for j
    by (simp add: taken_def s' part_read_def h split: option.split)
  moreover have "held s' a = held s a" "writer_io (wr s', rg s') = writer_io (wr s, rg s)"
    by (simp_all add: held_def s' r pending_def writer_io_def block_def split: option.split)
  moreover have "reader_io (rd s' j) = reader_io (rd s j)" for j
    by (simp add: s' h reader_io_def fun_eq_iff)
  moreover have "nbufs (rg s') = nbufs (rg s)" "n_readers (rg s') = n_readers (rg s)" "holds s' = holds s"
    by (simp_all add: s' r)
  ultimately have "io_rel s' a (W, R)" using io rel' by (simp add: io_rel_def)
  then show "\<exists>a'. io_rel s' a' (W, R)" ..
qed

lemma io_exec_simulates:
  assumes io: "io_rel s a (W, R)" and ex: "io_exec c s = Some (e, s')"
  shows "\<exists>a' W' R'. io_rel s' a' (W', R') \<and> io_spec_step (W, R) e (W', R')"
proof (cases c)
  case (Write d)
  have rel: "ring_rel s a" and w: "writer_io (wr s, rg s)" and W: "W = held s a"
    using io by (simp_all add: io_rel_def)
  from ex Write obtain n h r where N: "uint (w_buf_next (rg s)) + int (length d) < 2 ^ 64 - 1"
    and f: "ipcio_write d (wr s, rg s) = Done n (h, r)"
    and e: "e = Wrote (take n d)" and s': "s' = s\<lparr>wr := h, rg := r\<rparr>"
    by (auto split: if_splits option.splits)
  have "int (unat (w_buf_next (rg s)) + length d) < int (2 ^ 64 - 1)" using N by simp
  then have N: "unat (w_buf_next (rg s)) + length d < 2 ^ 64 - 1" by (simp only: of_nat_less_iff)
  from f have n: "n = length d" and l: "write_loop (length d) d (wr s, rg s) = Done () (h, r)"
    by (auto simp: ipcio_write_def outcome_simps split: if_splits)
  obtain a' where "writes s a d s' a'"
    using write_loop_writes [OF rel w N l] by (auto simp: s')
  then have "io_rel s' a' (add_bytes d W, R)"
    using advances_io_rel [OF io, of s' a'] by (simp add: writes_def W)
  then show ?thesis using io_spec_step.wrote [of W R d] e n take_all [of d] by (metis order_refl)
next
  case Finish
  have rel: "ring_rel s a" and w: "writer_io (wr s, rg s)" and W: "W = held s a"
    using io by (simp_all add: io_rel_def)
  from ex Finish obtain h r where b: "bytes (wr s) \<noteq> 0"
    and f: "andthen (ipcio_close (wr s, rg s)) (\<lambda>_. ipcio_open (CHR ''W'')) = Done () (h, r)"
    and e: "e = Finished" and s': "s' = s\<lparr>wr := h, rg := r\<rparr>"
    by (auto split: if_splits option.splits)
  from finish_advances [OF rel w b f] obtain a' where "advances s a s' a'" "held s' a' = complete (held s a)"
    unfolding s' by blast
  then have "io_rel s' a' (complete W, R)"
    using advances_io_rel [OF io, of s' a'] by (simp add: W)
  then show ?thesis unfolding e using io_spec_step.finished [of W R] by blast
next
  case (Read i n)
  from ex Read obtain k d h r where i: "i < n_readers (rg s)" and ne: "\<not> ipcbuf_eod (rd s i, rg s)"
    and f: "ipcio_read True n (rd s i, rg s) = Done (k, d) (h, r)"
    and e: "e = Got i d (ipcbuf_eod (h, r))" and s': "s' = set_reader i h r s"
    by (auto simp: set_reader_def split: if_splits option.splits)
  have io': "reader_io (rd s i) (nbufs (rg s)) (holds s i) (posted a) (got a i)" "ring_rel s a"
    and R: "R i = taken s a i"
    using io i by (simp_all add: io_rel_def)
  have l: "read_loop (read_fuel n (rd s i, rg s)) True n (rd s i, rg s) = Done (k, d) (h, r)"
    using f by (auto simp: ipcio_read_def split: if_splits)
  from read_loop_reads [OF io'(2) i io'(1) ne l] obtain a' where r: "reads i s a h r a'"
    and t: "taken s' a' i = ending (ipcbuf_eod (h, r)) (add_bytes d (taken s a i))"
    unfolding s' by blast
  let ?h = "taken s' a' i"
  have new: "io_rel s' a' (W, R(i := ?h))"
    using reads_io_rel [OF io i r] by (simp add: s')
  moreover have "behind ?h W"
    using taken_behind [OF reads_step [OF r i]] new by (simp add: io_rel_def s')
  then have "io_spec_step (W, R) e (W, R(i := ?h))"
    unfolding e using t R by (intro io_spec_step.got) (simp_all add: ending_def)
  ultimately show ?thesis by blast
next
  case (Next i)
  with Next_io_rel [OF io] ex show ?thesis by (blast intro: io_spec_step.waits)
qed

interpretation io_sim: forward_simulation io_step io_spec_step "\<lambda>s h. \<exists>a. io_rel s a h"
  by unfold_locales (force simp: io_step_def dest: io_exec_simulates)

end
