(* ===== verification/Ipcio_Start.thy ===== *)
theory Ipcio_Start
  imports Ipcio_Reading Ring_Start
begin

text \<open>
  The start of a system that uses the byte-stream interface: the ring is created, the processes
  connect, one opens it for writing and \<open>n\<close> for reading. From there the runs of Ipcio_System
  keep \<open>io_rel\<close>, and the histories they record are those of its specification.
\<close>

section \<open>The start\<close>

text \<open>\<open>IPCIO_INIT\<close> of src/ipcio.h.\<close>

definition IPCIO_INIT :: ipcio where
  "IPCIO_INIT = ipcbuf.extend IPCBUF_INIT (ipcio.fields None 0 0 NUL False False 0 0 [] 0 0)"

text \<open>The ring is created; every process connects; one opens it for writing and \<open>n\<close> for reading.\<close>

definition start_io :: "key_t \<Rightarrow> u64 \<Rightarrow> u64 \<Rightarrow> nat \<Rightarrow> unit ipcio_ext sys option" where
  "start_io key nb bz n =
    (case returned (ipcio_create key nb bz n (IPCIO_INIT, no_kernel)) of
       None \<Rightarrow> None
     | Some (u, creator, k) \<Rightarrow>
    (case returned (ipcio_connect key (IPCIO_INIT, k)) of
       None \<Rightarrow> None
     | Some (u, h, k) \<Rightarrow>
    (case returned (ipcio_open (CHR ''W'') (h, rings k key)) of
       None \<Rightarrow> None
     | Some (u, w, r) \<Rightarrow>
    (case attach_readers (ipcio_open (CHR ''R'')) n h (\<lambda>_. h, r) of
       None \<Rightarrow> None
     | Some (rds, r) \<Rightarrow> Some \<lparr>wr = w, rd = rds, rg = r, holds = (\<lambda>_. False)\<rparr>))))"

text \<open>What \<open>ipcio_open\<close> does to a handle after the lock.\<close>

definition opened_as :: "char \<Rightarrow> u64 \<Rightarrow> 'h ipcio_scheme \<Rightarrow> 'h ipcio_scheme" where
  "opened_as mode nb h =
     h\<lparr>rdwrt := mode, bufs_opened_max := ucast (nb - 1), buf_ptrs := replicate (unat nb) None\<rparr>"

lemma opened_as_simps [simp]:
  "state (opened_as mode nb h) = state h" "xfer (opened_as mode nb h) = xfer h"
  "iread (opened_as mode nb h) = iread h" "rdwrt (opened_as mode nb h) = mode"
  "bytes (opened_as mode nb h) = bytes h" "curbuf (opened_as mode nb h) = curbuf h"
  "soclock_buf (opened_as mode nb h) = soclock_buf h"
  "sod_pending (opened_as mode nb h) = sod_pending h" "bufs_opened (opened_as mode nb h) = bufs_opened h"
  by (simp_all add: opened_as_def)

lemma sem_set_nbufs [simp]: "nbufs (sem_set q v r) = nbufs r"
  by (cases q) simp_all

lemma take_reader_conn_nbufs:
  "take_reader_conn ps s = Done u s' \<Longrightarrow> nbufs (snd s') = nbufs (snd s)"
proof (induction ps s rule: take_reader_conn.induct)
  case (3 i ps s)
  then show ?case
    by (cases s) (auto simp: ipc_semop_def split: sem_result.splits)
qed simp_all

lemma lock_read_nbufs: "ipcbuf_lock_read (h, r) = Done u (h', r') \<Longrightarrow> nbufs r' = nbufs r"
  by (auto simp: ipcbuf_lock_read_def outcome_simps ipc_semop_Done Let_def
      dest!: take_reader_conn_nbufs split: if_splits)

lemma open_init:
  fixes h :: "'h ipcio_scheme"
  assumes h: "h = ipcio_init h0"
  shows "ipcbuf_lock_read (h, r) = Done () (h', r') \<Longrightarrow> nbufs r = nb \<Longrightarrow>
      ipcio_open (CHR ''R'') (h, r) = Done () (opened_as (CHR ''R'') nb h', r')"
    and "ipcbuf_lock_write (h, r) = Done () (h', r') \<Longrightarrow> nbufs r' = nb \<Longrightarrow>
      ipcio_open (CHR ''W'') (h, r) = Done () (opened_as (CHR ''W'') nb h', r')"
proof -
  have same: "h\<lparr>rdwrt := NUL, bytes := 0, curbuf := None\<rparr> = h"
    by (simp add: h ipcio_init_def)
  show "ipcbuf_lock_write (h, r) = Done () (h', r') \<Longrightarrow> nbufs r' = nb \<Longrightarrow>
      ipcio_open (CHR ''W'') (h, r) = Done () (opened_as (CHR ''W'') nb h', r')"
    using same by (simp add: ipcio_open_def Let_def ipcio_alloc_def ipcbuf_get_nbufs_def opened_as_def)
  assume l: "ipcbuf_lock_read (h, r) = Done () (h', r')" "nbufs r = nb"
  from lock_read_nbufs [OF l(1)] have "nbufs r' = nbufs r" .
  then show "ipcio_open (CHR ''R'') (h, r) = Done () (opened_as (CHR ''R'') nb h', r')"
    using same l by (simp add: ipcio_open_def Let_def ipcio_alloc_def ipcbuf_get_nbufs_def opened_as_def)
qed

lemma start_io_rel:
  assumes "nb \<noteq> 0" "bz \<noteq> 0" "unat nb \<le> 65526" "n \<le> 8"
  shows "\<exists>s. start_io key nb bz n = Some s \<and> io_rel s empty_stream (([], []), \<lambda>_. ([], [])) \<and>
    nbufs (rg s) = nb \<and> bufsz (rg s) = bz \<and> n_readers (rg s) = n \<and> soclock_buf (wr s) = 0"
proof -
  let ?h0 = "connected_handle key nb n IPCIO_INIT" and ?h = "ipcio_init (connected_handle key nb n IPCIO_INIT)"
  have h: "state ?h = IPCBUF_VIEWER" "iread ?h = -1" "bytes ?h = 0" "curbuf ?h = None"
    "\<not> sod_pending ?h" "bufs_opened ?h = 0" "soclock_buf ?h = 0"
    by (simp_all add: connected_handle_def IPCIO_INIT_def IPCBUF_INIT_def ipcio_init_def ipcbuf.defs ipcio.defs)
  obtain r0 rds r where
    l: "ipcbuf_lock_write (?h, new_ring key nb bz n) = Done () (?h\<lparr>state := IPCBUF_WCHANGE, xfer := 0\<rparr>, r0)"
      "nbufs r0 = nb" "attach_readers (ipcio_open (CHR ''R'')) n ?h (\<lambda>_. ?h, r0) = Some (rds, r)" and
    rel: "\<And>w. state w = IPCBUF_WCHANGE \<Longrightarrow> xfer w = 0 \<Longrightarrow>
       ring_rel \<lparr>wr = w, rd = rds, rg = r, holds = (\<lambda>_. False)\<rparr> empty_stream" and
    r: "nbufs r = nb" "bufsz r = bz" "n_readers r = n" "w_buf_curr r = 0" "w_buf_next r = 0" and
    rds: "\<forall>i < n. rds i = opened_as (CHR ''R'') nb (?h\<lparr>iread := int i, state := IPCBUF_READER, xfer := 0\<rparr>)"
    by (rule locked_ring [where lock = "ipcio_open (CHR ''R'')" and post = "opened_as (CHR ''R'') nb"
        and key = key, OF assms(1,2,4) h(1,2) open_init(1) [OF refl]])
      (assumption, assumption, simp, rule that, assumption+)
  let ?w = "opened_as (CHR ''W'') nb (?h\<lparr>state := IPCBUF_WCHANGE, xfer := 0\<rparr>)"
  let ?s = "\<lparr>wr = ?w, rd = rds, rg = r, holds = (\<lambda>_. False)\<rparr>"
  have "io_rel ?s empty_stream (([], []), \<lambda>_. ([], []))"
    using rel [of ?w] h r rds assms(2)
    by (simp add: io_rel_def writer_io_def held_def pending_def empty_stream_def taken_def part_read_def
        reader_io_def)
  moreover have "start_io key nb bz n = Some ?s"
    using create_connect(1,2) [OF assms(2,3,4), where key = key and h = IPCIO_INIT]
      create_connect(3) [OF assms(2,3,4), of key] l open_init(2) [OF refl l(1,2)]
    by (simp add: start_io_def ipcio_create_def ipcio_connect_def)
  ultimately show ?thesis using r h(7) by (intro exI [of _ ?s]) simp
qed

text \<open>The states the system reaches from the start by a list of events.\<close>

definition io_reachable :: "key_t \<Rightarrow> u64 \<Rightarrow> u64 \<Rightarrow> nat \<Rightarrow> io_event list \<Rightarrow> unit ipcio_ext sys \<Rightarrow> bool" where
  "io_reachable key nb bz n es s \<longleftrightarrow> nb \<noteq> 0 \<and> bz \<noteq> 0 \<and> unat nb \<le> 65526 \<and> n \<le> 8 \<and>
     (\<exists>s0. start_io key nb bz n = Some s0 \<and> run io_step s0 es s)"

lemma io_reachableD:
  assumes "io_reachable key nb bz n es s"
  obtains a where "io_rel s a (written es, \<lambda>i. read_by i es)" "\<And>i. behind (read_by i es) (written es)"
proof -
  from assms obtain s0 where s0: "start_io key nb bz n = Some s0" and run: "run io_step s0 es s"
    and b: "nb \<noteq> 0" "bz \<noteq> 0" "unat nb \<le> 65526" "n \<le> 8" by (auto simp: io_reachable_def)
  from start_io_rel [OF b, of key] s0
  have "\<exists>a. io_rel s0 a (([], []), \<lambda>_. ([], []))" by auto
  from io_sim.run_simulates [OF run this] obtain h a where
    sp: "run io_spec_step (([], []), \<lambda>_. ([], [])) es h" and a: "io_rel s a h" by blast
  obtain W R where h: "h = (W, R)" by fastforce
  from io_spec_run [OF sp [unfolded h]]
  have "W = written es" "R = (\<lambda>i. read_by i es)" "\<And>i. behind (R i) W" by auto
  with a h that show thesis by simp
qed

section \<open>A concrete run\<close>

definition exec_io ::
  "key_t \<Rightarrow> u64 \<Rightarrow> u64 \<Rightarrow> nat \<Rightarrow> io_call list \<Rightarrow> (io_event list \<times> unit ipcio_ext sys) option" where
  "exec_io key nb bz n cs =
    (case start_io key nb bz n of None \<Rightarrow> None | Some s \<Rightarrow> run_io cs s)"

lemma exec_io_reachable:
  "exec_io key nb bz n cs = Some (es, s) \<Longrightarrow> nb \<noteq> 0 \<Longrightarrow> bz \<noteq> 0 \<Longrightarrow> unat nb \<le> 65526 \<Longrightarrow> n \<le> 8 \<Longrightarrow>
    io_reachable key nb bz n es s"
  by (auto simp: exec_io_def io_reachable_def split: option.splits dest: run_io_run)

text \<open>
  One reader, two blocks of two bytes: three bytes are written in two blocks, the reader has
  read the first two, and its next call gets the third and the end of the transfer.
\<close>

definition io_demo :: "io_event list" where
  "io_demo = [Wrote [1, 2, 3], Finished, Got 0 [1, 2] False]"

definition io_demo_ok :: "unit ipcio_ext sys \<Rightarrow> bool" where
  "io_demo_ok s \<longleftrightarrow> map_option fst (io_exec (Read 0 5) s) = Some (Got 0 [3] True)"

lemma io_demo_run:
  "map_option (\<lambda>(es, s). (es, io_demo_ok s))
     (exec_io 56026 2 2 1 [Write [1, 2, 3], Finish, Read 0 2]) = Some (io_demo, True)"
  by code_simp

lemma io_demo_reachable:
  obtains s s' where "io_reachable 56026 2 2 1 io_demo s" "io_exec (Read 0 5) s = Some (Got 0 [3] True, s')"
proof -
  from io_demo_run obtain s
    where e: "exec_io 56026 2 2 1 [Write [1, 2, 3], Finish, Read 0 2] = Some (io_demo, s)"
      and ok: "io_demo_ok s"
    by auto
  have "io_reachable 56026 2 2 1 io_demo s" by (rule exec_io_reachable [OF e]) simp_all
  with ok that show thesis by (auto simp: io_demo_ok_def)
qed

end
