(* ===== verification/Ipcio_Loops.thy ===== *)
theory Ipcio_Loops
  imports Ipcio_Reading
begin

text \<open>
  The loops of \<open>ipcio_write\<close> and \<open>ipcio_read\<close> end: a turn of the first copies a byte, a turn of the
  second that does not end the call takes a block from FULL. More fuel than the models give
  the loops changes nothing, so that a result \<open>Wait\<close> of a call is a call that sleeps in
  \<open>semop\<close>.
\<close>

section \<open>The loops end\<close>

text \<open>No call of the writer changes the size of the blocks or the block at which its clock started.\<close>

abbreviation fixed_is :: "u64 \<Rightarrow> u64 \<Rightarrow> ('h, 'r) buf_st \<Rightarrow> bool" where
  "fixed_is z y s \<equiv> bufsz (snd s) = z \<and> soclock_buf (fst s) = y"

named_theorems fixed_keeps

lemma semop_fixed [fixed_keeps]: "fixed_is z y s \<Longrightarrow> keeps (fixed_is z y) (ipc_semop q c fl s)"
  by (cases s; cases q) (auto simp: ipc_semop_def split: sem_result.splits)

lemma for_semop_fixed [fixed_keeps]:
  "fixed_is z y s \<Longrightarrow> keeps (fixed_is z y) (for_loop lo n (\<lambda>i. ipc_semop (f i) c fl) s)"
  by (rule keeps_for_loop) (auto intro: fixed_keeps)

lemma for_semop_if_fixed [fixed_keeps]:
  "fixed_is z y s \<Longrightarrow>
    keeps (fixed_is z y) (for_loop lo n (\<lambda>i s. if b then ipc_semop (f i) c fl s else Done () s) s)"
  by (rule keeps_for_loop) (auto intro: fixed_keeps)

lemma reclaim_loop_fixed: "fixed_is z y s \<Longrightarrow> keeps (fixed_is z y) (reclaim_loop n b s)"
  by (induction n arbitrary: s)
    (auto simp: wait_clear_def split_def intro!: keeps_andthen fixed_keeps)

lemma reclaim_fixed [fixed_keeps]: "fixed_is z y s \<Longrightarrow> keeps (fixed_is z y) (reclaim b s)"
  by (cases s) (auto simp: reclaim_def intro: reclaim_loop_fixed)

lemma enable_sod_fixed [fixed_keeps]:
  "fixed_is z y s \<Longrightarrow> keeps (fixed_is z y) (ipcbuf_enable_sod b c s)"
  by (cases s)
    (auto simp: ipcbuf_enable_sod_def Let_def intro!: keeps_andthen fixed_keeps)

lemma get_next_write_fixed [fixed_keeps]:
  "fixed_is z y s \<Longrightarrow> keeps (fixed_is z y) (ipcbuf_get_next_write s)"
  by (cases s)
    (auto simp: ipcbuf_get_next_write_def Let_def intro!: keeps_andthen fixed_keeps)

lemma mark_filled_fixed [fixed_keeps]:
  "fixed_is z y s \<Longrightarrow> keeps (fixed_is z y) (ipcbuf_mark_filled n s)"
  by (cases s)
    (auto simp: ipcbuf_mark_filled_def Let_def intro!: keeps_andthen fixed_keeps)

lemma check_pending_sod_fixed [fixed_keeps]:
  "fixed_is z y s \<Longrightarrow> keeps (fixed_is z y) (ipcio_check_pending_sod s)"
  by (cases s)
    (auto simp: ipcio_check_pending_sod_def Let_def intro!: keeps_andthen fixed_keeps)


lemma flush_full_fixed [fixed_keeps]: "fixed_is z y s \<Longrightarrow> keeps (fixed_is z y) (flush_full s)"
  by (auto simp: flush_full_def split_def intro!: keeps_andthen fixed_keeps)

lemma open_next_fixed [fixed_keeps]: "fixed_is z y s \<Longrightarrow> keeps (fixed_is z y) (open_next s)"
  by (auto simp: open_next_def split_def intro!: keeps_andthen fixed_keeps)

lemma put_bytes_fixed [fixed_keeps]: "fixed_is z y s \<Longrightarrow> keeps (fixed_is z y) (put_bytes d s)"
  by (auto simp: put_bytes_def copy_in_def Let_def split: prod.splits option.splits)

lemma write_turn_fixed [fixed_keeps]: "fixed_is z y s \<Longrightarrow> keeps (fixed_is z y) (write_turn d s)"
  by (auto simp: write_turn_def intro!: keeps_andthen fixed_keeps)

text \<open>A turn of the loop of \<open>ipcio_write\<close> copies at least one byte.\<close>

lemma write_turn_progress:
  assumes z: "fixed_is z y s" "z \<noteq> 0" and d: "d \<noteq> []" and t: "write_turn d s = Done k s'"
  shows "0 < k" "fixed_is z y s'"
proof -
  from t obtain s1 s2 where 1: "flush_full s = Done () s1"
    and 2: "(if curbuf (fst s1) = None then open_next s1 else Done () s1) = Done () s2"
    and 3: "put_bytes d s2 = Done k s'"
    by (auto simp: write_turn_def outcome_simps)
  have z1: "fixed_is z y s1" using flush_full_fixed [OF z(1)] 1 by simp
  have b1: "bytes (fst s1) \<noteq> z"
    using 1 z by (auto simp: flush_full_def outcome_simps split: if_splits)
  have z2: "fixed_is z y s2" and b2: "bytes (fst s2) \<noteq> z"
    using 2 z1 b1 z(2) open_next_fixed [OF z1] by (auto simp: open_next_def outcome_simps split: if_splits)
  have "unat (z - bytes (fst s2)) \<noteq> 0" using b2 by (simp add: unat_eq_zero)
  then obtain m where m: "min (unat (z - bytes (fst s2))) (length d) = Suc m"
    using d by (metis gr0_conv_Suc length_greater_0_conv min_less_iff_conj gr_zeroI)
  then show "0 < k"
    using 3 z2 by (auto simp: put_bytes_def copy_in_def Let_def split_def split: option.splits if_splits)
  show "fixed_is z y s'" using write_turn_fixed [OF z(1), of d] t by simp
qed

lemma write_loop_fuel:
  "fixed_is z y s \<Longrightarrow> z \<noteq> 0 \<Longrightarrow> length d \<le> n \<Longrightarrow> write_loop n d s = write_loop (length d) d s"
proof (induction n arbitrary: d s rule: less_induct)
  case (less n)
  show ?case
  proof (cases "d = []")
    case True
    then show ?thesis by (simp add: write_loop.simps)
  next
    case False
    then obtain l where l: "length d = Suc l" by (cases d) auto
    with less.prems obtain m where m: "n = Suc m" "l \<le> m" by (cases n) auto
    have "write_loop m (drop k d) s' = write_loop l (drop k d) s'" if t: "write_turn d s = Done k s'" for k s'
    proof -
      note P = write_turn_progress [OF less.prems(1,2) False t]
      then have "length (drop k d) \<le> l" using l by simp
      then show ?thesis
        using less.IH [of m s' "drop k d"] less.IH [of l s' "drop k d"] P(2) m less.prems(2) by simp
    qed
    then have "andthen (write_turn d s) (\<lambda>k s. write_loop m (drop k d) s) =
        andthen (write_turn d s) (\<lambda>k s. write_loop l (drop k d) s)"
      by (cases "write_turn d s") auto
    then show ?thesis using False by (simp add: l m write_loop.simps [of "Suc _"])
  qed
qed


text \<open>
  A turn of the loop of \<open>ipcio_read\<close> copies all that is asked for or finishes a block, and opens a
  block only by taking one from FULL.
\<close>

definition full_count :: "('h, 'r) buf_st \<Rightarrow> nat" where
  "full_count = (\<lambda>(h, r). sem_data r (nat (iread h)) IPCBUF_FULL)"

definition reads_ring :: "('h, 'r) io_st \<Rightarrow> bool" where
  "reads_ring s \<longleftrightarrow> rdwrt (fst s) = CHR ''R'' \<and> ipcbuf_is_reader s"

lemma open_read_full:
  assumes s: "reads_ring s" and f: "open_read s = Done u s'"
  shows "reads_ring s'"
    "full_count s = full_count s' + of_bool (curbuf (fst s) = None)" "iread (fst s') = iread (fst s)"
proof -
  obtain h r where hr: "s = (h, r)" by fastforce
  have "reads_ring s' \<and> full_count s = full_count s' + of_bool (curbuf (fst s) = None) \<and>
    iread (fst s') = iread (fst s)"
  proof (cases "curbuf h = None")
    case False
    then show ?thesis using f s by (auto simp: open_read_def hr)
  next
    case True
    with f obtain p h1 r1 where g: "ipcbuf_get_next_read (h, r) = Done p (h1, r1)"
      and s': "s' = (h1\<lparr>curbuf := Some (rp_block p, rp_offset p), curbufsz := rp_bytes p, bytes := 0\<rparr>, r1)"
      by (auto simp: open_read_def hr outcome_simps)
    have rd: "ipcbuf_is_reader (h, r)" using s by (simp add: reads_ring_def hr)
    note eff = get_next_read_Done [OF g rd]
    consider "state h = IPCBUF_READING" | "state h = IPCBUF_READER"
      using rd eff(1) by (auto simp: ipcbuf_is_reader_def)
    then show ?thesis
    proof cases
      case 1
      then show ?thesis using True s eff(3) eff(4) [OF 1]
        by (simp add: s' hr reads_ring_def full_count_def ipcbuf_is_reader_def sem_data_add_one)
    next
      case 2
      then show ?thesis using True s eff(3) eff(5) [OF 2]
        by (simp add: s' hr reads_ring_def full_count_def ipcbuf_is_reader_def sem_data_add_one)
    qed
  qed
  then show "reads_ring s'" "full_count s = full_count s' + of_bool (curbuf (fst s) = None)"
    "iread (fst s') = iread (fst s)" by simp_all
qed

lemma get_bytes_full:
  assumes "get_bytes p n s = Done (k, d) s'"
  shows "reads_ring s' = reads_ring s" "full_count s' = full_count s" "iread (fst s') = iread (fst s)"
    "k = n \<or> bytes (fst s') = curbufsz (fst s')"
proof -
  obtain h r where hr: "s = (h, r)" by fastforce
  from assms have k: "k = min (unat (curbufsz h - bytes h)) n" and s': "s' = (h\<lparr>bytes := bytes h + of_nat k\<rparr>, r)"
    by (auto simp: get_bytes_def hr Let_def split: if_splits option.splits)
  show "reads_ring s' = reads_ring s" "full_count s' = full_count s" "iread (fst s') = iread (fst s)"
    by (simp_all add: s' hr reads_ring_def full_count_def ipcbuf_is_reader_def)
  show "k = n \<or> bytes (fst s') = curbufsz (fst s')"
    by (cases "k = n") (simp_all add: s' k min_def split: if_splits)
qed

lemma finish_block_full:
  assumes s: "reads_ring s" and f: "finish_block s = Done u s'"
  shows "reads_ring s'" "full_count s' = full_count s" "iread (fst s') = iread (fst s)"
    "bytes (fst s) = curbufsz (fst s) \<Longrightarrow> curbuf (fst s') = None"
  using s f
  by (cases s; auto simp: finish_block_def outcome_simps reads_ring_def full_count_def ipcbuf_is_reader_def
      ipcbuf_mark_cleared_def ipc_semop_Data sem_data_add_one Let_def split: if_splits)+

lemma read_turn_full:
  assumes s: "reads_ring s" and t: "read_turn p n s = Done (k, d) s'"
  shows "reads_ring s'" "full_count s = full_count s' + of_bool (curbuf (fst s) = None)"
    "k = n \<or> curbuf (fst s') = None"
proof -
  from t obtain s1 s2 where 1: "open_read s = Done () s1" and 2: "get_bytes p n s1 = Done (k, d) s2"
    and 3: "finish_block s2 = Done () s'"
    by (auto simp: read_turn_def outcome_simps)
  note o1 = open_read_full [OF s 1] and g = get_bytes_full [OF 2]
  have s2: "reads_ring s2" using o1 g by simp
  note f = finish_block_full [OF s2 3]
  show "reads_ring s'" "full_count s = full_count s' + of_bool (curbuf (fst s) = None)"
    "k = n \<or> curbuf (fst s') = None"
    using o1 g f by auto
qed

text \<open>More turns than FULL counts, and one or two more, are never made.\<close>

lemma read_loop_fuel:
  "reads_ring s \<Longrightarrow> full_count s + 1 + of_bool (curbuf (fst s) \<noteq> None) \<le> m \<Longrightarrow>
    full_count s + 1 + of_bool (curbuf (fst s) \<noteq> None) \<le> m' \<Longrightarrow> read_loop m p n s = read_loop m' p n s"
proof (induction m arbitrary: m' n s rule: less_induct)
  case (less m)
  from less.prems obtain l l' where m: "m = Suc l" "m' = Suc l'" by (cases m; cases m') auto
  have step: "(case x of (k, d) \<Rightarrow> if n - k = 0 then Done (k, d) s'
       else andthen (read_loop l p (n - k) s') (\<lambda>(k', d'). Done (k + k', d @ d'))) =
      (case x of (k, d) \<Rightarrow> if n - k = 0 then Done (k, d) s'
       else andthen (read_loop l' p (n - k) s') (\<lambda>(k', d'). Done (k + k', d @ d')))"
    if t: "read_turn p n s = Done x s'" for x s'
  proof -
    obtain k d where x: "x = (k, d)" by fastforce
    note T = read_turn_full [OF less.prems(1) t [unfolded x]]
    show ?thesis
    proof (cases "k = n")
      case False
      then have c: "curbuf (fst s') = None" using T(3) by blast
      have "full_count s' + 1 \<le> l" "full_count s' + 1 \<le> l'"
        using T(2) less.prems(2,3) m by (cases "curbuf (fst s)"; simp)+
      then have "read_loop l p (n - k) s' = read_loop l' p (n - k) s'"
        using c T(1) m by (intro less.IH) simp_all
      then show ?thesis by (simp add: x)
    qed (simp add: x)
  qed
  have "andthen (read_turn p n s) (\<lambda>x s'. case x of (k, d) \<Rightarrow> if n - k = 0 then Done (k, d) s'
       else andthen (read_loop l p (n - k) s') (\<lambda>(k', d'). Done (k + k', d @ d'))) =
      andthen (read_turn p n s) (\<lambda>x s'. case x of (k, d) \<Rightarrow> if n - k = 0 then Done (k, d) s'
       else andthen (read_loop l' p (n - k) s') (\<lambda>(k', d'). Done (k + k', d @ d')))"
    using step by (cases "read_turn p n s") auto
  then show ?case by (simp add: m read_loop.simps [of "Suc _"] split_def)
qed

end
