(* ===== verification/Ipcio_Waits.thy ===== *)
theory Ipcio_Waits
  imports Ipcio_Start Ipcio_Loops Ring_Progress
begin

text \<open>
  When a writer sleeps. In a ring in use \<open>ipcio_write\<close> never fails and its behaviour is always defined; it
  sleeps only for a reader that is behind: by all the blocks of the ring, or by the eight transfers the ring
  keeps the ends of.
\<close>

section \<open>Semaphores that are taken\<close>

definition slow_reader :: "'r ring_scheme \<Rightarrow> bool" where
  "slow_reader r \<longleftrightarrow> (\<exists>i < n_readers r.
     unat (r_bufs r i) + unat (nbufs r) \<le> unat (w_buf_next r) \<or>
     unat (r_xfers r i) + 8 \<le> unat (w_xfer r))"

lemma slow_reader_add_sem [simp]: "slow_reader (add_sem lo hi q c r) = slow_reader r"
  by (simp add: slow_reader_def)

lemma slow_reader_count [simp]: "slow_reader (r\<lparr>count := c\<rparr>) = slow_reader r"
  by (simp add: slow_reader_def)

lemma semop_take:
  "ipc_semop (Data i q) (-1) 0 (h, r) =
    (if sem_data r i q = 0 then Wait (h, r) else Done () (h, add_sem i (Suc i) q (-1) r))"
  using ipc_semop_Data [of "-1" i q 0 h r "()" "(h, add_sem i (Suc i) q (-1) r)"]
  by (auto simp: ipc_semop_def semop_def)

text \<open>A loop of single decrements sleeps at a reader whose semaphore is 0.\<close>

lemma take_loop_sleeps:
  "sleeps_only (\<lambda>(h', r'). \<exists>i < lo + n. lo \<le> i \<and> sem_data r i q = 0 \<and> r' = add_sem lo i q (-1) r)
    (for_loop lo n (\<lambda>i. ipc_semop (Data i q) (-1) 0) (h, r))"
proof (induction n arbitrary: lo r)
  case (Suc n)
  show ?case
  proof (cases "sem_data r lo q = 0")
    case True
    then show ?thesis by (auto simp: semop_take intro!: exI [of _ lo])
  next
    case False
    let ?r = "add_sem lo (Suc lo) q (-1) r"
    have "sleeps_only (\<lambda>(h', r'). \<exists>i < lo + Suc n. lo \<le> i \<and> sem_data r i q = 0 \<and> r' = add_sem lo i q (-1) r)
      (for_loop (Suc lo) n (\<lambda>i. ipc_semop (Data i q) (-1) 0) (h, ?r))"
      by (rule sleeps_only_mono [OF Suc.IH [of "Suc lo" ?r]])
        (force simp: sem_data_add_one add_sem_Suc)
    then show ?thesis using False by (simp add: semop_take)
  qed
qed simp

lemma reclaim_sleeps:
  assumes "unat (count r b) \<le> 1"
  shows "sleeps_only (\<lambda>(h', r'). unat (count r b) = 1 \<and> (\<exists>i < n_readers r. sem_data r i IPCBUF_CLEAR = 0 \<and>
      r' = add_sem 0 i IPCBUF_CLEAR (-1) r)) (reclaim b (h, r))"
proof (cases "count r b = 0")
  case True
  then show ?thesis by (simp add: reclaim_def)
next
  case False
  with assms have one: "unat (count r b) = 1" by (simp add: unat_eq_zero le_Suc_eq)
  have "sleeps_only (\<lambda>(h', r'). \<exists>i < n_readers r. sem_data r i IPCBUF_CLEAR = 0 \<and>
      r' = add_sem 0 i IPCBUF_CLEAR (-1) r) (wait_clear (h, r))"
    using take_loop_sleeps [of 0 "n_readers r" r IPCBUF_CLEAR h] by (simp add: wait_clear_def)
  then show ?thesis by (cases "wait_clear (h, r)") (auto simp: reclaim_def one split: prod.splits)
qed

text \<open>The start of a transfer where the writer stands.\<close>

lemma sod_min_here:
  assumes "soclock_buf h \<le> w_buf_next r" "nbufs r \<noteq> 0"
  shows "ipcbuf_get_sod_minbuf (h, r) \<le> w_buf_next r"
proof (cases "w_buf_next r - soclock_buf h < nbufs r")
  case False
  then have "nbufs r \<le> w_buf_next r - soclock_buf h" by simp
  also have "w_buf_next r - soclock_buf h \<le> w_buf_next r"
    using assms(1) by (simp add: word_sub_le)
  finally have le: "nbufs r \<le> w_buf_next r" .
  have "unat (w_buf_next r - nbufs r) = unat (w_buf_next r) - unat (nbufs r)" by (rule unat_sub [OF le])
  moreover have "0 < unat (nbufs r)" "unat (nbufs r) \<le> unat (w_buf_next r)"
    using assms(2) le by (simp_all add: unat_gt_0 word_le_nat_alt)
  ultimately have less: "unat (w_buf_next r - nbufs r) < unat (w_buf_next r)" by linarith
  then have "unat (w_buf_next r - nbufs r + 1) = Suc (unat (w_buf_next r - nbufs r))"
    using unat_u64_bound [of "w_buf_next r"] by (intro unat_add1) simp
  with less False show ?thesis by (simp add: ipcbuf_get_sod_minbuf_def Let_def word_le_nat_alt)
qed (use assms in \<open>simp add: ipcbuf_get_sod_minbuf_def Let_def\<close>)

lemma enable_sod_sleeps:
  assumes "state h = IPCBUF_WCHANGE" "w_buf_next r = w_buf_curr r" "soclock_buf h \<le> w_buf_curr r" "nbufs r \<noteq> 0"
  shows "sleeps_only (\<lambda>(h', r'). \<exists>i < n_readers r. sem_data r i IPCBUF_SODACK = 0 \<and>
      r' = add_sem 0 i IPCBUF_SODACK (-1) r) (ipcbuf_enable_sod (w_buf_curr r) 0 (h, r))"
proof -
  have "\<not> w_buf_curr r < ipcbuf_get_sod_minbuf (h, r)"
    using sod_min_here [of h r] assms by simp
  then have "ipcbuf_enable_sod (w_buf_curr r) 0 (h, r) =
    andthen (for_loop 0 (n_readers r) (\<lambda>i. ipc_semop (Data i IPCBUF_SODACK) (-1) 0) (h, r)) (\<lambda>_ (id, r).
       let x = slot (w_xfer r);
           id = id\<lparr>xfer := w_xfer r mod IPCBUF_XFERS\<rparr>;
           r = r\<lparr>s_buf := (s_buf r)(x := w_buf_curr r), s_byte := (s_byte r)(x := 0)\<rparr>;
           r = (if w_buf_curr r = 0 then r\<lparr>eod := (eod r)(x := False)\<rparr> else r)
       in Done () (id\<lparr>state := IPCBUF_WRITING\<rparr>, r\<lparr>w_state := IPCBUF_WRITING\<rparr>))"
    using assms
    by (auto simp: ipcbuf_enable_sod_def Let_def bump_counts.simps [of _ "w_buf_curr _"] semop_loop0 intro!: andthen_cong)
  then show ?thesis
    using take_loop_sleeps [of 0 "n_readers r" r IPCBUF_SODACK h]
    by (auto simp: Let_def split: prod.splits intro!: sleeps_only_andthen)
qed

lemma reader_positions:
  assumes rel: "ring_rel s a" and i: "i < n_readers (rg s)"
  shows "unat (r_bufs (rg s) i) = got a i" "unat (r_xfers (rg s) i) = ends (posted a) (got a i)"
    "unat (w_xfer (rg s)) = ends (posted a) (length (posted a))"
proof -
  note w = ring_relD(1) [OF rel]
  have g: "got a i \<le> length (posted a)" by (rule reader_window(2) [OF rel i])
  have P: "length (posted a) < 2 ^ 64" by (rule writer_relD(1) [OF w])
  have "ends (posted a) (got a i) < 2 ^ 64" "ends (posted a) (length (posted a)) < 2 ^ 64"
    using writer_relD(4) [OF w, of "got a i"] writer_relD(4) [OF w, of "length (posted a)"] g by auto
  then show "unat (r_bufs (rg s) i) = got a i" "unat (r_xfers (rg s) i) = ends (posted a) (got a i)"
    "unat (w_xfer (rg s)) = ends (posted a) (length (posted a))"
    using ring_relD(8) [OF rel i] w g P by (simp_all add: reader_rel_def writer_rel_def)
qed

lemma reclaim_slow:
  assumes rel: "ring_rel s a" and N: "unat (w_buf_next (rg s)) < unat (w_buf_curr (rg s)) + unat (nbufs (rg s))"
  shows "sleeps_only (\<lambda>(h, r). slow_reader r) (reclaim (block (rg s) (w_buf_next (rg s))) (wr s, rg s))"
proof -
  let ?r = "rg s"
  let ?b = "block ?r (w_buf_next ?r)"
  note wD = writer_relD [OF ring_relD(1) [OF rel]]
  have c: "unat (count ?r ?b) = of_bool (unat (nbufs ?r) \<le> unat (w_buf_next ?r))"
    unfolding block_unat using wD N by (intro count_next [OF ring_relD(5) [OF rel]]) simp_all
  have "slow_reader ?r" if "unat (count ?r ?b) = 1" "i < n_readers ?r" "sem_data ?r i IPCBUF_CLEAR = 0" for i
  proof -
    have "unat (nbufs ?r) \<le> unat (w_buf_next ?r)"
    proof (rule ccontr)
      assume "\<not> unat (nbufs ?r) \<le> unat (w_buf_next ?r)"
      then show False using c that(1) by simp
    qed
    then have "got a i + unat (nbufs ?r) = unat (w_buf_next ?r)"
      using reader_window(1) [OF rel that(2)] that(3) by (simp add: first_kept_def)
    then show ?thesis
      using reader_positions(1) [OF rel that(2)] that(2) by (auto simp: slow_reader_def)
  qed
  then show ?thesis
    using c by (intro sleeps_only_mono [OF reclaim_sleeps]) (auto split: if_splits)
qed

lemma start_slow:
  assumes rel: "ring_rel s a" and st: "state (wr s) = IPCBUF_WCHANGE" "w_buf_next (rg s) = w_buf_curr (rg s)"
    and so: "soclock_buf (wr s) \<le> w_buf_curr (rg s)"
  shows "sleeps_only (\<lambda>(h, r). slow_reader r) (ipcbuf_enable_sod (w_buf_curr (rg s)) 0 (wr s, rg s))"
proof -
  let ?r = "rg s"
  have nb: "nbufs ?r \<noteq> 0" using ring_relD(1) [OF rel] by (simp add: writer_rel_def)
  have "slow_reader ?r" if "i < n_readers ?r" "sem_data ?r i IPCBUF_SODACK = 0" for i
  proof -
    have "\<not> transfer_open (wr s, ?r)" using st by (simp add: transfer_open_def)
    then have "8 + ends (posted a) (got a i) \<le> ends (posted a) (length (posted a))"
      using ring_relD(8) [OF rel that(1)] that(2) by (simp add: reader_rel_def)
    then show ?thesis
      using reader_positions(2,3) [OF rel that(1)] that(1) by (auto simp: slow_reader_def)
  qed
  then show ?thesis
    by (intro sleeps_only_mono [OF enable_sod_sleeps [OF st so nb]]) auto
qed

lemma get_next_write_slow:
  assumes rel: "ring_rel s a" and mo: "may_open (wr s, rg s)" and so: "soclock_buf (wr s) \<le> w_buf_curr (rg s)"
  shows "sleeps_only (\<lambda>(h, r). slow_reader r) (ipcbuf_get_next_write (wr s, rg s))"
proof -
  let ?r = "rg s" and ?h = "wr s"
  have nb: "nbufs ?r \<noteq> 0" using ring_relD(1) [OF rel] by (simp add: writer_rel_def)
  have w: "ipcbuf_is_writer (?h, ?r)" using mo by (auto simp: may_open_def ipcbuf_is_writer_def)
  have 1: "sleeps_only (\<lambda>(h, r). slow_reader r)
      (if state ?h = IPCBUF_WCHANGE then fail_as 0 (ipcbuf_enable_sod (w_buf_curr ?r) 0 (?h, ?r))
       else Done () (?h, ?r))"
    using mo by (auto simp: may_open_def intro!: start_slow [OF rel _ _ so])
  have 2: "sleeps_only (\<lambda>(h, r). slow_reader r) (reclaim (block r' (w_buf_next r')) (h', r')) \<and> nbufs r' \<noteq> 0"
    if "(if state ?h = IPCBUF_WCHANGE then fail_as 0 (ipcbuf_enable_sod (w_buf_curr ?r) 0 (?h, ?r))
       else Done () (?h, ?r)) = Done u (h', r')" for u h' r'
  proof -
    have "ring_rel (s\<lparr>wr := h', rg := r'\<rparr>) a \<and> w_buf_next r' = w_buf_next ?r \<and>
      w_buf_curr r' = w_buf_curr ?r \<and> nbufs r' = nbufs ?r"
    proof (cases "state ?h = IPCBUF_WCHANGE")
      case True
      then have eq: "w_buf_next ?r = w_buf_curr ?r" using mo by (simp add: may_open_def)
      from that True have e: "ipcbuf_enable_sod (w_buf_curr ?r) 0 (?h, ?r) = Done () (h', r')" by simp
      show ?thesis using start_rel [OF rel True eq e] enable_sod_at_curr(2) [OF e] by auto
    qed (use rel that in auto)
    with reclaim_slow [of "s\<lparr>wr := h', rg := r'\<rparr>" a] mo nb show ?thesis
      by (simp add: may_open_def)
  qed
  show ?thesis
    using w 1 2 by (auto simp: ipcbuf_get_next_write_def Let_def intro!: sleeps_only_andthen)
qed

section \<open>The call\<close>

lemma flush_never_fails:
  assumes rel: "ring_rel s a" and w: "writer_io (wr s, rg s)" and nb: "unat (nbufs (rg s)) \<le> 32767"
  shows "sleeps_only (\<lambda>(h, r). False) (flush_full (wr s, rg s))"
proof (cases "bytes (wr s) = bufsz (rg s)")
  case True
  note W = writer_ioD [OF w]
  have b: "bytes (wr s) \<noteq> 0" using True W(4) by simp
  have st: "state (wr s) = IPCBUF_WRITING" using W(5,6) b by blast
  have "\<exists>e s'. ring_exec (Fill (bytes (wr s))) s = Some (e, s')"
    by (rule fill_progress [OF rel may_fill_open [OF rel w b] st True nb])
  then obtain h r where mf: "ipcbuf_mark_filled (bytes (wr s)) (wr s, rg s) = Done () (h, r)"
    by (auto split: if_splits option.splits)
  have "h = wr s" using mark_filled_Done(4) [OF mf] st b True by simp
  then show ?thesis using mf W(2) by (auto simp: flush_full_def True split: prod.splits)
qed (simp add: flush_full_def)

lemma put_bytes_ok:
  assumes rel: "ring_rel s a" and w: "writer_io (wr s, rg s)" and c: "curbuf (wr s) \<noteq> None"
  shows "sleeps_only (\<lambda>(h, r). False) (put_bytes d (wr s, rg s))"
proof -
  let ?r = "rg s" and ?h = "wr s"
  note W = writer_ioD(6) [OF w c]
  have "0 < unat (nbufs ?r)" using writer_relD(3) [OF ring_relD(1) [OF rel]] .
  then have m: "length (mem ?r (block ?r (w_buf_curr ?r))) = unat (bufsz ?r)"
    using ring_relD(6) [OF rel] by (simp add: data_rel_def block_unat)
  have "unat (bytes ?h) \<le> unat (bufsz ?r)" "unat (bufsz ?r - bytes ?h) = unat (bufsz ?r) - unat (bytes ?h)"
    using W by (simp_all add: unat_sub word_le_nat_alt)
  then show ?thesis using W m by (auto simp: put_bytes_def copy_in_def Let_def)
qed

lemma open_next_slow:
  assumes rel: "ring_rel s a" and w: "writer_io (wr s, rg s)" and c: "curbuf (wr s) = None"
    and N: "w_buf_next (rg s) < - 1" and so: "soclock_buf (wr s) \<le> w_buf_curr (rg s)"
  shows "sleeps_only (\<lambda>(h, r). slow_reader r) (open_next (wr s, rg s))"
proof -
  have "may_open (wr s, rg s)"
    using writer_ioD(5) [OF w c] N writer_relD(3) [OF ring_relD(1) [OF rel]] by (auto simp: may_open_def)
  from get_next_write_slow [OF rel this so] show ?thesis
    by (auto simp: open_next_def split: prod.splits intro!: sleeps_only_andthen)
qed

lemma write_turn_slow:
  assumes rel: "ring_rel s a" and w: "writer_io (wr s, rg s)" and nb: "unat (nbufs (rg s)) \<le> 32767"
    and N: "w_buf_next (rg s) < - 1" and so: "soclock_buf (wr s) \<le> w_buf_curr (rg s)"
  shows "sleeps_only (\<lambda>(h, r). slow_reader r) (write_turn d (wr s, rg s))"
  unfolding write_turn_def
proof (rule sleeps_only_andthen)
  show "sleeps_only (\<lambda>(h, r). slow_reader r) (flush_full (wr s, rg s))"
    by (rule sleeps_only_mono [OF flush_never_fails [OF rel w nb]]) auto
next
  fix u t assume "flush_full (wr s, rg s) = Done u t"
  then obtain h1 r1 where t: "t = (h1, r1)" and 1: "flush_full (wr s, rg s) = Done () (h1, r1)"
    by (cases t) auto
  let ?s1 = "s\<lparr>wr := h1, rg := r1\<rparr>"
  from 1 obtain a' where w1: "writes s a [] ?s1 a'" and n1: "w_buf_next r1 = w_buf_next (rg s)"
    by (rule flush_writes [OF rel w])
  then have i1: "ring_rel ?s1 a'" "writer_io (wr ?s1, rg ?s1)" by (simp_all add: writes_defs)
  have "soclock_buf h1 = soclock_buf (wr s)"
    using flush_full_fixed [of "(wr s, rg s)" "bufsz (rg s)" "soclock_buf (wr s)"] 1 by simp
  moreover have "w_buf_curr (rg s) \<le> w_buf_curr r1"
  proof -
    have "length (posted a) \<le> length (posted a')" using w1 by (simp add: writes_defs prefix_length_le)
    then show ?thesis
      using writer_relD(2) [OF ring_relD(1) [OF rel]] writer_relD(2) [OF ring_relD(1) [OF i1(1)]]
      by (simp add: word_le_nat_alt)
  qed
  ultimately have so1: "soclock_buf h1 \<le> w_buf_curr r1" using so by (metis order_trans)
  show "sleeps_only (\<lambda>(h, r). slow_reader r)
      (andthen (if curbuf (fst t) = None then open_next t else Done () t) (\<lambda>_. put_bytes d))"
  proof (rule sleeps_only_andthen)
    show "sleeps_only (\<lambda>(h, r). slow_reader r) (if curbuf (fst t) = None then open_next t else Done () t)"
      using open_next_slow [OF i1] so1 n1 N by (simp add: t)
  next
    fix v t2 assume 2: "(if curbuf (fst t) = None then open_next t else Done () t) = Done v t2"
    obtain h2 r2 where t2: "t2 = (h2, r2)" by fastforce
    have "ring_rel (s\<lparr>wr := h2, rg := r2\<rparr>) a' \<and> writer_io (h2, r2) \<and> curbuf h2 \<noteq> None"
    proof (cases "curbuf h1 = None")
      case True
      then have o: "open_next (wr ?s1, rg ?s1) = Done v (h2, r2)" using 2 by (simp add: t t2)
      have N1: "w_buf_next (rg ?s1) < - 1" and c1: "curbuf (wr ?s1) = None" using N n1 True by simp_all
      show ?thesis using open_next_writes(1,2) [OF i1 c1 N1 o] by (simp add: writes_defs)
    qed (use 2 i1 in \<open>auto simp: t t2\<close>)
    then have "sleeps_only (\<lambda>(h, r). False) (put_bytes d t2)"
      using put_bytes_ok [of "s\<lparr>wr := h2, rg := r2\<rparr>" a'] by (simp add: t2)
    then show "sleeps_only (\<lambda>(h, r). slow_reader r) (put_bytes d t2)"
      by (rule sleeps_only_mono) auto
  qed
qed

lemma write_loop_slow:
  assumes "ring_rel s a" "writer_io (wr s, rg s)" "unat (nbufs (rg s)) \<le> 32767"
    "unat (w_buf_next (rg s)) + length d < 2 ^ 64 - 1" "soclock_buf (wr s) \<le> w_buf_curr (rg s)"
    "length d \<le> n"
  shows "sleeps_only (\<lambda>(h, r). slow_reader r) (write_loop n d (wr s, rg s))"
  using assms
proof (induction n arbitrary: d s a)
  case 0
  then show ?case by (simp add: write_loop.simps)
next
  case (Suc n)
  show ?case
  proof (cases "d = []")
    case False
    have N: "w_buf_next (rg s) < - 1"
      using Suc.prems(4) by (simp add: word_less_nat_alt unsigned_minus_1_eq_mask mask_eq_exp_minus_1)
    note turn = write_turn_slow [OF Suc.prems(1-3) N Suc.prems(5)]
    have "sleeps_only (\<lambda>(h, r). slow_reader r) (write_loop n (drop k d) t)"
      if d: "write_turn d (wr s, rg s) = Done k t" for k t
    proof -
      obtain h1 r1 where t: "t = (h1, r1)" by fastforce
      let ?s1 = "s\<lparr>wr := h1, rg := r1\<rparr>"
      from write_turn_writes [OF Suc.prems(1,2) N False d [unfolded t]]
      obtain a1 where w1: "writes s a (take k d) ?s1 a1" and k: "0 < k" "k \<le> length d"
        and n1: "unat (w_buf_next r1) \<le> Suc (unat (w_buf_next (rg s)))" .
      have rel1: "ring_rel ?s1 a1" using w1 by (simp add: writes_defs)
      have "soclock_buf h1 = soclock_buf (wr s)"
        using write_turn_fixed [of "(wr s, rg s)" "bufsz (rg s)" "soclock_buf (wr s)" d] d t by simp
      moreover have "w_buf_curr (rg s) \<le> w_buf_curr r1"
        using writer_relD(2) [OF ring_relD(1) [OF Suc.prems(1)]] writer_relD(2) [OF ring_relD(1) [OF rel1]]
          w1 by (simp add: word_le_nat_alt writes_defs prefix_length_le)
      ultimately have "soclock_buf h1 \<le> w_buf_curr r1" using Suc.prems(5) by (metis order_trans)
      then have "sleeps_only (\<lambda>(h, r). slow_reader r) (write_loop n (drop k d) (wr ?s1, rg ?s1))"
        using w1 n1 k Suc.prems by (intro Suc.IH [of ?s1 a1]) (auto simp: writes_defs)
      then show ?thesis by (simp add: t)
    qed
    then show ?thesis
      using turn False by (auto simp: write_loop.simps [of "Suc n"] intro!: sleeps_only_andthen)
  qed (simp add: write_loop.simps)
qed

text \<open>A write of the system returns, or sleeps for a reader that is a ring or eight transfers behind.\<close>

lemma write_sleeps_slow:
  assumes "io_rel s a h" "unat (nbufs (rg s)) \<le> 32767" "unat (w_buf_next (rg s)) + length d < 2 ^ 64 - 1"
    "soclock_buf (wr s) \<le> w_buf_curr (rg s)"
  shows "sleeps_only (\<lambda>(h, r). slow_reader r) (ipcio_write d (wr s, rg s))"
proof -
  have i: "ring_rel s a" "writer_io (wr s, rg s)" using assms(1) by (auto simp: io_rel_def split: prod.splits)
  have "rdwrt (wr s) = CHR ''W''" using writer_ioD(1) [OF i(2)] .
  then show ?thesis
    using write_loop_slow [OF i assms(2-4) order_refl] by (simp add: ipcio_write_def sleeps_only_andthen)
qed

section \<open>In every reachable state\<close>

lemma unlock_write_fixed [fixed_keeps]: "fixed_is z y s \<Longrightarrow> keeps (fixed_is z y) (ipcbuf_unlock_write s)"
  by (cases s) (auto simp: ipcbuf_unlock_write_def Let_def intro!: keeps_andthen fixed_keeps)

lemma lock_write_fixed [fixed_keeps]: "fixed_is z y s \<Longrightarrow> keeps (fixed_is z y) (ipcbuf_lock_write s)"
  by (cases s) (auto simp: ipcbuf_lock_write_def Let_def intro!: keeps_andthen fixed_keeps)

lemma close_block_write_fixed [fixed_keeps]:
  "fixed_is z y s \<Longrightarrow> keeps (fixed_is z y) (ipcio_close_block_write n s)"
  by (cases s) (auto simp: ipcio_close_block_write_def ipcio_update_block_write_def close_oldest_def Let_def
      split: option.splits if_splits intro!: keeps_andthen fixed_keeps)

lemma close_all_fixed [fixed_keeps]: "fixed_is z y s \<Longrightarrow> keeps (fixed_is z y) (close_all n s)"
  by (induction n arbitrary: s) (auto simp: close_all.simps intro!: keeps_andthen fixed_keeps)

lemma stop_writing_fixed [fixed_keeps]: "fixed_is z y s \<Longrightarrow> keeps (fixed_is z y) (stop_writing s)"
  by (auto simp: stop_writing_def ipcbuf_enable_eod_def Let_def split_def split: prod.splits
      intro!: keeps_andthen fixed_keeps)

lemma close_writer_fixed [fixed_keeps]: "fixed_is z y s \<Longrightarrow> keeps (fixed_is z y) (close_writer s)"
  by (cases s) (auto simp: close_writer_def Let_def intro!: keeps_andthen fixed_keeps)

lemma open_write_fixed [fixed_keeps]: "fixed_is z y s \<Longrightarrow> keeps (fixed_is z y) (ipcio_open (CHR ''W'') s)"
  by (cases s) (auto simp: ipcio_open_def ipcio_alloc_def Let_def intro!: keeps_andthen fixed_keeps)

lemma finish_fixed:
  assumes "rdwrt (fst s) = CHR ''W''" "fixed_is z y s"
    "andthen (ipcio_close s) (\<lambda>_. ipcio_open (CHR ''W'')) = Done u t"
  shows "fixed_is z y t"
proof -
  have "keeps (fixed_is z y) (ipcio_close s)"
    using assms(1,2) by (auto simp: ipcio_close_def ipcio_stop_close_def intro!: keeps_andthen fixed_keeps)
  then have "keeps (fixed_is z y) (andthen (ipcio_close s) (\<lambda>_. ipcio_open (CHR ''W'')))"
    by (rule keeps_andthen) (rule open_write_fixed)
  then show ?thesis using assms(3) by simp
qed

lemma write_loop_fixed [fixed_keeps]: "fixed_is z y s \<Longrightarrow> keeps (fixed_is z y) (write_loop n d s)"
  by (induction n arbitrary: s d) (auto simp: write_loop.simps [of 0] write_loop.simps [of "Suc _"] intro!: keeps_andthen fixed_keeps)

lemma ipcio_write_fixed [fixed_keeps]: "fixed_is z y s \<Longrightarrow> keeps (fixed_is z y) (ipcio_write d s)"
  by (auto simp: ipcio_write_def intro!: keeps_andthen fixed_keeps)

text \<open>What no call changes of a ring in use.\<close>

definition io_shape :: "u64 \<Rightarrow> nat \<Rightarrow> 'h ipcio_ext sys \<Rightarrow> bool" where
  "io_shape nb n s \<longleftrightarrow> (\<exists>a h. io_rel s a h) \<and> nbufs (rg s) = nb \<and> n_readers (rg s) = n \<and> soclock_buf (wr s) = 0"

text \<open>What a reader does leaves the writer's handle and its position.\<close>

lemma reader_exec:
  assumes rel: "io_rel s a h" and ex: "io_exec c s = Some (e, s')" and c: "\<And>d. c \<noteq> Write d" "c \<noteq> Finish"
  shows "wr s' = wr s \<and> w_buf_next (rg s') = w_buf_next (rg s) \<and> nbufs (rg s') = nbufs (rg s) \<and>
    n_readers (rg s') = n_readers (rg s)"
proof (cases c)
  case (Read i m)
  with ex obtain k d u r where i: "i < n_readers (rg s)" "\<not> ipcbuf_eod (rd s i, rg s)"
    and f: "ipcio_read True m (rd s i, rg s) = Done (k, d) (u, r)" and s': "s' = set_reader i u r s"
    by (auto simp: set_reader_def split: if_splits option.splits)
  have rel': "ring_rel s a" "reader_io (rd s i) (nbufs (rg s)) (holds s i) (posted a) (got a i)"
    using rel i(1) by (auto simp: io_rel_def split: prod.splits)
  from f have "read_loop (read_fuel m (rd s i, rg s)) True m (rd s i, rg s) = Done (k, d) (u, r)"
    by (auto simp: ipcio_read_def split: if_splits)
  from read_loop_reads [OF rel'(1) i(1) rel'(2) i(2) this] show ?thesis by (auto simp: s' reads_def)
next
  case (Next i)
  with ex obtain u r where i: "i < n_readers (rg s)" "ipcbuf_eod (rd s i, rg s)"
    and f: "ipcbuf_reset (rd s i, rg s) = Done () (u, r)" and s': "s' = s\<lparr>rd := (rd s)(i := u), rg := r\<rparr>"
    by (auto split: if_splits option.splits)
  have "ring_rel s a" using rel by (auto simp: io_rel_def split: prod.splits)
  then have "state (rd s i) = IPCBUF_RSTOP"
    using ring_relD(8) [OF _ i(1)] i(2) by (fastforce simp: ipcbuf_eod_def reader_rel_def)
  then show ?thesis using f by (auto simp: s' ipcbuf_reset_def)
qed (use c in auto)

lemma io_exec_shape:
  assumes io: "io_shape nb n s" and ex: "io_exec c s = Some (e, s')"
  shows "io_shape nb n s'"
proof -
  from io obtain a h where rel: "io_rel s a h" and c0: "nbufs (rg s) = nb" "n_readers (rg s) = n" "soclock_buf (wr s) = 0"
    by (auto simp: io_shape_def)
  obtain W R where h: "h = (W, R)" by fastforce
  have "\<exists>a h. io_rel s' a h" using io_exec_simulates [OF rel [unfolded h] ex] by blast
  moreover have "nbufs (rg s') = nb \<and> n_readers (rg s') = n \<and> soclock_buf (wr s') = 0"
  proof (cases c)
    case (Write d)
    with ex obtain k u r where N: "uint (w_buf_next (rg s)) + int (length d) < 2 ^ 64 - 1"
      and f: "ipcio_write d (wr s, rg s) = Done k (u, r)" and s': "s' = s\<lparr>wr := u, rg := r\<rparr>"
      by (auto split: if_splits option.splits)
    have "int (unat (w_buf_next (rg s)) + length d) < int (2 ^ 64 - 1)" using N by simp
    then have N: "unat (w_buf_next (rg s)) + length d < 2 ^ 64 - 1" by (simp only: of_nat_less_iff)
    from f have l: "write_loop (length d) d (wr s, rg s) = Done () (u, r)"
      by (auto simp: ipcio_write_def outcome_simps split: if_splits)
    have i: "ring_rel s a" "writer_io (wr s, rg s)" using rel by (simp_all add: io_rel_def h)
    show ?thesis
      using write_loop_writes [OF i N l] ipcio_write_fixed [of "(wr s, rg s)" "bufsz (rg s)" 0 d] f c0
      by (auto simp: s' writes_defs)
  next
    case Finish
    with ex obtain u r where b: "bytes (wr s) \<noteq> 0"
      and f: "andthen (ipcio_close (wr s, rg s)) (\<lambda>_. ipcio_open (CHR ''W'')) = Done () (u, r)"
      and s': "s' = s\<lparr>wr := u, rg := r\<rparr>"
      by (auto split: if_splits option.splits)
    have i: "ring_rel s a" "writer_io (wr s, rg s)" using rel by (simp_all add: io_rel_def h)
    show ?thesis
      using finish_advances [OF i b f] finish_fixed [OF _ _ f, of "bufsz (rg s)" 0] c0 writer_ioD(1) [OF i(2)]
      by (auto simp: s' advances_def)
  qed (use reader_exec [OF rel ex] c0 ex in \<open>auto split: if_splits option.splits\<close>)
  ultimately show ?thesis by (simp add: io_shape_def)
qed

interpretation io_const: invariant_system io_step "io_shape nb n" for nb n
  by unfold_locales (auto simp: io_step_def dest: io_exec_shape)

lemma io_reachable_shape:
  assumes "io_reachable key nb bz n es s"
  shows "io_shape nb n s"
proof -
  from assms obtain s0 where s0: "start_io key nb bz n = Some s0" and run: "run io_step s0 es s"
    and b: "nb \<noteq> 0" "bz \<noteq> 0" "unat nb \<le> 65526" "n \<le> 8" by (auto simp: io_reachable_def)
  from start_io_rel [OF b, of key] s0 have "io_shape nb n s0" by (auto simp: io_shape_def)
  from io_const.run_inv [OF run this] show ?thesis .
qed

lemma write_slow:
  assumes "io_shape nb n s" "unat nb \<le> 32767" "unat (w_buf_next (rg s)) + length d < 2 ^ 64 - 1"
  shows "sleeps_only (\<lambda>(h, r). slow_reader r) (ipcio_write d (wr s, rg s))"
proof -
  from assms(1) obtain a h where "io_rel s a h" "nbufs (rg s) = nb" "soclock_buf (wr s) = 0"
    by (auto simp: io_shape_def)
  with write_sleeps_slow [of s a h d] assms(2,3) show ?thesis by simp
qed

section \<open>Histories of a run\<close>

text \<open>The bytes a list of events adds to the transfer in progress, if it does not end it.\<close>

definition bytes_of :: "io_event list \<Rightarrow> u8 list" where
  "bytes_of es = concat (map (\<lambda>e. case e of Wrote d \<Rightarrow> d | _ \<Rightarrow> []) es)"

lemma bytes_of_simps [simp]:
  "bytes_of [] = []" "bytes_of (es @ fs) = bytes_of es @ bytes_of fs" "bytes_of [Wrote d] = d"
  by (simp_all add: bytes_of_def)

lemma written_bytes: "Finished \<notin> set es \<Longrightarrow> written (fs @ es) = add_bytes (bytes_of es) (written fs)"
proof (induction es rule: rev_induct)
  case (snoc e es)
  then show ?case
    by (cases e) (simp_all add: written_def bytes_of_def)
qed simp

fun reader_event :: "io_event \<Rightarrow> bool" where
  "reader_event (Got i d l) = True"
| "reader_event (Waits i) = True"
| "reader_event _ = False"

lemma reader_events_bytes: "list_all reader_event es \<Longrightarrow> bytes_of es = [] \<and> Finished \<notin> set es"
proof (induction es)
  case (Cons e es)
  then show ?case by (cases e) (auto simp: bytes_of_def)
qed simp

lemma run_append: "run step s es t \<Longrightarrow> run step t fs u \<Longrightarrow> run step s (es @ fs) u"
  by (rotate_tac, induction rule: run.induct) (auto simp flip: append_assoc intro: run.run_snoc)

lemma reader_step_writer:
  assumes io: "io_shape nb n s" and st: "io_step s e s'" and e: "reader_event e"
  shows "wr s' = wr s \<and> w_buf_next (rg s') = w_buf_next (rg s)"
proof -
  from io obtain a h where rel: "io_rel s a h" by (auto simp: io_shape_def)
  from st obtain c where ex: "io_exec c s = Some (e, s')" by (auto simp: io_step_def)
  have "c \<noteq> Write d" "c \<noteq> Finish" for d using ex e by (auto split: if_splits option.splits)
  with reader_exec [OF rel ex] show ?thesis by blast
qed

lemma reader_run_writer:
  "run io_step s es s' \<Longrightarrow> io_shape nb n s \<Longrightarrow> list_all reader_event es \<Longrightarrow>
    wr s' = wr s \<and> w_buf_next (rg s') = w_buf_next (rg s)"
proof (induction rule: run.induct)
  case (run_snoc es t e u)
  then have "io_shape nb n t" using io_const.run_inv by blast
  with run_snoc show ?case using reader_step_writer [of nb n t e u] by simp
qed simp

text \<open>A write of the system as a step.\<close>

lemma write_step:
  assumes io: "io_shape nb n s" and N: "unat (w_buf_next (rg s)) + length d < 2 ^ 64 - 1"
    and f: "ipcio_write d (wr s, rg s) = Done k (h, r)"
  shows "k = length d" "io_step s (Wrote d) (s\<lparr>wr := h, rg := r\<rparr>)"
    "unat (w_buf_next r) \<le> unat (w_buf_next (rg s)) + length d"
proof -
  from io obtain a hh where rel: "io_rel s a hh" by (auto simp: io_shape_def)
  then have i: "ring_rel s a" "writer_io (wr s, rg s)" by (auto simp: io_rel_def split: prod.splits)
  from f have k: "k = length d" and l: "write_loop (length d) d (wr s, rg s) = Done () (h, r)"
    by (auto simp: ipcio_write_def outcome_simps split: if_splits)
  show "k = length d" by (rule k)
  show "unat (w_buf_next r) \<le> unat (w_buf_next (rg s)) + length d"
    using write_loop_writes [OF i N l] by blast
  have "int (unat (w_buf_next (rg s)) + length d) < int (2 ^ 64 - 1)" using N by (simp only: of_nat_less_iff)
  then have "uint (w_buf_next (rg s)) + int (length d) < 2 ^ 64 - 1" by simp
  then have "io_exec (Write d) s = Some (Wrote d, s\<lparr>wr := h, rg := r\<rparr>)" using f k by simp
  then show "io_step s (Wrote d) (s\<lparr>wr := h, rg := r\<rparr>)" unfolding io_step_def by blast
qed

end
