(* ===== verification/Ipcio_Drained.thy ===== *)
theory Ipcio_Drained
  imports Ipcio_Waits
begin

text \<open>
  When a reader sleeps. In a ring in use \<open>ipcio_read\<close> of a reader never fails and its behaviour is always
  defined; it sleeps only when the reader has released every block the writer has marked filled.
\<close>

section \<open>A call of a reader\<close>

text \<open>Reader \<open>i\<close> has released every block the writer has marked filled.\<close>

definition drained :: "nat \<Rightarrow> 'r ring_scheme \<Rightarrow> bool" where
  "drained i r \<longleftrightarrow> r_bufs r i = w_buf_curr r"

text \<open>What the lemmas on the calls of reader \<open>i\<close> assume of the system.\<close>

definition reader_ready :: "nat \<Rightarrow> 'h ipcio_ext sys \<Rightarrow> stream \<Rightarrow> bool" where
  "reader_ready i s a \<longleftrightarrow> ring_rel s a \<and> i < n_readers (rg s) \<and>
     reader_io (rd s i) (nbufs (rg s)) (holds s i) (posted a) (got a i) \<and> unat (nbufs (rg s)) \<le> 32767"

lemma reader_readyD:
  assumes "reader_ready i s a"
  shows "ring_rel s a" "i < n_readers (rg s)"
    "reader_io (rd s i) (nbufs (rg s)) (holds s i) (posted a) (got a i)" "unat (nbufs (rg s)) \<le> 32767"
  using assms by (simp_all add: reader_ready_def)

lemma reads_ready:
  "reader_ready i s a \<Longrightarrow> reads i s a h r a' \<Longrightarrow> reader_ready i (set_reader i h r s) a'"
  using reads_step [of i s a h r a'] by (auto simp: reader_ready_def reads_def)

lemma open_read_sleeps:
  assumes s: "reader_ready i s a" and ne: "\<not> ipcbuf_eod (rd s i, rg s)"
  shows "sleeps_only (\<lambda>(h, r). drained i r) (open_read (rd s i, rg s))"
proof (cases "curbuf (rd s i) = None")
  case True
  note D = reader_readyD [OF s]
  note R = ring_relD(8) [OF D(1,2), unfolded reader_rel_def prod.case]
  have nh: "\<not> holds s i" using D(3) True by (simp add: reader_io_def)
  have st: "state (rd s i) \<noteq> IPCBUF_RSTOP" using ne by (simp add: ipcbuf_eod_def)
  show ?thesis
  proof (cases "got a i < length (posted a)")
    case True
    from take_progress [OF D(1,2) nh this st]
    obtain p h r where "ipcbuf_get_next_read (rd s i, rg s) = Done p (h, r)"
      by (auto split: if_splits option.splits)
    then show ?thesis by (simp add: open_read_def split: prod.splits)
  next
    case False
    then have g: "got a i = length (posted a)" using reader_window(2) [OF D(1,2)] by simp
    then have "sem_data (rg s) i IPCBUF_FULL = 0" "nat (iread (rd s i)) = i" using R nh by auto
    moreover have "ipcbuf_is_reader (rd s i, rg s)" using R st by (auto simp: ipcbuf_is_reader_def)
    moreover have "w_buf_curr (rg s) = of_nat (length (posted a))"
      by (simp flip: writer_relD(2) [OF ring_relD(1) [OF D(1)]])
    then have "drained i (rg s)" using R g by (simp add: drained_def)
    ultimately show ?thesis
      using ne by (simp add: open_read_def ipcbuf_get_next_read_def ipcbuf_get_next_read_work_def
          get_next_read_reader_def Let_def semop_take)
  qed
qed (simp add: open_read_def)

lemma get_bytes_sleeps:
  assumes s: "reader_ready i s a" and c: "curbuf (rd s i) \<noteq> None"
  shows "sleeps_only (\<lambda>_. False) (get_bytes True n (rd s i, rg s))"
proof -
  note D = reader_readyD [OF s]
  let ?h = "rd s i" and ?P = "posted a" and ?g = "got a i"
  from c D(3) have hold: "holds s i" and IO: "curbuf ?h = Some (?g mod unat (nbufs (rg s)), 0)"
    "unat (curbufsz ?h) = length (fst (?P ! ?g))" "bytes ?h \<le> curbufsz ?h"
    by (auto simp: reader_io_def)
  have g: "?g < length ?P" using ring_relD(8) [OF D(1,2)] hold by (auto simp: reader_rel_def)
  note B = block_data [OF D(1,2) g]
  show ?thesis
    using IO B by (auto simp: get_bytes_def copy_out_def Let_def unat_sub word_le_nat_alt)
qed

lemma finish_block_sleeps:
  assumes s: "reader_ready i s a" and c: "curbuf (rd s i) \<noteq> None"
  shows "sleeps_only (\<lambda>_. False) (finish_block (rd s i, rg s))"
proof (cases "bytes (rd s i) = curbufsz (rd s i)")
  case True
  note D = reader_readyD [OF s]
  note R = ring_relD(8) [OF D(1,2), unfolded reader_rel_def prod.case]
  have hold: "holds s i" and w: "rdwrt (rd s i) = CHR ''R''" using D(3) c by (auto simp: reader_io_def)
  have g: "got a i < length (posted a)" and i': "nat (iread (rd s i)) = i"
    and st: "state (rd s i) = IPCBUF_READING" using R hold by auto
  have "length (posted a) \<le> unat (w_buf_next (rg s))"
    using writer_relD(2,5) [OF ring_relD(1) [OF D(1)]] by (simp add: word_le_nat_alt)
  then have 1: "sem_data (rg s) i IPCBUF_CLEAR \<le> 32766" using reader_window(3) [OF D(1,2)] g D(4) by linarith
  have 2: "sem_data (rg s) i IPCBUF_EODACK \<le> 8"
    using R ends_mono [of "got a i" "length (posted a)" "posted a"] g by simp
  have "\<exists>h r. ipcbuf_mark_cleared (rd s i, rg s) = Done () (h, r)"
    using 1 2 by (auto simp: ipcbuf_mark_cleared_def i' st outcome_simps ipc_semop_Data Let_def sem_data_add_one)
  then show ?thesis by (auto simp: finish_block_def w split: prod.splits)
qed (simp add: finish_block_def)

lemma read_turn_sleeps:
  assumes s: "reader_ready i s a" and ne: "\<not> ipcbuf_eod (rd s i, rg s)"
  shows "sleeps_only (\<lambda>(h, r). drained i r) (read_turn True n (rd s i, rg s))"
  unfolding read_turn_def
proof (rule sleeps_only_andthen)
  show "sleeps_only (\<lambda>(h, r). drained i r) (open_read (rd s i, rg s))" by (rule open_read_sleeps [OF s ne])
next
  fix u t assume "open_read (rd s i, rg s) = Done u t"
  then obtain h1 r1 where t: "t = (h1, r1)" and 1: "open_read (rd s i, rg s) = Done () (h1, r1)" by (cases t) auto
  note D = reader_readyD [OF s]
  obtain a1 where s1: "reads i s a h1 r1 a1" and c1: "curbuf h1 \<noteq> None"
    by (rule open_read_reads [OF D(1-3) 1])
  let ?s1 = "set_reader i h1 r1 s"
  note S1 = reads_ready [OF s s1]
  have c: "curbuf (rd ?s1 i) \<noteq> None" using c1 by simp
  show "sleeps_only (\<lambda>(h, r). drained i r)
      (andthen (get_bytes True n t) (\<lambda>d s. andthen (finish_block s) (\<lambda>_. Done d)))"
  proof (rule sleeps_only_andthen)
    show "sleeps_only (\<lambda>(h, r). drained i r) (get_bytes True n t)"
      using sleeps_only_mono [OF get_bytes_sleeps [OF S1 c]] by (simp add: t)
  next
    fix x t2 assume "get_bytes True n t = Done x t2"
    then obtain k d h2 r2 where t2: "t2 = (h2, r2)" and x: "get_bytes True n (rd ?s1 i, rg ?s1) = Done (k, d) (h2, r2)"
      by (cases t2; cases x) (simp add: t)
    note G = get_bytes_reads [OF reader_readyD(1-3) [OF S1] c x]
    have S2: "reader_ready i (set_reader i h2 r2 ?s1) a1" by (rule reads_ready [OF S1 G(1)])
    have "sleeps_only (\<lambda>_. False) (finish_block (h2, r2))"
      using finish_block_sleeps [OF S2] G(2) by simp
    then show "sleeps_only (\<lambda>(h, r). drained i r) (andthen (finish_block t2) (\<lambda>_. Done x))"
      unfolding t2 by (intro sleeps_only_andthen) (auto elim: sleeps_only_mono)
  qed
qed

lemma read_loop_sleeps:
  assumes "reader_ready i s a" "full_count (rd s i, rg s) + 1 + of_bool (curbuf (rd s i) \<noteq> None) \<le> fuel"
  shows "sleeps_only (\<lambda>(h, r). drained i r) (read_loop fuel True n (rd s i, rg s))"
  using assms
proof (induction fuel arbitrary: n s a)
  case (Suc fuel)
  note D = reader_readyD [OF Suc.prems(1)]
  show ?case
  proof (cases "ipcbuf_eod (rd s i, rg s)")
    case False
    have rr: "reads_ring (rd s i, rg s)"
      using ring_relD(8) [OF D(1,2)] D(3) False
      by (auto simp: reads_ring_def reader_io_def reader_rel_def ipcbuf_is_reader_def ipcbuf_eod_def)
    have "sleeps_only (\<lambda>(h, r). drained i r)
        (case x of (k, d) \<Rightarrow> if n - k = 0 then Done (k, d) t
          else andthen (read_loop fuel True (n - k) t) (\<lambda>(k', d'). Done (k + k', d @ d')))"
      if f: "read_turn True n (rd s i, rg s) = Done x t" for x t
    proof -
      obtain k d h1 r1 where x: "x = (k, d)" and t: "t = (h1, r1)" by (cases x; cases t) auto
      from read_turn_reads [OF D(1-3) f [unfolded x t]]
      obtain a1 where s1: "reads i s a h1 r1 a1" and k: "k \<le> n" .
      note F = read_turn_full [OF rr f [unfolded x t]]
      let ?s1 = "set_reader i h1 r1 s"
      show ?thesis
      proof (cases "k = n")
        case False
        then have "curbuf h1 = None" "full_count (h1, r1) + 1 \<le> fuel"
          using F(2,3) Suc.prems(2) k by (cases "curbuf (rd s i)"; simp)+
        then have "sleeps_only (\<lambda>(h, r). drained i r) (read_loop fuel True (n - k) (rd ?s1 i, rg ?s1))"
          by (intro Suc.IH [OF reads_ready [OF Suc.prems(1) s1]]) simp
        then show ?thesis by (auto simp: x t split: prod.splits intro!: sleeps_only_andthen)
      qed (simp add: x)
    qed
    then show ?thesis
      using read_turn_sleeps [OF Suc.prems(1) False] False
      by (auto simp: read_loop.simps [of "Suc fuel"] intro!: sleeps_only_andthen)
  qed (simp add: read_loop.simps)
qed simp

text \<open>A reader of the system that is not at the end of a transfer.\<close>

lemma read_sleeps:
  assumes io: "io_shape nb n s" and nb: "unat nb \<le> 32767" and i: "i < n"
  shows "sleeps_only (\<lambda>(h, r). drained i r) (ipcio_read True m (rd s i, rg s))"
proof -
  from io obtain a h where rel: "io_rel s a h" and c: "nbufs (rg s) = nb" "n_readers (rg s) = n"
    by (auto simp: io_shape_def)
  then have s: "reader_ready i s a" using i nb by (auto simp: reader_ready_def io_rel_def split: prod.splits)
  then have w: "rdwrt (rd s i) = CHR ''R''" by (simp add: reader_ready_def reader_io_def)
  have "full_count (rd s i, rg s) + 1 + of_bool (curbuf (rd s i) \<noteq> None) \<le> read_fuel m (rd s i, rg s)"
    by (auto simp: read_fuel_def full_count_def)
  from read_loop_sleeps [OF s this, of m] show ?thesis by (simp add: ipcio_read_def w)
qed

end
