(* ===== verification/Ipcio_Properties.thy ===== *)
theory Ipcio_Properties
  imports Ipcio_Drained
begin

text \<open>
  The properties of the byte-stream interface: what the readers get is what was written, a read
  is short only at the end of a transfer, and the copying loops return.
\<close>

text \<open>C14: however the writer cuts a transfer into calls of \<open>ipcio_write\<close> and a reader into calls
  of \<open>ipcio_read\<close>, under every interleaving, the transfers a reader has read to their end are the
  first transfers written, byte for byte, and what it has read of the next is the start of the
  next one written.\<close>

theorem transfers_delivered:
  assumes "io_reachable key nb bz n es s"
  shows "prefix (fst (read_by i es)) (fst (written es)) \<and>
    prefix (snd (read_by i es))
      ((fst (written es) @ [snd (written es)]) ! length (fst (read_by i es)))"
  using io_reachableD [OF assms] unfolding behind_def by blast

theorem transfers_delivered_witness:
  "\<exists>s. io_reachable 56026 2 2 1 io_demo s \<and> prefix (snd (read_by 0 io_demo)) [1, 2, 3]"
proof -
  obtain s where s: "io_reachable 56026 2 2 1 io_demo s" by (rule io_demo_reachable)
  have "written io_demo = ([[1, 2, 3]], [])" "fst (read_by 0 io_demo) = []"
    by (simp_all add: written_def read_by_def io_demo_def add_bytes_def complete_def)
  with transfers_delivered [OF s, of 0] s show ?thesis by auto
qed

text \<open>C15: in a ring in use, a call of \<open>ipcio_read\<close> that returns has the number of bytes asked for,
  or fewer and then the transfer is at its end; never more.\<close>

theorem read_full_or_end:
  assumes "io_reachable key nb bz n es s" and "io_exec (Read i m) s = Some (Got i d l, s')"
  shows "length d \<le> m \<and> (length d = m \<or> l \<and> ipcbuf_eod (rd s' i, rg s'))"
proof -
  obtain a where a: "io_rel s a (written es, \<lambda>i. read_by i es)"
    using assms(1) by (rule io_reachableD)
  from assms(2) obtain k h r where i: "i < n_readers (rg s)" "\<not> ipcbuf_eod (rd s i, rg s)"
    and f: "ipcio_read True m (rd s i, rg s) = Done (k, d) (h, r)"
    and l: "l = ipcbuf_eod (h, r)" and s': "s' = set_reader i h r s"
    by (auto simp: set_reader_def split: if_splits option.splits)
  have rel: "ring_rel s a" "reader_io (rd s i) (nbufs (rg s)) (holds s i) (posted a) (got a i)"
    using a i(1) by (simp_all add: io_rel_def)
  from f have "read_loop (read_fuel m (rd s i, rg s)) True m (rd s i, rg s) = Done (k, d) (h, r)"
    by (auto simp: ipcio_read_def split: if_splits)
  from read_loop_reads [OF rel(1) i(1) rel(2) i(2) this]
  show ?thesis by (auto simp: l s')
qed

theorem read_full_or_end_witness:
  "\<exists>s s'. io_reachable 56026 2 2 1 io_demo s \<and> io_exec (Read 0 5) s = Some (Got 0 [3] True, s') \<and>
    ipcbuf_eod (rd s' 0, rg s')"
proof -
  obtain s s' where s: "io_reachable 56026 2 2 1 io_demo s" "io_exec (Read 0 5) s = Some (Got 0 [3] True, s')"
    by (rule io_demo_reachable)
  from read_full_or_end [OF s] have "ipcbuf_eod (rd s' 0, rg s')" by simp
  with s show ?thesis by blast
qed


definition small_ring :: "ipcio \<times> ring" where
  "small_ring = (IPCIO_INIT\<lparr>rdwrt := CHR ''W'', state := IPCBUF_WRITING\<rparr>,
     zero_ring\<lparr>bufsz := 2, nbufs := 2, mem := (\<lambda>_. [0, 0])\<rparr>)"



definition full_ring :: "ipcio \<times> ring" where
  "full_ring = (IPCIO_INIT\<lparr>rdwrt := CHR ''R'', state := IPCBUF_READING, iread := 0\<rparr>,
     zero_ring\<lparr>bufsz := 2, nbufs := 2, n_readers := 1, w_buf_curr := 2, w_buf_next := 2,
       mem := (\<lambda>_. [7, 8]), sem_data := (\<lambda>i q. if q = IPCBUF_FULL then 2 else 0)\<rparr>)"


text \<open>C18: in a ring in use \<open>ipcio_write\<close> never fails and its behaviour is always defined. It returns the
  number of bytes it was given; or it sleeps, and then some reader is behind the writer by all the
  blocks of the ring, or by the eight transfers whose ends the ring can hold.\<close>

theorem write_waits_for_reader:
  assumes "io_reachable key nb bz n es s" "unat nb \<le> 32767"
    and "unat (w_buf_next (rg s)) + length d < 2 ^ 64 - 1"
  shows "case ipcio_write d (wr s, rg s) of
      Done k t \<Rightarrow> k = length d
    | Wait (h, r) \<Rightarrow> slow_reader r
    | _ \<Rightarrow> False"
proof -
  have sh: "io_shape nb n s" by (rule io_reachable_shape [OF assms(1)])
  from write_slow [OF sh assms(2,3)] write_step(1) [OF sh assms(3)] show ?thesis
    by (auto simp: sleeps_only_def split: outcome.splits)
qed

text \<open>Both blocks of the ring are full and none was read.\<close>

definition blocked_write :: "unit ipcio_ext sys \<Rightarrow> bool" where
  "blocked_write s \<longleftrightarrow> unat (w_buf_next (rg s)) = 2 \<and>
     (case ipcio_write [5] (wr s, rg s) of Wait t \<Rightarrow> True | _ \<Rightarrow> False)"

lemma blocked_run:
  "map_option (\<lambda>(es, s). (es, blocked_write s)) (exec_io 56026 2 2 1 [Write [1, 2, 3, 4]]) =
    Some ([Wrote [1, 2, 3, 4]], True)"
  by code_simp

theorem write_waits_for_reader_witness:
  "\<exists>s t. io_reachable 56026 2 2 1 [Wrote [1, 2, 3, 4]] s \<and> ipcio_write [5] (wr s, rg s) = Wait t \<and>
    slow_reader (snd t)"
proof -
  from blocked_run obtain s
    where e: "exec_io 56026 2 2 1 [Write [1, 2, 3, 4]] = Some ([Wrote [1, 2, 3, 4]], s)" and b: "blocked_write s"
    by auto
  have r: "io_reachable 56026 2 2 1 [Wrote [1, 2, 3, 4]] s" by (rule exec_io_reachable [OF e]) simp_all
  from b obtain t where w: "ipcio_write [5] (wr s, rg s) = Wait t" and n: "unat (w_buf_next (rg s)) = 2"
    by (auto simp: blocked_write_def split: outcome.splits)
  have "slow_reader (snd t)" using write_waits_for_reader [OF r, of "[5]"] w n by (cases t) simp
  with r w show ?thesis by blast
qed

text \<open>C19: in a ring in use \<open>ipcio_read\<close> of a reader never fails and its behaviour is always
  defined; it sleeps only when the reader has released every block the writer has
  marked filled.\<close>

theorem read_waits_for_writer:
  assumes "io_reachable key nb bz n es s" "unat nb \<le> 32767" "i < n"
  shows "case ipcio_read True m (rd s i, rg s) of
      Done x t \<Rightarrow> True
    | Wait (h, r) \<Rightarrow> drained i r
    | _ \<Rightarrow> False"
  using read_sleeps [OF io_reachable_shape [OF assms(1)] assms(2,3), of m] by (simp add: sleeps_only_def)

text \<open>One full block and a byte of the next were written; the reader asks for more than the block holds.\<close>

definition blocked_read :: "unit ipcio_ext sys \<Rightarrow> bool" where
  "blocked_read s \<longleftrightarrow> (case ipcio_read True 5 (rd s 0, rg s) of Wait t \<Rightarrow> True | _ \<Rightarrow> False)"

lemma blocked_read_run:
  "map_option (\<lambda>(es, s). (es, blocked_read s)) (exec_io 56026 2 2 1 [Write [1, 2, 3]]) =
    Some ([Wrote [1, 2, 3]], True)"
  by code_simp

theorem read_waits_for_writer_witness:
  "\<exists>s t. io_reachable 56026 2 2 1 [Wrote [1, 2, 3]] s \<and> ipcio_read True 5 (rd s 0, rg s) = Wait t \<and>
    drained 0 (snd t)"
proof -
  from blocked_read_run obtain s
    where e: "exec_io 56026 2 2 1 [Write [1, 2, 3]] = Some ([Wrote [1, 2, 3]], s)" and b: "blocked_read s"
    by auto
  have r: "io_reachable 56026 2 2 1 [Wrote [1, 2, 3]] s" by (rule exec_io_reachable [OF e]) simp_all
  from b obtain t where w: "ipcio_read True 5 (rd s 0, rg s) = Wait t"
    by (auto simp: blocked_read_def split: outcome.splits)
  have "drained 0 (snd t)" using read_waits_for_writer [OF r, of 0 5] w by (cases t) simp
  with r w show ?thesis by blast
qed

end
