(* ===== verification/Ascii_Header.thy ===== *)
theory Ascii_Header
  imports C_String Dada_Prelude
begin

text \<open>
  The ASCII headers of src/ascii_header.c: a string of lines \<open>KEYWORD value # comment\<close> that the functions
  search and edit in place. A header here is the C string; room in the buffer that holds it is the
  caller's business (the functions do not know its size), and \<open>set_length\<close> below says how
  much an edit needs.
\<close>

section \<open>The functions\<close>

text \<open>
  The test of the loop of \<open>ascii_header_find\<close> for an occurrence of the keyword at \<open>i > 0\<close>, and
  the loop.
\<close>

definition delimited :: "string \<Rightarrow> string \<Rightarrow> nat \<Rightarrow> bool" where
  "delimited header keyword i \<longleftrightarrow>
     (char_at header (i - 1) = NL \<or> char_at header (i - 1) = BACKSLASH) \<and>
     (char_at header (i + length keyword) = TAB \<or> char_at header (i + length keyword) = BLANK)"

function find_loop :: "string \<Rightarrow> string \<Rightarrow> nat option \<Rightarrow> nat option" where
  "find_loop header keyword key =
    (case key of
       None \<Rightarrow> None
     | Some i \<Rightarrow>
         if i = 0 then Some i
         else if delimited header keyword i then Some i
         else find_loop header keyword (strstr_from header (i + 1) keyword))"
  by pat_completeness auto

termination
  by (relation "measure (\<lambda>(h, k, key). case key of None \<Rightarrow> 0 | Some i \<Rightarrow> Suc (Suc (length h) - i))")
    (auto simp: strstr_from_Some split: option.splits)

declare find_loop.simps [simp del]

definition ascii_header_find :: "string \<Rightarrow> string \<Rightarrow> nat option" where
  "ascii_header_find header keyword = find_loop header keyword (strstr header keyword)"

text \<open>
  \<open>value\<close> is what vsnprintf makes of the format and the arguments, cut to \<open>STRLEN - 1\<close>
  characters. The value is written at \<open>key\<close>; the rest of the header from \<open>eol\<close> follows
  it, or a new line.
\<close>

definition cut_value :: "string \<Rightarrow> string" where
  "cut_value value = (if int (length value) < 131072 then value else take (nat 131071) value)"

definition set_point :: "string \<Rightarrow> string \<Rightarrow> nat \<times> nat option" where
  "set_point header keyword =
    (case ascii_header_find header keyword of
       Some key \<Rightarrow> (key, Some (key + strcspn (drop key header) [HASH, NL]))
     | None \<Rightarrow>
        (case strstr header [CHR ''D'', CHR ''A'', CHR ''T'', CHR ''A'', NL] of
           Some eol \<Rightarrow> (eol, Some eol)
         | None \<Rightarrow> (length header, None)))"

definition entry_text :: "string \<Rightarrow> string \<Rightarrow> string" where
  "entry_text keyword value = pad 12 keyword @ [BLANK] @ pad 20 value @ replicate 3 BLANK"

definition ascii_header_set :: "string \<Rightarrow> string \<Rightarrow> string \<Rightarrow> string" where
  "ascii_header_set header keyword value =
    (let (key, eol) = set_point header keyword;
         dup = (case eol of Some e \<Rightarrow> drop e header | None \<Rightarrow> [NL])
     in take key header @ entry_text keyword (cut_value value) @ dup)"

text \<open>
  \<open>scan\<close> is vsscanf with the caller's format: the number of items stored and the items. The
  result is that number.
\<close>

definition value_text :: "string \<Rightarrow> nat \<Rightarrow> string" where
  "value_text header key = drop (key + strcspn (drop key header) [BLANK, TAB, NL]) header"

definition ascii_header_get ::
  "string \<Rightarrow> string \<Rightarrow> (string \<Rightarrow> int \<times> 'a option) \<Rightarrow> int \<times> 'a option" where
  "ascii_header_get header keyword scan =
    (case ascii_header_find header keyword of
       None \<Rightarrow> (-1, None)
     | Some key \<Rightarrow> scan (value_text header key))"

text \<open>A line that is not ended has no character behind it: \<open>eol\<close> is then outside the string.\<close>

definition ascii_header_del :: "string \<Rightarrow> string \<Rightarrow> (unit, string) outcome" where
  "ascii_header_del header keyword =
    (case ascii_header_find header keyword of
       None \<Rightarrow> Err (-1) header
     | Some key \<Rightarrow>
        let eol = key + strcspn (drop key header) [NL] + 1
        in if eol > length header then Crash else Done () (take key header @ drop eol header))"

text \<open>
  The size a file claims for its header: the first \<open>DADA_DEFAULT_HEADER_SIZE\<close> (\<open>page\<close>) bytes are read into
  a buffer with one byte more, which nobody sets. Without a NUL among them what the search reads is
  undefined. \<open>%ld\<close> stores a 64-bit number; a file that is not open cannot be read, and the
  result is then -1 as well.
\<close>

definition ascii_header_get_size_fd :: "nat \<Rightarrow> string option \<Rightarrow> (u64, unit) outcome" where
  "ascii_header_get_size_fd page file =
    (case file of
       None \<Rightarrow> Done (-1) ()
     | Some bytes \<Rightarrow>
        let header = take page bytes
        in if length header \<noteq> page then Done (-1) ()
           else if NUL \<notin> set header then Crash
           else
             (case ascii_header_get (takeWhile (\<lambda>c. c \<noteq> NUL) header) ''HDR_SIZE'' scanf_d of
                (n, Some v) \<Rightarrow> Done (if n = 1 then of_int v else -1) ()
              | (n, None) \<Rightarrow> Done (-1) ()))"

definition ascii_header_get_size :: "nat \<Rightarrow> string option \<Rightarrow> (u64, unit) outcome" where
  "ascii_header_get_size page file = ascii_header_get_size_fd page file"

section \<open>What the search finds\<close>

text \<open>
  The reference: the first position where the keyword stands, at the start of the header or
  behind the end of a line (or a backslash) and before a blank or a tab.
\<close>

definition entry_at :: "string \<Rightarrow> string \<Rightarrow> nat \<Rightarrow> bool" where
  "entry_at header keyword i \<longleftrightarrow>
     prefix keyword (drop i header) \<and> (i = 0 \<or> delimited header keyword i)"

lemma find_upt_skip:
  "i \<le> m \<Longrightarrow> m \<le> n \<Longrightarrow> (\<And>j. i \<le> j \<Longrightarrow> j < m \<Longrightarrow> \<not> P j) \<Longrightarrow> find P [i..<n] = find P [m..<n]"
proof (induction "m - i" arbitrary: i)
  case (Suc d)
  then have "[i..<n] = i # [Suc i..<n]" by (simp add: upt_conv_Cons)
  then show ?case using Suc by simp
qed simp

lemma find_loop_find:
  "find_loop header keyword (strstr_from header i keyword) =
    find (entry_at header keyword) [i..<Suc (length header)]"
proof (induction "Suc (length header) - i" arbitrary: i rule: less_induct)
  case less
  show ?case
  proof (cases "strstr_from header i keyword")
    case None
    then have "find (entry_at header keyword) [i..<Suc (length header)] = None"
      by (auto simp: find_none strstr_from_None entry_at_def)
    then show ?thesis using None by (simp add: find_loop.simps)
  next
    case (Some m)
    note M = Some [unfolded strstr_from_Some]
    have "find (entry_at header keyword) [i..<Suc (length header)] =
        find (entry_at header keyword) [m..<Suc (length header)]"
      using M by (intro find_upt_skip) (auto simp: entry_at_def)
    also have "[m..<Suc (length header)] = m # [Suc m..<Suc (length header)]"
      using M by (simp add: upt_conv_Cons)
    also have "find (entry_at header keyword) \<dots> =
        (if m = 0 \<or> delimited header keyword m then Some m
         else find (entry_at header keyword) [Suc m..<Suc (length header)])"
      using M by (simp add: entry_at_def del: upt_Suc)
    finally have f: "find (entry_at header keyword) [i..<Suc (length header)] =
        (if m = 0 \<or> delimited header keyword m then Some m
         else find (entry_at header keyword) [Suc m..<Suc (length header)])" .
    have "find_loop header keyword (strstr_from header (Suc m) keyword) =
        find (entry_at header keyword) [Suc m..<Suc (length header)]"
      using M by (intro less) arith
    then show ?thesis unfolding f
      by (simp add: Some find_loop.simps [of header keyword "Some m"] del: upt_Suc)
  qed
qed

lemma ascii_header_find_eq:
  "ascii_header_find header keyword = find (entry_at header keyword) [0..<Suc (length header)]"
  using find_loop_find [of header keyword 0]
  by (cases "strstr header keyword") (simp_all add: ascii_header_find_def strstr_from_def del: upt_Suc)

lemma find_upt_Some:
  "find P [m..<n] = Some q \<longleftrightarrow> m \<le> q \<and> q < n \<and> P q \<and> (\<forall>j. m \<le> j \<and> j < q \<longrightarrow> \<not> P j)"
proof (cases "m \<le> q \<and> q < n")
  case True
  show ?thesis
  proof (cases "\<forall>j. m \<le> j \<and> j < q \<longrightarrow> \<not> P j")
    case skip: True
    have "find P [m..<n] = find P [q..<n]" using True skip by (intro find_upt_skip) auto
    moreover have "[q..<n] = q # [Suc q..<n]" using True by (simp add: upt_conv_Cons)
    moreover have "find P [Suc q..<n] \<noteq> Some q" by (auto simp: find_Some_iff)
    ultimately show ?thesis using True skip by simp
  next
    case False
    then obtain j where "m \<le> j" "j < q" "P j" by blast
    then have "find P [m..<n] \<noteq> Some q"
      using True by (auto simp: find_Some_iff intro!: exI [of _ "j - m"])
    with False show ?thesis by blast
  qed
qed (auto simp: find_Some_iff)

lemma find_eq_Some:
  "ascii_header_find h k = Some i \<longleftrightarrow> i \<le> length h \<and> entry_at h k i \<and> (\<forall>j < i. \<not> entry_at h k j)"
  unfolding ascii_header_find_eq find_upt_Some by auto

lemma find_eq_None: "ascii_header_find h k = None \<longleftrightarrow> (\<forall>i \<le> length h. \<not> entry_at h k i)"
  by (auto simp: ascii_header_find_eq find_none less_Suc_eq_le simp del: upt_Suc)

text \<open>A keyword is a word; a header without a backslash has its entries at the start of lines.\<close>

lemma token_NL: "token k \<Longrightarrow> NL \<notin> set k"
  by (auto simp: token_def list_all_iff isspace_def)

lemma prefix_line:
  assumes "l \<noteq> []" "last l = NL" "NL \<notin> set k"
  shows "prefix k (l @ x) \<longleftrightarrow> prefix k (butlast l)"
proof -
  obtain m where l: "l = m @ [NL]" using assms(1,2) by (metis append_butlast_last_id)
  show ?thesis using assms(3) by (auto simp: l prefix_append prefix_Cons)
qed

lemma entry_left:
  assumes "j < length a" "last a = NL" "NL \<notin> set k"
  shows "entry_at (a @ x) k j \<longleftrightarrow> entry_at a k j"
proof -
  have d: "drop j a \<noteq> []" "last (drop j a) = NL" using assms(1,2) by auto
  have p: "prefix k (drop j (a @ x)) \<longleftrightarrow> prefix k (butlast (drop j a))"
    and p': "prefix k (drop j a) \<longleftrightarrow> prefix k (butlast (drop j a))"
    using prefix_line [OF d assms(3), of x] prefix_line [OF d assms(3), of "[]"] assms(1) by auto
  show ?thesis
  proof (cases "prefix k (butlast (drop j a))")
    case True
    then have "j + length k < length a" using assms(1) prefix_length_le [OF True] by auto
    then show ?thesis using assms(1) unfolding entry_at_def p p'
      by (auto simp: delimited_def char_at_def nth_append)
  qed (use p p' in \<open>simp add: entry_at_def\<close>)
qed

lemma entry_right:
  "0 < j \<Longrightarrow> entry_at (a @ x) k (length a + j) \<longleftrightarrow> entry_at x k j"
  by (auto simp: entry_at_def delimited_def)

lemma entry_mid:
  assumes "a \<noteq> [] \<Longrightarrow> last a = NL"
  shows "entry_at (a @ x) k (length a) \<longleftrightarrow>
    prefix k x \<and> (a = [] \<or> char_at x (length k) = TAB \<or> char_at x (length k) = BLANK)"
proof (cases a rule: rev_cases)
  case (snoc b c)
  then show ?thesis using assms by (auto simp: entry_at_def delimited_def nth_append)
qed (simp add: entry_at_def)

lemma entry_inside:
  assumes "0 < j" "j \<le> length y" "NL \<notin> set y" "BACKSLASH \<notin> set y"
  shows "\<not> entry_at (y @ x) k j"
proof -
  have "(y @ x) ! (j - 1) \<in> set y" "j - 1 < length (y @ x)" using assms(1,2) by (auto simp: nth_append)
  then show ?thesis using assms by (auto simp: entry_at_def delimited_def char_at_def)
qed

text \<open>The entry written.\<close>

lemma cut_value [simp]: "int (length v) < 131072 \<Longrightarrow> cut_value v = v"
  by (simp add: cut_value_def)

lemma length_cut_value: "length (cut_value v) \<le> length v"
  by (simp add: cut_value_def)

lemma set_cut_value: "set (cut_value v) \<subseteq> set v"
  by (auto simp: cut_value_def dest: in_set_takeD)

lemma set_entry_text: "set (entry_text k v) \<subseteq> insert BLANK (set k \<union> set v)"
  using set_pad [of 12 k] set_pad [of 20 v] by (auto simp: entry_text_def)

lemma entry_text_eq:
  "entry_text k v = k @ replicate (12 - length k) BLANK @ BLANK # pad 20 v @ replicate 3 BLANK"
  by (simp add: entry_text_def pad_def)

lemma char_at_entry: "char_at (entry_text k v @ x) (length k) = BLANK"
proof -
  have "entry_text k v @ x = k @ BLANK # (replicate (12 - length k) BLANK @ pad 20 v @ replicate 3 BLANK @ x)"
    by (simp add: entry_text_eq replicate_app_Cons_same)
  then show ?thesis by (simp only: char_at_append) simp
qed

text \<open>
  A header in order for an entry \<open>k\<close>: no backslash; an entry is added at the end of a line, which is
  at the end of the header or before the line \<open>DATA\<close>. A keyword is a word without \<open>#\<close>.
\<close>

definition in_order :: "string \<Rightarrow> string \<Rightarrow> bool" where
  "in_order h k \<longleftrightarrow> BACKSLASH \<notin> set h \<and>
     (let (i, e) = set_point h k in i = 0 \<or> h ! (i - 1) = NL)"

definition is_keyword :: "string \<Rightarrow> bool" where
  "is_keyword k \<longleftrightarrow> token k \<and> HASH \<notin> set k"

abbreviation DATA :: string where "DATA \<equiv> [CHR ''D'', CHR ''A'', CHR ''T'', CHR ''A'', NL]"

text \<open>
  A setting replaces \<open>old\<close>, the text of the entry up to a comment or the end of the line, or nothing.
\<close>

lemma set_split:
  assumes k: "is_keyword k" and h: "in_order h k"
  obtains a old b b' where
    "h = a @ old @ b" "\<And>v. ascii_header_set h k v = a @ entry_text k (cut_value v) @ b'"
    "a \<noteq> [] \<Longrightarrow> last a = NL" "NL \<notin> set old"
    "ascii_header_find h k = Some (length a) \<and> prefix k old \<and> b' = b \<or>
     ascii_header_find h k = None \<and> old = [] \<and> (b' = b \<and> prefix DATA b \<or> b = [] \<and> b' = [NL])"
proof -
  obtain i e where p: "set_point h k = (i, e)" by fastforce
  have i: "i \<le> length h"
    using p by (auto simp: set_point_def find_eq_Some strstr_Some split: option.splits)
  have l: "take i h \<noteq> [] \<Longrightarrow> last (take i h) = NL"
    using h i by (auto simp: in_order_def p last_conv_nth min_def)
  show thesis
  proof (cases "ascii_header_find h k")
    case (Some j)
    define old where "old = takeWhile (\<lambda>c. c \<notin> {HASH, NL}) (drop i h)"
    define b where "b = dropWhile (\<lambda>c. c \<notin> {HASH, NL}) (drop i h)"
    have ob: "drop i h = old @ b" by (simp add: old_def b_def)
    have j: "j = i" "e = Some (i + length old)"
      using p Some by (auto simp: set_point_def strcspn_def old_def)
    have d: "drop (i + length old) h = b"
      by (metis ob append_eq_conv_conj drop_drop add.commute)
    obtain u where u: "drop i h = k @ u"
      using Some by (auto simp: find_eq_Some entry_at_def j prefix_def)
    have "takeWhile (\<lambda>c. c \<notin> {HASH, NL}) (k @ u) = k @ takeWhile (\<lambda>c. c \<notin> {HASH, NL}) u"
      using k token_NL by (intro takeWhile_append2) (auto simp: is_keyword_def)
    then have "prefix k old" by (simp add: old_def u)
    moreover have "h = take i h @ old @ b" using ob by (metis append_take_drop_id)
    moreover have "NL \<notin> set old" by (auto simp: old_def dest: set_takeWhileD)
    ultimately show thesis
      using Some i j p l d
      by (intro that [of "take i h" old b b]) (auto simp: ascii_header_set_def)
  next
    case None
    show thesis
    proof (cases "strstr h DATA")
      case (Some d)
      then have "i = d" "e = Some d" using p None by (auto simp: set_point_def)
      then show thesis using None Some i l p
        by (intro that [of "take i h" "[]" "drop i h" "drop i h"])
          (auto simp: ascii_header_set_def strstr_Some)
    next
      case N: None
      then have "i = length h" "e = None" using p None by (auto simp: set_point_def)
      then show thesis using None l p
        by (intro that [of h "[]" "[]" "[NL]"]) (auto simp: ascii_header_set_def)
    qed
  qed
qed

text \<open>What follows the keyword on its line.\<close>

definition line_value :: "string \<Rightarrow> string \<Rightarrow> string option" where
  "line_value h k = map_option (\<lambda>i. takeWhile (\<lambda>c. c \<noteq> NL) (value_text h i)) (ascii_header_find h k)"

lemma replicate_pad: "\<exists>w. pad 20 v @ replicate 3 BLANK @ x = v @ BLANK # w"
  by (auto simp: pad_def numeral_3_eq_3 replicate_app_Cons_same)

lemma value_text_entry:
  assumes "token k"
  shows "value_text (a @ entry_text k v @ x) (length a) =
    replicate (12 - length k) BLANK @ [BLANK] @ pad 20 v @ replicate 3 BLANK @ x"
proof -
  let ?w = "[BLANK, TAB, NL]"
  have "takeWhile (\<lambda>c. c \<notin> set ?w) (entry_text k v @ x) = k"
    using assms token_no_space [OF assms]
    by (auto simp: entry_text_eq takeWhile_append isspace_def replicate_app_Cons_same)
  then have "strcspn (entry_text k v @ x) ?w = length k" by (simp add: strcspn_def)
  then show ?thesis by (simp add: value_text_def entry_text_eq)
qed

lemma set_find:
  assumes k: "is_keyword k" and h: "in_order h k"
    and s: "h = a @ old @ b" "a \<noteq> [] \<Longrightarrow> last a = NL"
      "ascii_header_find h k = Some (length a) \<or> ascii_header_find h k = None"
  shows "ascii_header_find (a @ entry_text k v @ b') k = Some (length a)"
proof -
  have n: "NL \<notin> set k" using k token_NL by (simp add: is_keyword_def)
  have "entry_at (a @ entry_text k v @ b') k (length a)"
    using entry_mid [of a "entry_text k v @ b'" k] s(2) char_at_entry [of k v b'] by (simp add: entry_text_eq)
  moreover have "\<not> entry_at (a @ entry_text k v @ b') k j" if "j < length a" for j
  proof -
    have "\<not> entry_at h k j" using s(3) that s(1) by (auto simp: find_eq_Some find_eq_None)
    moreover have "last a = NL" using s(2) that by (cases a) simp_all
    ultimately show ?thesis using entry_left [OF that _ n] s(1) by blast
  qed
  ultimately show ?thesis by (auto simp: find_eq_Some)
qed

lemma set_get_value:
  assumes "is_keyword k" "in_order h k"
  obtains b where "value_text (ascii_header_set h k v) (the (ascii_header_find (ascii_header_set h k v) k)) =
      replicate (12 - length k) BLANK @ [BLANK] @ pad 20 (cut_value v) @ replicate 3 BLANK @ b"
    "ascii_header_find (ascii_header_set h k v) k \<noteq> None"
proof -
  obtain a old b b' where s: "h = a @ old @ b"
    "\<And>v. ascii_header_set h k v = a @ entry_text k (cut_value v) @ b'"
    "a \<noteq> [] \<Longrightarrow> last a = NL"
    "ascii_header_find h k = Some (length a) \<or> ascii_header_find h k = None"
    using set_split [OF assms] by metis
  have f: "ascii_header_find (ascii_header_set h k v) k = Some (length a)"
    unfolding s(2) using set_find [OF assms s(1,3,4)] .
  show thesis using that [of b'] f assms(1) value_text_entry [of k a "cut_value v" b']
    by (simp add: s(2) is_keyword_def)
qed

text \<open>The entries of another keyword stay, where they were or behind the edit.\<close>

lemma entries_around:
  assumes a: "last a = NL" and k': "NL \<notin> set k'"
    and x: "NL \<notin> set x" "BACKSLASH \<notin> set x" and at: "\<not> entry_at (a @ x @ b) k' (length a)"
  shows "ascii_header_find (a @ x @ b) k' =
    (case find (entry_at a k') [0..<length a] of
       Some p \<Rightarrow> Some p
     | None \<Rightarrow> map_option ((+) (length a + length x)) (find (entry_at b k') [1..<Suc (length b)]))"
    (is "_ = ?r")
proof -
  let ?h = "a @ x @ b" let ?n = "length a + length x"
  have left: "entry_at ?h k' j = entry_at a k' j" if "j < length a" for j
    using that a k' by (rule entry_left)
  have mid: "\<not> entry_at ?h k' j" if "length a \<le> j" "j < Suc ?n" for j
  proof (cases "j = length a")
    case False
    then have "entry_at ?h k' (length a + (j - length a)) = entry_at (x @ b) k' (j - length a)"
      using that by (intro entry_right) auto
    then show ?thesis using entry_inside [of "j - length a" x b k'] that x False by auto
  qed (use at in simp)
  have right: "entry_at ?h k' (?n + j) = entry_at b k' j" if "0 < j" for j
    using entry_right [OF that, of "a @ x" b k'] by simp
  show ?thesis
  proof (cases "find (entry_at a k') [0..<length a]")
    case (Some p)
    then have "ascii_header_find ?h k' = Some p"
      using left by (auto simp: find_eq_Some find_upt_Some)
    then show ?thesis by (simp add: Some)
  next
    case None
    have none: "\<not> entry_at ?h k' j" if "j < Suc ?n" for j
      using None left mid [of j] that by (cases "j < length a") (auto simp: find_none)
    show ?thesis
    proof (cases "find (entry_at b k') [1..<Suc (length b)]")
      case N: None
      have "\<not> entry_at ?h k' j" if "j \<le> length ?h" for j
      proof (cases "j < Suc ?n")
        case False
        then have "j - ?n \<in> set [1..<Suc (length b)]" using that by auto
        then have "\<not> entry_at b k' (j - ?n)" using N by (simp only: find_none) blast
        then show ?thesis using right [of "j - ?n"] False by simp
      qed (use none in blast)
      then show ?thesis using None N by (simp add: find_eq_None del: upt_Suc)
    next
      case (Some q)
      then obtain q': "0 < q" "q \<le> length b" "entry_at b k' q" "\<And>j. 0 < j \<Longrightarrow> j < q \<Longrightarrow> \<not> entry_at b k' j"
        by (auto simp: find_upt_Some simp del: upt_Suc)
      have "\<not> entry_at ?h k' j" if "j < ?n + q" for j
      proof (cases "j < Suc ?n")
        case False
        then show ?thesis using right [of "j - ?n"] q'(4) [of "j - ?n"] that by auto
      qed (use none in blast)
      then show ?thesis using None Some q' right [OF q'(1)]
        by (auto simp: find_eq_Some simp del: upt_Suc)
    qed
  qed
qed

lemma value_text_eq:
  "value_text h i = dropWhile (\<lambda>c. c \<notin> set [BLANK, TAB, NL]) (drop i h)"
  by (simp add: value_text_def strcspn_def dropWhile_eq_drop add.commute)

lemma takeWhile_upto [simp]: "takeWhile (\<lambda>c. c \<noteq> z) (m @ z # x) = takeWhile (\<lambda>c. c \<noteq> z) m"
  by (induction m) auto

lemma value_left:
  assumes "j < length a" "last a = NL"
  shows "takeWhile (\<lambda>c. c \<noteq> NL) (value_text (a @ x) j) = takeWhile (\<lambda>c. c \<noteq> NL) (value_text a j)"
proof -
  let ?w = "[BLANK, TAB, NL]"
  have d: "drop j a \<noteq> []" "last (drop j a) = NL" using assms by auto
  then obtain m where m: "drop j a = m @ [NL]" by (metis append_butlast_last_id)
  have s: "value_text (a @ x) j = dropWhile (\<lambda>c. c \<notin> set ?w) (m @ [NL] @ x)" for x
    using assms(1) by (simp add: value_text_eq m)
  show ?thesis unfolding s s [of "[]", simplified] by (induction m) auto
qed

lemma value_right: "value_text (y @ b) (length y + q) = value_text b q"
  by (simp add: value_text_eq)

lemma token_unique:
  assumes "token k" "token k'" "prefix k (k' @ c # u)" "isspace c" "isspace (char_at (k' @ c # u) (length k))"
  shows "k = k'"
proof -
  have nc: "c \<notin> set k" using assms(1,4) token_no_space by blast
  then have p: "prefix k k'" using assms(3) by (auto simp: prefix_append prefix_Cons)
  show ?thesis
  proof (cases "length k < length k'")
    case True
    then have "isspace (k' ! length k)" using assms(5) by simp
    then show ?thesis using True token_no_space [OF assms(2)] nth_mem by blast
  qed (use p in \<open>auto simp: prefix_def\<close>)
qed

lemma not_entry_other:
  assumes "token k" "token k'" "k' \<noteq> k" "a \<noteq> []" "last a = NL" "c = BLANK \<or> c = TAB"
  shows "\<not> entry_at (a @ k @ c # u) k' (length a)"
proof
  assume "entry_at (a @ k @ c # u) k' (length a)"
  then have "prefix k' (k @ c # u)"
    "char_at (k @ c # u) (length k') = TAB \<or> char_at (k @ c # u) (length k') = BLANK"
    using entry_mid [of a "k @ c # u" k'] assms(4,5) by blast+
  then have "k' = k" using assms(1,2,6) by (intro token_unique [of k' k c u]) (auto simp: isspace_def)
  with assms(3) show False by simp
qed

lemma not_entry_DATA:
  assumes "token k'" "a \<noteq> []" "last a = NL" "b = [] \<or> prefix DATA b"
  shows "\<not> entry_at (a @ b) k' (length a)"
proof
  assume e: "entry_at (a @ b) k' (length a)"
  have p: "prefix k' b" "char_at b (length k') = TAB \<or> char_at b (length k') = BLANK"
    using entry_mid [of a b k'] assms(2,3) e by blast+
  have "k' \<noteq> []" "NL \<notin> set k'" using assms(1) token_NL by (auto simp: token_def)
  with p(1) assms(4) obtain u where b: "b = DATA @ u" by (auto simp: prefix_def)
  with p(1) \<open>NL \<notin> set k'\<close> have "prefix k' ''DATA''"
    using prefix_line [of DATA k' u] by simp
  then have "k' = [] \<or> k' = ''D'' \<or> k' = ''DA'' \<or> k' = ''DAT'' \<or> k' = ''DATA''"
    by (auto simp: prefix_Cons)
  with p(2) show False by (auto simp: b)
qed

lemma set_other_find:
  assumes k: "is_keyword k" "is_keyword k'" "k' \<noteq> k" and h: "in_order h k" "0 < fst (set_point h k)"
    and v: "NL \<notin> set v" "BACKSLASH \<notin> set v" "BACKSLASH \<notin> set k"
  shows "line_value (ascii_header_set h k v) k' = line_value h k'"
proof -
  obtain a old b b' where s: "h = a @ old @ b"
    and new: "\<And>v. ascii_header_set h k v = a @ entry_text k (cut_value v) @ b'"
    and al: "a \<noteq> [] \<Longrightarrow> last a = NL" and ol: "NL \<notin> set old"
    and cs: "ascii_header_find h k = Some (length a) \<and> prefix k old \<and> b' = b \<or>
      ascii_header_find h k = None \<and> old = [] \<and> (b' = b \<and> prefix DATA b \<or> b = [] \<and> b' = [NL])"
    by (rule set_split [OF k(1) h(1)]) blast
  let ?e = "entry_text k (cut_value v)"
  have a: "a \<noteq> []" "last a = NL"
  proof -
    show "a \<noteq> []"
      using h(2) cs s
      by (auto simp: set_point_def strstr_Some strstr_None split: option.splits)
    with al show "last a = NL" by blast
  qed
  have k': "NL \<notin> set k'" "token k'" "token k" "NL \<notin> set k" using k token_NL by (simp_all add: is_keyword_def)
  have ne: "NL \<notin> set ?e" "BACKSLASH \<notin> set ?e"
    using v k'(4) set_entry_text [of k "cut_value v"] set_cut_value [of v] by auto
  have ob: "BACKSLASH \<notin> set old" using h(1) s by (simp add: in_order_def)
  have new_at: "\<not> entry_at (a @ ?e @ b') k' (length a)"
    using not_entry_other [OF k'(3,2) k(3) a, of BLANK]
    by (simp add: entry_text_eq replicate_app_Cons_same)
  have old_at: "\<not> entry_at (a @ old @ b) k' (length a)"
  proof (cases "ascii_header_find h k")
    case (Some p)
    with cs have p: "p = length a" and "prefix k old" by auto
    then obtain u where u: "old @ b = k @ u" by (auto simp: prefix_def)
    have "entry_at (a @ old @ b) k (length a)" using Some p s by (simp add: find_eq_Some)
    then have "char_at u 0 = TAB \<or> char_at u 0 = BLANK"
      using entry_mid [of a "old @ b" k] a by (simp add: u)
    then obtain c w where "u = c # w" "c = BLANK \<or> c = TAB" by (cases u) auto
    then show ?thesis unfolding u using not_entry_other [OF k'(3,2) k(3) a] by simp
  next
    case None
    then show ?thesis using cs not_entry_DATA [OF k'(2) a, of b] by auto
  qed
  have bb: "find (entry_at b' k') [1..<Suc (length b')] = find (entry_at b k') [1..<Suc (length b)]"
    "q \<in> set [1..<Suc (length b)] \<Longrightarrow> value_text b' q = value_text b q" for q
    using cs k'(2) by (auto simp: entry_at_def token_def)
  note F = entries_around [OF a(2) k'(1) ne new_at] entries_around [OF a(2) k'(1) ol ob old_at]
  show ?thesis
  proof (cases "find (entry_at a k') [0..<length a]")
    case (Some p)
    then have "p < length a" by (simp add: find_upt_Some)
    then show ?thesis
      unfolding new unfolding s line_value_def F Some by (simp add: value_left [OF _ a(2)])
  next
    case None
    show ?thesis
    proof (cases "find (entry_at b k') [1..<Suc (length b)]")
      case N: None
      then show ?thesis unfolding new unfolding s line_value_def F None bb(1) by simp
    next
      case (Some q)
      then have "q \<in> set [1..<Suc (length b)]" unfolding find_upt_Some by auto
      then have "value_text b' q = value_text b q" by (rule bb(2))
      then show ?thesis
        unfolding new unfolding s line_value_def F None bb(1) Some
        using value_right [of "a @ ?e" b' q] value_right [of "a @ old" b q] by simp
    qed
  qed
qed

text \<open>What is scanned after a setting, and a way to see that a header is in order.\<close>

lemma set_get_scan:
  assumes "is_keyword k" "in_order h k" and l: "int (length v) < 131072"
  shows "\<exists>w t. list_all isspace w \<and>
    ascii_header_get (ascii_header_set h k v) k scan = scan (w @ v @ BLANK # t)"
proof -
  obtain b where b: "value_text (ascii_header_set h k v) (the (ascii_header_find (ascii_header_set h k v) k)) =
      replicate (12 - length k) BLANK @ [BLANK] @ pad 20 v @ replicate 3 BLANK @ b"
    and f: "ascii_header_find (ascii_header_set h k v) k \<noteq> None"
    using set_get_value [OF assms(1,2), of v] cut_value [OF l] by metis
  obtain t where "pad 20 v @ replicate 3 BLANK @ b = v @ BLANK # t" using replicate_pad by metis
  then show ?thesis using b f
    by (intro exI [of _ "replicate (12 - length k) BLANK @ [BLANK]"] exI [of _ t])
      (auto simp: ascii_header_get_def isspace_def list_all_iff)
qed

lemma in_orderI:
  assumes "BACKSLASH \<notin> set h" "last h = NL" "strstr h DATA = None"
  shows "in_order h k"
proof (cases "ascii_header_find h k")
  case (Some i)
  then have e: "i \<le> length h" "entry_at h k i" by (simp_all add: find_eq_Some)
  have "i = 0 \<or> h ! (i - 1) = NL"
  proof (cases "i = 0")
    case False
    then have i: "i - 1 < length h" using e(1) by simp
    then have "h ! (i - 1) \<noteq> BACKSLASH" using assms(1) nth_mem by metis
    then show ?thesis using e(2) i False by (simp add: entry_at_def delimited_def char_at_def)
  qed simp
  then show ?thesis using assms(1) Some by (simp add: in_order_def set_point_def)
next
  case None
  have "length h = 0 \<or> h ! (length h - 1) = NL"
    using assms(2) by (cases h rule: rev_cases) auto
  then show ?thesis using assms(1,3) None by (simp add: in_order_def set_point_def)
qed

section \<open>Properties of headers\<close>

text \<open>C20: \<open>ascii_header_find\<close>, which jumps from one occurrence of the keyword to the next, finds the
  first position where an entry of the keyword stands, whatever the header and the keyword.\<close>

theorem header_find_first:
  "ascii_header_find header keyword = find (entry_at header keyword) [0..<Suc (length header)]"
  by (rule ascii_header_find_eq)


definition demo_header :: string where
  "demo_header = ''HDR_VERSION 1.0'' @ [NL] @ ''NCHAN 4 # channels'' @ [NL] @ ''NPOL 2'' @ [NL]"






text \<open>An edit needs room for the padded entry at most.\<close>

lemma set_length:
  "length (ascii_header_set h k v) \<le> length h + max 12 (length k) + max 20 (length v) + 5"
proof -
  have "length (cut_value v) \<le> length v" by (rule length_cut_value)
  then show ?thesis
    by (auto simp: ascii_header_set_def entry_text_def set_point_def split: option.splits prod.splits)
qed

text \<open>
  Of two new entries before the line \<open>DATA\<close> the second cannot be found: the first is written before
  the marker on the marker's own line, and the second behind it.
\<close>

lemma second_entry_lost:
  "let h = ascii_header_set (ascii_header_set (''HDR_VERSION 1.0'' @ [NL] @ DATA) ''FREQ'' ''1400'') ''BW'' ''64''
   in line_value h ''FREQ'' \<noteq> None \<and> ascii_header_get h ''BW'' scanf_s = (-1, None)"
  by code_simp

end
