(* ===== verification/Name_Arrays.thy ===== *)
theory Name_Arrays
  imports C_String Dada_Prelude
begin

text \<open>
  The growing arrays of src/string_array.c and src/node_array.c, searched by name. An array is
  the list of its elements; its counter is the length of the list. The allocator succeeds (the code
  asserts that it does). The laws that a search and an addition keep are the locale
  \<open>name_table\<close>, which the command table interprets as well.
\<close>

section \<open>A table searched by name\<close>

text \<open>
  The first entry of a name is found; what is added is found if the name is new to the table.
\<close>

locale name_table =
  fixes empty :: 't and search :: "'t \<Rightarrow> string \<Rightarrow> 'e option" and add :: "'e \<Rightarrow> 't \<Rightarrow> 't"
    and name :: "'e \<Rightarrow> string"
  assumes search_empty: "search empty k = None"
    and search_add: "search (add e t) k =
      (case search t k of None \<Rightarrow> if name e = k then Some e else None | Some x \<Rightarrow> Some x)"
begin

lemma search_added:
  "search (fold add es t) k = (case search t k of None \<Rightarrow> find (\<lambda>e. name e = k) es | Some x \<Rightarrow> Some x)"
  by (induction es arbitrary: t) (auto simp: search_add split: option.splits)

lemma search_built: "search (fold add es empty) k = find (\<lambda>e. name e = k) es"
  by (simp add: search_added search_empty)

lemma search_unique:
  assumes "distinct (map name es)" "e \<in> set es"
  shows "search (fold add es empty) (name e) = Some e"
proof -
  have "find (\<lambda>x. name x = name e) es = Some e"
    using assms by (induction es) force+
  then show ?thesis by (simp add: search_built)
qed

lemma search_name:
  "search (fold add es empty) k = Some e \<Longrightarrow> e \<in> set es \<and> name e = k"
  by (auto simp: search_built find_Some_iff)

end

text \<open>A search loop over an array that grows at its end.\<close>

lemma find_snoc: "find P (xs @ [x]) = (case find P xs of None \<Rightarrow> if P x then Some x else None | Some y \<Rightarrow> Some y)"
  by (induction xs) auto

section \<open>String arrays\<close>

type_synonym string_array = "string list"

definition string_array_create :: string_array where "string_array_create = []"

definition string_array_get :: "string_array \<Rightarrow> nat \<Rightarrow> string option" where
  "string_array_get l pos = (if pos < length l then Some (l ! pos) else None)"

definition string_array_size :: "string_array \<Rightarrow> nat" where "string_array_size l = length l"

text \<open>The entries from \<open>pos\<close> on move one place up; -1 is the error.\<close>

definition string_array_insert :: "string_array \<Rightarrow> string \<Rightarrow> nat \<Rightarrow> (unit, string_array) outcome" where
  "string_array_insert l entry pos =
    (if pos > length l then Err (-1) l
     else Done () ((foldr (\<lambda>v xs. xs[v := xs ! (v - 1)]) [Suc pos..<Suc (length l)] (l @ [[]])) [pos := entry]))"

definition string_array_append :: "string_array \<Rightarrow> string \<Rightarrow> (unit, string_array) outcome" where
  "string_array_append l entry = string_array_insert l entry (length l)"

definition string_array_remove :: "string_array \<Rightarrow> nat \<Rightarrow> (unit, string_array) outcome" where
  "string_array_remove l pos =
    (if length l = 0 then Err (-1) l
     else if pos \<ge> length l then Err (-1) l
     else Done () (take (length l - 1) (fold (\<lambda>v xs. xs[v := xs ! (v + 1)]) [pos..<length l - 1] l)))"

text \<open>As written, both places get the string of \<open>pos1\<close>. An index out of range is undefined.\<close>

definition string_array_switch :: "string_array \<Rightarrow> nat \<Rightarrow> nat \<Rightarrow> (unit, string_array) outcome" where
  "string_array_switch l pos1 pos2 =
    (if pos1 \<ge> length l \<or> pos2 \<ge> length l then Crash
     else
       let temp = l ! pos1; l = l[pos2 := l ! pos1]
       in Done () (l[pos1 := temp]))"

definition string_array_search :: "string_array \<Rightarrow> string \<Rightarrow> string option" where
  "string_array_search l match = find (\<lambda>s. s = match) l"

text \<open>The loop goes on to the next index after a removal, too.\<close>

function filter_loop :: "string \<Rightarrow> nat \<Rightarrow> string_array \<Rightarrow> string_array" where
  "filter_loop words istr l =
    (if istr < length l then
       filter_loop words (Suc istr)
         (if strstr words (l ! istr) = None
          then case string_array_remove l istr of Done u l' \<Rightarrow> l' | _ \<Rightarrow> l
          else l)
     else l)"
  by pat_completeness auto

termination
  by (relation "measure (\<lambda>(w, i, l). length l - i)") (auto simp: string_array_remove_def)

declare filter_loop.simps [simp del]

definition string_array_filter :: "string_array \<Rightarrow> string \<Rightarrow> string_array" where
  "string_array_filter l words = filter_loop words 0 l"

text \<open>The words \<open>strtok\<close> returns one after the other.\<close>

function strtok :: "string \<Rightarrow> string \<Rightarrow> string list" where
  "strtok delim s =
    (case dropWhile (\<lambda>c. c \<in> set delim) s of
       [] \<Rightarrow> []
     | c # t \<Rightarrow> (c # takeWhile (\<lambda>c. c \<notin> set delim) t) #
         strtok delim (tl (dropWhile (\<lambda>c. c \<notin> set delim) t)))"
  by pat_completeness auto

termination
proof (relation "measure (\<lambda>(d, s). length s)")
  fix delim s :: string and c t
  assume "dropWhile (\<lambda>c. c \<in> set delim) s = c # t"
  then have "length t < length s"
    using length_dropWhile_le [of "\<lambda>c. c \<in> set delim" s] by simp
  moreover have "length (tl (dropWhile (\<lambda>c. c \<notin> set delim) t)) \<le> length t"
    using length_dropWhile_le [of "\<lambda>c. c \<notin> set delim" t] by simp
  ultimately show "((delim, tl (dropWhile (\<lambda>c. c \<notin> set delim) t)), delim, s) \<in> measure (\<lambda>(d, s). length s)"
    by simp
qed simp

declare strtok.simps [simp del]

definition string_array_tok :: "string_array \<Rightarrow> string \<Rightarrow> string \<Rightarrow> string_array" where
  "string_array_tok l string white =
     fold (\<lambda>word l. if string_array_search l word = None
                    then case string_array_append l word of Done u l' \<Rightarrow> l' | _ \<Rightarrow> l
                    else l) (strtok white string) l"

text \<open>
  The lines of a file as \<open>fgets\<close> with a buffer of 1024 bytes cuts them, \<open>n\<close> the room left on
  the line; then the text of a line before a \<open>#\<close>, without leading white space. The new line at
  the end stays part of the string.
\<close>

fun fgets_lines :: "nat \<Rightarrow> string \<Rightarrow> string \<Rightarrow> string list" where
  "fgets_lines n line [] = (if line = [] then [] else [line])"
| "fgets_lines n line (c # t) =
    (if c = NL \<or> n = 1 then (line @ [c]) # fgets_lines 1023 [] t else fgets_lines (n - 1) (line @ [c]) t)"

definition line_text :: "string \<Rightarrow> string" where
  "line_text line = dropWhile (\<lambda>c. c \<in> {BLANK, CHR 0x0D, TAB, NL}) (takeWhile (\<lambda>c. c \<noteq> HASH) line)"

definition string_array_load :: "string_array \<Rightarrow> string option \<Rightarrow> (unit, string_array) outcome" where
  "string_array_load l file =
    (case file of
       None \<Rightarrow> Err (-1) l
     | Some text \<Rightarrow> Done ()
         (fold (\<lambda>line l. if line_text line = [] then l
                         else case string_array_append l (line_text line) of Done u l' \<Rightarrow> l' | _ \<Rightarrow> l)
           (fgets_lines 1023 [] text) l))"

section \<open>What the array operations do\<close>

lemma shift_up:
  "0 < a \<Longrightarrow> b \<le> length xs \<Longrightarrow>
    length (foldr (\<lambda>v xs. xs[v := xs ! (v - 1)]) [a..<b] xs) = length xs \<and>
    (\<forall>j < length xs. foldr (\<lambda>v xs. xs[v := xs ! (v - 1)]) [a..<b] xs ! j =
      (if a \<le> j \<and> j < b then xs ! (j - 1) else xs ! j))"
proof (induction b arbitrary: xs)
  case (Suc b)
  then show ?case using Suc.IH [of "xs[b := xs ! (b - 1)]"]
    by (auto simp: nth_list_update less_Suc_eq)
qed simp

lemma shift_down:
  "b < length xs \<Longrightarrow>
    length (fold (\<lambda>v xs. xs[v := xs ! (v + 1)]) [a..<b] xs) = length xs \<and>
    (\<forall>j < length xs. fold (\<lambda>v xs. xs[v := xs ! (v + 1)]) [a..<b] xs ! j =
      (if a \<le> j \<and> j < b then xs ! (j + 1) else xs ! j))"
  by (induction b) (auto simp: nth_list_update less_Suc_eq)

lemma shift_down_remove:
  assumes "pos < length l"
  shows "take (length l - 1) (fold (\<lambda>v xs. xs[v := xs ! (v + 1)]) [pos..<length l - 1] l) =
    take pos l @ drop (Suc pos) l"
proof (rule nth_equalityI)
  have s: "length l - 1 < length l" using assms by simp
  note S = shift_down [OF s, of pos]
  show "length (take (length l - 1) (fold (\<lambda>v xs. xs[v := xs ! (v + 1)]) [pos..<length l - 1] l)) =
      length (take pos l @ drop (Suc pos) l)"
    using assms S by simp
  fix j
  assume "j < length (take (length l - 1) (fold (\<lambda>v xs. xs[v := xs ! (v + 1)]) [pos..<length l - 1] l))"
  then have "j < length l - 1" using S by simp
  then show "take (length l - 1) (fold (\<lambda>v xs. xs[v := xs ! (v + 1)]) [pos..<length l - 1] l) ! j =
      (take pos l @ drop (Suc pos) l) ! j"
    using S assms by (auto simp: nth_append)
qed

lemma insert_eq:
  "string_array_insert l entry pos =
    (if pos > length l then Err (-1) l else Done () (take pos l @ entry # drop pos l))"
proof (cases "pos > length l")
  case False
  let ?f = "foldr (\<lambda>v xs. xs[v := xs ! (v - 1)]) [Suc pos..<Suc (length l)] (l @ [[]])"
  have S: "length ?f = Suc (length l) \<and>
      (\<forall>j < Suc (length l). ?f ! j = (if Suc pos \<le> j \<and> j < Suc (length l) then (l @ [[]]) ! (j - 1) else (l @ [[]]) ! j))"
    using shift_up [of "Suc pos" "Suc (length l)" "l @ [[]]"] by simp
  have "?f[pos := entry] = take pos l @ entry # drop pos l"
  proof (rule nth_equalityI)
    show "length (?f[pos := entry]) = length (take pos l @ entry # drop pos l)" using S False by simp
    fix j
    assume "j < length (?f[pos := entry])"
    then show "?f[pos := entry] ! j = (take pos l @ entry # drop pos l) ! j"
      using S False by (auto simp: nth_list_update nth_append nth_Cons' not_less)
  qed
  then show ?thesis using False by (simp add: string_array_insert_def)
qed (simp add: string_array_insert_def)

lemma append_eq [simp]: "string_array_append l entry = Done () (l @ [entry])"
  by (simp add: string_array_append_def insert_eq)

lemma remove_eq:
  "string_array_remove l pos =
    (if pos < length l then Done () (take pos l @ drop (Suc pos) l) else Err (-1) l)"
  using shift_down_remove [of pos l] by (auto simp: string_array_remove_def)

interpretation strings: name_table string_array_create string_array_search
  "\<lambda>e l. case string_array_append l e of Done u l' \<Rightarrow> l' | _ \<Rightarrow> l" "\<lambda>e. e"
  by unfold_locales
    (auto simp: string_array_search_def string_array_create_def find_snoc split: option.split)

section \<open>Node arrays\<close>

record node =
  node_name :: string
  node_port :: int
  node_space :: u64

record node_array =
  nodes :: "node list"
  cnode :: nat

definition node_array_create :: node_array where
  "node_array_create = \<lparr>nodes = [], cnode = 0\<rparr>"

definition node_array_get :: "node_array \<Rightarrow> nat \<Rightarrow> node option" where
  "node_array_get array pos = (if pos < length (nodes array) then Some (nodes array ! pos) else None)"

definition node_array_size :: "node_array \<Rightarrow> nat" where "node_array_size array = length (nodes array)"

definition node_array_search :: "node_array \<Rightarrow> string \<Rightarrow> node option" where
  "node_array_search array match = find (\<lambda>n. node_name n = match) (nodes array)"

definition node_array_add :: "node_array \<Rightarrow> string \<Rightarrow> int \<Rightarrow> (unit, node_array) outcome" where
  "node_array_add array name port =
    (if list_ex (\<lambda>n. name = node_name n) (nodes array) then Err (-1) array
     else Done () (array\<lparr>nodes := nodes array @ [\<lparr>node_name = name, node_port = port, node_space = 0\<rparr>]\<rparr>))"

text \<open>
  Without any node left the size asked of \<open>realloc\<close> is 0, for which the C library frees the
  array and returns NULL; the assertion behind the call then fails.
\<close>

definition node_array_remove :: "node_array \<Rightarrow> nat \<Rightarrow> (unit, node_array) outcome" where
  "node_array_remove array inode =
    (if inode \<ge> length (nodes array) then Crash
     else
       let n = length (nodes array) - 1;
           ns = take n (fold (\<lambda>j ns. ns[j := ns ! (j + 1)]) [inode..<n] (nodes array))
       in if n = 0 then Crash else Done () (array\<lparr>nodes := ns\<rparr>))"

definition node_array_get_available :: "node_array \<Rightarrow> u64" where
  "node_array_get_available array = fold (\<lambda>n space. space + node_space n) (nodes array) 0"

text \<open>
  \<open>sock_open\<close> is the function of src/sock.c: the descriptor of a connection to a host and port, or -1.
  The second result is the buffer size. With no node \<open>cnode %= nnode\<close> divides by zero.
\<close>

definition node_array_open ::
  "(string \<Rightarrow> int \<Rightarrow> int) \<Rightarrow> node_array \<Rightarrow> (int \<times> u64, node_array) outcome" where
  "node_array_open sock_open array =
    (if nodes array = [] then Crash
     else
       let c = cnode array mod length (nodes array);
           node = nodes array ! c;
           fd = sock_open (node_name node) (node_port node)
       in Done (fd, 4096) (array\<lparr>cnode := (if fd < 0 then c else c + 1)\<rparr>))"

definition add_node :: "string \<times> int \<Rightarrow> node_array \<Rightarrow> node_array" where
  "add_node = (\<lambda>(name, port) array.
     case node_array_add array name port of Done u a \<Rightarrow> a | _ \<Rightarrow> array)"

definition node_address :: "node_array \<Rightarrow> string \<Rightarrow> (string \<times> int) option" where
  "node_address array name = map_option (\<lambda>n. (node_name n, node_port n)) (node_array_search array name)"

lemma find_none_ex: "list_ex P xs \<longleftrightarrow> find P xs \<noteq> None"
  by (induction xs) auto

interpretation node_table: name_table node_array_create node_address add_node fst
proof unfold_locales
  fix e :: "string \<times> int" and t k
  have s: "(\<lambda>n. x = node_name n) = (\<lambda>n. node_name n = x)" for x :: string by auto
  show "node_address (add_node e t) k =
    (case node_address t k of None \<Rightarrow> if fst e = k then Some e else None | Some x \<Rightarrow> Some x)"
    by (cases e; cases "find (\<lambda>n. node_name n = k) (nodes t)")
      (auto simp: node_address_def add_node_def node_array_add_def node_array_search_def s find_none_ex find_snoc)
qed (simp add: node_address_def node_array_search_def node_array_create_def)

text \<open>The calls that change an array, and the names they leave.\<close>

datatype node_call = Add_node string int | Remove_node nat | Open_node

definition node_exec :: "(string \<Rightarrow> int \<Rightarrow> int) \<Rightarrow> node_call \<Rightarrow> node_array \<Rightarrow> node_array option" where
  "node_exec sock_open c a =
    (case c of
       Add_node name port \<Rightarrow> final_state (node_array_add a name port)
     | Remove_node i \<Rightarrow> final_state (node_array_remove a i)
     | Open_node \<Rightarrow> final_state (node_array_open sock_open a))"

fun run_nodes :: "(string \<Rightarrow> int \<Rightarrow> int) \<Rightarrow> node_call list \<Rightarrow> node_array \<Rightarrow> node_array option" where
  "run_nodes sock_open [] a = Some a"
| "run_nodes sock_open (c # cs) a = Option.bind (node_exec sock_open c a) (run_nodes sock_open cs)"

definition unique_names :: "node_array \<Rightarrow> bool" where
  "unique_names a \<longleftrightarrow> distinct (map node_name (nodes a))"

lemma distinct_remove: "distinct xs \<Longrightarrow> distinct (take i xs @ drop (Suc i) xs)"
  by (metis distinct_append distinct_drop distinct_take le_SucI order_refl set_take_disj_set_drop_if_distinct)

lemma node_array_remove_eq:
  "node_array_remove a i =
    (if i < length (nodes a) \<and> 1 < length (nodes a)
     then Done () (a\<lparr>nodes := take i (nodes a) @ drop (Suc i) (nodes a)\<rparr>) else Crash)"
proof (cases "i < length (nodes a)")
  case True
  show ?thesis
  proof (cases "length (nodes a) = 1")
    case False
    then show ?thesis using True by (simp only: node_array_remove_def Let_def shift_down_remove [OF True]) auto
  qed (use True in \<open>simp add: node_array_remove_def\<close>)
qed (simp add: node_array_remove_def)

lemma node_exec_unique:
  assumes "unique_names a" "node_exec sock_open c a = Some a'"
  shows "unique_names a'"
proof (cases c)
  case (Add_node name port)
  then show ?thesis using assms
    by (auto simp: node_exec_def unique_names_def node_array_add_def list_ex_iff split: if_splits)
next
  case (Remove_node i)
  then show ?thesis using assms distinct_remove [of "map node_name (nodes a)" i]
    by (auto simp: node_exec_def unique_names_def node_array_remove_eq take_map drop_map split: if_splits)
next
  case Open_node
  then show ?thesis using assms
    by (auto simp: node_exec_def unique_names_def node_array_open_def Let_def split: if_splits)
qed


lemma run_nodes_unique: "unique_names a \<Longrightarrow> run_nodes f cs a = Some a' \<Longrightarrow> unique_names a'"
  by (induction cs arbitrary: a) (auto simp: bind_eq_Some_conv intro: node_exec_unique)

text \<open>\<open>m\<close> calls of \<open>node_array_open\<close>, and the descriptors they return.\<close>

fun open_many :: "(string \<Rightarrow> int \<Rightarrow> int) \<Rightarrow> nat \<Rightarrow> node_array \<Rightarrow> (int list \<times> node_array) option" where
  "open_many f 0 a = Some ([], a)"
| "open_many f (Suc m) a =
    (case node_array_open f a of
       Done (fd, bs) a' \<Rightarrow> map_option (\<lambda>(fds, b). (fd # fds, b)) (open_many f m a')
     | _ \<Rightarrow> None)"

definition connect_node :: "(string \<Rightarrow> int \<Rightarrow> int) \<Rightarrow> node_array \<Rightarrow> nat \<Rightarrow> int" where
  "connect_node f a j =
     (let n = nodes a ! (j mod length (nodes a)) in f (node_name n) (node_port n))"

lemma node_array_open_eq:
  "nodes a \<noteq> [] \<Longrightarrow> 0 \<le> connect_node f a (cnode a) \<Longrightarrow>
    node_array_open f a =
      Done (connect_node f a (cnode a), 4096) (a\<lparr>cnode := Suc (cnode a mod length (nodes a))\<rparr>)"
  by (auto simp: node_array_open_def connect_node_def Let_def)

lemma open_many_eq:
  assumes "nodes a \<noteq> []" "\<And>j. 0 \<le> connect_node f a j"
  shows "\<exists>b. open_many f m a = Some (map (\<lambda>j. connect_node f a (cnode a + j)) [0..<m], b)"
  using assms
proof (induction m arbitrary: a)
  case (Suc m)
  let ?a = "a\<lparr>cnode := Suc (cnode a mod length (nodes a))\<rparr>"
  have c: "connect_node f ?a j = connect_node f a j" for j by (simp add: connect_node_def)
  have mod: "connect_node f a (Suc (cnode a mod length (nodes a) + j)) = connect_node f a (Suc (cnode a + j))" for j
    unfolding connect_node_def by (simp only: add_Suc_right [symmetric] mod_add_left_eq)
  obtain b where "open_many f m ?a = Some (map (\<lambda>j. connect_node f a (cnode ?a + j)) [0..<m], b)"
    using Suc.IH [of ?a] Suc.prems by (auto simp: c)
  then show ?case using Suc.prems node_array_open_eq [of a f] mod
    by (auto simp: upt_conv_Cons map_Suc_upt [symmetric] simp del: upt_Suc)
qed simp

section \<open>Properties of the arrays\<close>

text \<open>C24: whatever nodes are added to an array and removed from it, and whatever is opened between, no
  two nodes have the same name, and a search for the name of a node returns that node.\<close>

theorem node_names_unique:
  assumes "run_nodes sock_open cs node_array_create = Some a"
  shows "distinct (map node_name (nodes a)) \<and>
    (\<forall>i < node_array_size a. node_array_search a (node_name (nodes a ! i)) = node_array_get a i)"
proof -
  have d: "distinct (map node_name (nodes a))"
    using run_nodes_unique [OF _ assms] by (simp add: unique_names_def node_array_create_def)
  have "find (\<lambda>n. node_name n = node_name (nodes a ! i)) (nodes a) = Some (nodes a ! i)"
    if "i < length (nodes a)" for i
    using that d by (fastforce simp: find_Some_iff distinct_conv_nth intro!: exI [of _ i])
  then show ?thesis using d by (simp add: node_array_search_def node_array_get_def node_array_size_def)
qed

definition demo_nodes :: "node_call list" where
  "demo_nodes = [Add_node ''a'' 1, Add_node ''b'' 2, Add_node ''a'' 3, Open_node, Add_node ''c'' 4, Remove_node 0]"

theorem node_names_unique_witness:
  "\<exists>a. run_nodes (\<lambda>h p. p) demo_nodes node_array_create = Some a \<and> map node_name (nodes a) = [''b'', ''c''] \<and>
    node_array_search a ''c'' = node_array_get a 1"
proof -
  have "map_option (\<lambda>a. map node_name (nodes a)) (run_nodes (\<lambda>h p. p) demo_nodes node_array_create) =
      Some [''b'', ''c'']" by code_simp
  then obtain a where a: "run_nodes (\<lambda>h p. p) demo_nodes node_array_create = Some a"
    and n: "map node_name (nodes a) = [''b'', ''c'']" by auto
  then have l: "1 < length (nodes a)" "node_name (nodes a ! 1) = ''c''" by (auto simp: map_eq_Cons_conv)
  have "node_array_search a (node_name (nodes a ! 1)) = node_array_get a 1"
    using conjunct2 [OF node_names_unique [OF a]] l(1) unfolding node_array_size_def by simp
  then have "node_array_search a ''c'' = node_array_get a 1" unfolding l(2) .
  then show ?thesis by (intro exI [of _ a] conjI a n)
qed

text \<open>As long as every node accepts, the connections go to the nodes in turn, from the current
  one on and around.\<close>

theorem nodes_in_turn:
  assumes "nodes a \<noteq> []" and "\<forall>j. 0 \<le> connect_node sock_open a j"
  shows "map_option fst (open_many sock_open m a) =
    Some (map (\<lambda>j. connect_node sock_open a (cnode a + j)) [0..<m])"
  using open_many_eq [of a sock_open m] assms by auto

definition two_nodes :: node_array where
  "two_nodes = \<lparr>nodes = [\<lparr>node_name = ''a'', node_port = 3, node_space = 0\<rparr>,
     \<lparr>node_name = ''b'', node_port = 4, node_space = 0\<rparr>], cnode = 1\<rparr>"

theorem nodes_in_turn_witness:
  "map_option fst (open_many (\<lambda>h p. p) 5 two_nodes) = Some [4, 3, 4, 3, 4]"
proof -
  have "0 \<le> connect_node (\<lambda>h p. p) two_nodes j" for j
  proof -
    have "j mod 2 = 0 \<or> j mod 2 = 1" by arith
    moreover have "length (nodes two_nodes) = 2" by (simp add: two_nodes_def)
    ultimately have "connect_node (\<lambda>h p. p) two_nodes j = connect_node (\<lambda>h p. p) two_nodes 0 \<or>
      connect_node (\<lambda>h p. p) two_nodes j = connect_node (\<lambda>h p. p) two_nodes 1"
      by (auto simp: connect_node_def)
    then show ?thesis by (auto simp: connect_node_def two_nodes_def)
  qed
  moreover have "nodes two_nodes \<noteq> []" by (simp add: two_nodes_def)
  moreover have "map (\<lambda>j. connect_node (\<lambda>h p. p) two_nodes (cnode two_nodes + j)) [0..<5] = [4, 3, 4, 3, 4]"
    by code_simp
  ultimately show ?thesis using nodes_in_turn [of two_nodes "\<lambda>h p. p" 5] by simp
qed

text \<open>\<open>string_array_tok\<close> adds the words of a string that are not in the array, in order and each
  once: the array keeps what it has, holds every word, and gains no repetition.\<close>

theorem tok_adds_words:
  "(\<exists>new. string_array_tok l string white = l @ new \<and> distinct new \<and>
     set new = set (strtok white string) - set l)"
proof -
  have "\<exists>new. fold (\<lambda>word l. if string_array_search l word = None
      then case string_array_append l word of Done u l' \<Rightarrow> l' | _ \<Rightarrow> l else l) ws l = l @ new \<and>
      distinct new \<and> set new = set ws - set l" for ws
  proof (induction ws arbitrary: l)
    case (Cons w ws)
    show ?case
    proof (cases "w \<in> set l")
      case True
      then have "string_array_search l w \<noteq> None" by (auto simp: string_array_search_def find_none)
      then show ?thesis using Cons.IH [of l] True by auto
    next
      case False
      then have "string_array_search l w = None" by (auto simp: string_array_search_def find_none)
      moreover obtain new where "fold (\<lambda>word l. if string_array_search l word = None
          then case string_array_append l word of Done u l' \<Rightarrow> l' | _ \<Rightarrow> l else l) ws (l @ [w]) = (l @ [w]) @ new"
        "distinct new" "set new = set ws - set (l @ [w])"
        using Cons.IH [of "l @ [w]"] by blast
      ultimately show ?thesis using False by (intro exI [of _ "w # new"]) auto
    qed
  qed simp
  then show ?thesis by (simp add: string_array_tok_def)
qed

text \<open>\<open>string_array_switch\<close> loses a string, and \<open>string_array_filter\<close> keeps one it should remove.\<close>

lemma switch_loses_string:
  "string_array_switch [''a'', ''b''] 0 1 = Done () [''a'', ''a'']"
  by code_simp

lemma filter_skips:
  "string_array_filter [''a'', ''b'', ''c''] ''xyz'' = [''b'']"
  by code_simp

lemma insert_remove:
  "pos \<le> length l \<Longrightarrow> string_array_insert l e pos = Done u l' \<Longrightarrow> string_array_remove l' pos = Done () l"
  by (auto simp: insert_eq remove_eq)

end
