(* ===== verification/Command_Parse.thy ===== *)
theory Command_Parse
  imports Name_Arrays
begin

text \<open>
  The command interpreter of src/command_parse.c: a table of named functions, and the dispatch of
  a line of text. The functions are values of a type of the client's; \<open>call\<close> runs one, with its argument,
  on the state of the program, and gives its return value and what it prints on the reply stream; it may wait.
\<close>

section \<open>The table\<close>

datatype 'c func = Parse_help | Parse_exit | Function 'c

record 'c command_t =
  cmd :: "'c func"
  cmd_name :: string
  cmd_help :: "string option"
  cmd_more :: "string option"

record 'c command_parse_t =
  cmds :: "'c command_t list"

definition COMMAND_PARSE_EXIT :: int where "COMMAND_PARSE_EXIT = 13"

definition command_parse_add ::
  "'c func \<Rightarrow> string option \<Rightarrow> string option \<Rightarrow> string option \<Rightarrow> 'c command_parse_t \<Rightarrow>
    (unit, 'c command_parse_t) outcome" where
  "command_parse_add f name short long parser =
    (case name of
       None \<Rightarrow> Err (-1) parser
     | Some n \<Rightarrow>
         Done () (parser\<lparr>cmds := cmds parser @ [\<lparr>cmd = f, cmd_name = n, cmd_help = short, cmd_more = long\<rparr>]\<rparr>))"

definition command_parse_create :: "'c command_parse_t" where
  "command_parse_create =
    (case andthen (command_parse_add Parse_help (Some ''help'') (Some ''print this list'') None \<lparr>cmds = []\<rparr>)
       (\<lambda>_. command_parse_add Parse_exit (Some ''exit'') (Some ''exit parser'') None) of
       Done u p \<Rightarrow> p
     | _ \<Rightarrow> \<lparr>cmds = []\<rparr>)"

text \<open>The search loop stops at the first command of the name; the ones behind it move down.\<close>

fun command_index :: "string \<Rightarrow> 'c command_t list \<Rightarrow> nat" where
  "command_index key [] = 0"
| "command_index key (c # cs) = (if key = cmd_name c then 0 else Suc (command_index key cs))"

definition command_parse_remove :: "string \<Rightarrow> 'c command_parse_t \<Rightarrow> (unit, 'c command_parse_t) outcome" where
  "command_parse_remove key parser =
    (let icmd = command_index key (cmds parser)
     in if icmd = length (cmds parser) then Err (-1) parser
        else
          let n = length (cmds parser) - 1
          in Done () (parser\<lparr>cmds := take n (fold (\<lambda>i cs. cs[i := cs ! (i + 1)]) [icmd..<n] (cmds parser))\<rparr>))"

section \<open>Running a command\<close>

definition blank :: "char \<Rightarrow> bool" where
  "blank c \<longleftrightarrow> c \<in> {BLANK, CHR 0x0D, TAB, NL}"

definition help_text :: "'c command_parse_t \<Rightarrow> string" where
  "help_text parser = ''Available commands:'' @ [NL, NL] @
     concat (map (\<lambda>c. cmd_name c @ [TAB] @ (case cmd_help c of None \<Rightarrow> ''(null)'' | Some h \<Rightarrow> h) @ [NL]) (cmds parser))"

definition run_func ::
  "('c \<Rightarrow> string option \<Rightarrow> 's \<Rightarrow> (int \<times> string, 's) outcome) \<Rightarrow> 'c command_parse_t \<Rightarrow> 'c func \<Rightarrow>
    string option \<Rightarrow> 's \<Rightarrow> (int \<times> string, 's) outcome" where
  "run_func call parser f arg s =
    (case f of
       Parse_help \<Rightarrow> Done (0, help_text parser) s
     | Parse_exit \<Rightarrow> Done (COMMAND_PARSE_EXIT, []) s
     | Function c \<Rightarrow> call c arg s)"

text \<open>\<open>strsep\<close>: the text up to the first blank, and what is behind it, NULL if there is none.\<close>

definition strsep :: "string \<Rightarrow> string \<times> string option" where
  "strsep s =
    (let key = takeWhile (\<lambda>c. \<not> blank c) s
     in (key, if key = s then None else Some (drop (length key + 1) s)))"

text \<open>The loop that cuts trailing white space stops at the first character.\<close>

definition cut_blanks :: "string \<Rightarrow> string" where
  "cut_blanks s = (case s of [] \<Rightarrow> [] | c # t \<Rightarrow> c # rev (dropWhile blank (rev t)))"

definition argument :: "string option \<Rightarrow> string option" where
  "argument rest =
    (case rest of
       None \<Rightarrow> None
     | Some s \<Rightarrow> let a = cut_blanks (dropWhile blank s) in if a = [] then None else Some a)"

definition command_parse_output ::
  "('c \<Rightarrow> string option \<Rightarrow> 's \<Rightarrow> (int \<times> string, 's) outcome) \<Rightarrow> 'c command_parse_t \<Rightarrow> string \<Rightarrow> 's \<Rightarrow>
    (int \<times> string, 's) outcome" where
  "command_parse_output call parser raw_cmd s =
    (let (key, rest) = strsep (dropWhile blank raw_cmd);
         icmd = command_index key (cmds parser)
     in if icmd = length (cmds parser) then Done (-1, []) s
        else run_func call parser (cmd (cmds parser ! icmd)) (argument rest) s)"

definition command_parse ::
  "('c \<Rightarrow> string option \<Rightarrow> 's \<Rightarrow> (int \<times> string, 's) outcome) \<Rightarrow> 'c command_parse_t \<Rightarrow> string \<Rightarrow> 's \<Rightarrow>
    (int \<times> string, 's) outcome" where
  "command_parse = command_parse_output"

section \<open>Its table laws\<close>

definition command_search :: "'c command_parse_t \<Rightarrow> string \<Rightarrow> 'c command_t option" where
  "command_search parser key =
    (let i = command_index key (cmds parser)
     in if i = length (cmds parser) then None else Some (cmds parser ! i))"

definition add_command :: "'c command_t \<Rightarrow> 'c command_parse_t \<Rightarrow> 'c command_parse_t" where
  "add_command c parser =
    (case command_parse_add (cmd c) (Some (cmd_name c)) (cmd_help c) (cmd_more c) parser of
       Done u p \<Rightarrow> p | _ \<Rightarrow> parser)"

lemma command_index_le: "command_index key cs \<le> length cs"
  by (induction cs) auto

lemma command_index_name: "command_index key cs < length cs \<Longrightarrow> cmd_name (cs ! command_index key cs) = key"
  by (induction cs) auto

lemma command_index_remove:
  "command_index key cs < length cs \<Longrightarrow>
    take (command_index key cs) cs @ drop (Suc (command_index key cs)) cs = remove1 (cs ! command_index key cs) cs"
proof (induction cs)
  case (Cons c cs)
  then show ?case using command_index_name [of key cs] by (cases "key = cmd_name c") auto
qed simp

lemma command_search_find: "command_search parser key = find (\<lambda>c. cmd_name c = key) (cmds parser)"
proof -
  have "(if command_index key cs = length cs then None else Some (cs ! command_index key cs)) =
      find (\<lambda>c. cmd_name c = key) cs" for cs :: "'c command_t list"
    by (induction cs) auto
  from this [of "cmds parser"] show ?thesis by (simp only: command_search_def Let_def)
qed

lemma cmds_add [simp]: "cmds (add_command c p) = cmds p @ [c]"
  by (cases c) (simp add: add_command_def command_parse_add_def)

lemma cmds_create:
  "cmds command_parse_create =
    [\<lparr>cmd = Parse_help, cmd_name = ''help'', cmd_help = Some ''print this list'', cmd_more = None\<rparr>,
     \<lparr>cmd = Parse_exit, cmd_name = ''exit'', cmd_help = Some ''exit parser'', cmd_more = None\<rparr>]"
  by (simp add: command_parse_create_def command_parse_add_def)

interpretation command_table: name_table "\<lparr>cmds = []\<rparr>" command_search add_command cmd_name
  by unfold_locales (auto simp: command_search_find find_snoc split: option.split)

lemma output_search:
  "command_parse_output call parser raw s =
    (let (key, rest) = strsep (dropWhile blank raw)
     in case command_search parser key of
          None \<Rightarrow> Done (-1, []) s
        | Some c \<Rightarrow> run_func call parser (cmd c) (argument rest) s)"
  by (simp add: command_parse_output_def command_search_def Let_def split: prod.split)

section \<open>Properties of the interpreter\<close>

lemma argument_trimmed:
  assumes "list_all blank w" "a \<noteq> []" "\<not> blank (hd a)" "\<not> blank (last a)" "list_all blank w'"
  shows "argument (Some (w @ a @ w')) = Some a"
proof -
  obtain c t where a: "a = c # t" using assms(2) by (cases a) auto
  have "dropWhile blank (w @ a @ w') = a @ w'"
    using assms(1,3) by (simp add: a dropWhile_append list_all_iff)
  moreover have "rev (dropWhile blank (rev (t @ w'))) = t"
    using assms(4,5) by (cases t rule: rev_cases)
      (auto simp: a dropWhile_append list_all_iff)
  ultimately show ?thesis by (simp add: argument_def cut_blanks_def a)
qed

lemma strsep_word:
  assumes "list_all (\<lambda>c. \<not> blank c) name" "blank b"
  shows "strsep (name @ b # r) = (name, Some r)" "strsep name = (name, None)"
  using assms by (simp_all add: strsep_def Let_def takeWhile_append list_all_iff)

text \<open>C25: an interpreter made of the two built-in commands and a list of functions with distinct names
  of their own answers a line with the function it names, called once with the rest of the line,
  which is trimmed on both sides, or with no argument if nothing is left; other names give -1.\<close>

theorem command_dispatch:
  assumes "distinct (map cmd_name cs)" "''help'' \<notin> cmd_name ` set cs" "''exit'' \<notin> cmd_name ` set cs"
    and "list_all blank w" "list_all (\<lambda>c. \<not> blank c) key" "key \<noteq> []" "blank b" "list_all blank w'"
    and "a \<noteq> []" "\<not> blank (hd a)" "\<not> blank (last a)" "list_all blank w''"
  shows "let parser = fold add_command cs command_parse_create
    in (\<forall>c \<in> set cs. cmd_name c = key \<longrightarrow>
          command_parse call parser (w @ key @ b # w' @ a @ w'') s = run_func call parser (cmd c) (Some a) s \<and>
          command_parse call parser (w @ key @ b # w') s = run_func call parser (cmd c) None s \<and>
          command_parse call parser (w @ key) s = run_func call parser (cmd c) None s) \<and>
       (key \<notin> insert ''help'' (insert ''exit'' (cmd_name ` set cs)) \<longrightarrow>
          command_parse call parser (w @ key @ b # w' @ a @ w'') s = Done (-1, []) s)"
proof -
  let ?p = "fold add_command cs command_parse_create"
  have search: "command_search ?p k =
      (case command_search command_parse_create k of None \<Rightarrow> find (\<lambda>e. cmd_name e = k) cs | Some x \<Rightarrow> Some x)"
    for k by (rule command_table.search_added)
  have found: "command_search ?p (cmd_name c) = Some c" if c: "c \<in> set cs" for c
  proof -
    have "cmd_name c \<noteq> ''help''" "cmd_name c \<noteq> ''exit''" using assms(2,3) c by force+
    moreover have "find (\<lambda>e. cmd_name e = cmd_name c) cs = Some c"
      using command_table.search_unique [OF assms(1) c] command_table.search_built by metis
    ultimately show ?thesis unfolding search by (auto simp: command_search_find cmds_create)
  qed
  have none: "command_search ?p key = None" if "key \<notin> insert ''help'' (insert ''exit'' (cmd_name ` set cs))"
    using that unfolding search by (auto simp: command_search_find cmds_create find_none split: option.split)
  have skip: "dropWhile blank (w @ key @ r) = key @ r" for r
    using assms(4-6) by (cases key) (auto simp: dropWhile_append list_all_iff)
  have arg: "argument (Some (w' @ a @ w'')) = Some a"
    using assms(8-12) by (intro argument_trimmed)
  have w': "dropWhile blank w' = []" using assms(8) by (simp add: list_all_iff)
  have noarg: "argument (Some w') = None" unfolding argument_def option.case w' by (simp add: cut_blanks_def)
  show ?thesis
    using found none skip [of "b # w' @ a @ w''"] skip [of "b # w'"] skip [of "[]"] arg noarg
      strsep_word [OF assms(5,7)]
    by (auto simp: Let_def command_parse_def output_search argument_def [of None])
qed

definition demo_commands :: "int command_t list" where
  "demo_commands = [\<lparr>cmd = Function 1, cmd_name = ''start'', cmd_help = None, cmd_more = None\<rparr>,
     \<lparr>cmd = Function 2, cmd_name = ''stop'', cmd_help = None, cmd_more = None\<rparr>]"

definition demo_call :: "int \<Rightarrow> string option \<Rightarrow> unit \<Rightarrow> (int \<times> string, unit) outcome" where
  "demo_call c arg s = Done (c, (case arg of None \<Rightarrow> [] | Some a \<Rightarrow> a)) s"

theorem command_dispatch_witness:
  "command_parse demo_call (fold add_command demo_commands command_parse_create)
     ([BLANK] @ ''stop'' @ TAB # [BLANK] @ ''2020-01-01'' @ [NL]) () = Done (2, ''2020-01-01'') ()"
proof -
  have blanks: "list_all blank [BLANK]" "list_all blank [NL]" "blank TAB"
    "list_all (\<lambda>c. \<not> blank c) ''stop''" "\<not> blank (hd ''2020-01-01'')" "\<not> blank (last ''2020-01-01'')"
    by (simp_all add: blank_def)
  have names: "distinct (map cmd_name demo_commands)" "''help'' \<notin> cmd_name ` set demo_commands"
    "''exit'' \<notin> cmd_name ` set demo_commands"
    by (simp_all add: demo_commands_def)
  have c: "demo_commands ! 1 \<in> set demo_commands" "cmd_name (demo_commands ! 1) = ''stop''"
    "cmd (demo_commands ! 1) = Function 2"
    by (simp_all add: demo_commands_def)
  have "command_parse demo_call (fold add_command demo_commands command_parse_create)
      ([BLANK] @ ''stop'' @ TAB # [BLANK] @ ''2020-01-01'' @ [NL]) () =
      run_func demo_call (fold add_command demo_commands command_parse_create) (Function 2) (Some ''2020-01-01'') ()"
    using command_dispatch [OF names blanks(1,4) _ blanks(3,1) _ blanks(5,6,2), of demo_call "()"] c
    unfolding Let_def by fastforce
  then show ?thesis by (simp add: run_func_def demo_call_def)
qed

text \<open>Removing a command takes the first command of that name out of the table and no other;
  a name the table does not have is refused and nothing changes.\<close>

theorem command_removed:
  "command_parse_remove key parser =
    (case command_search parser key of
       None \<Rightarrow> Err (-1) parser
     | Some c \<Rightarrow> Done () (parser\<lparr>cmds := remove1 c (cmds parser)\<rparr>))"
proof -
  let ?i = "command_index key (cmds parser)"
  show ?thesis
  proof (cases "?i = length (cmds parser)")
    case False
    then have l: "?i < length (cmds parser)" using command_index_le [of key "cmds parser"] by simp
    have "take ?i (cmds parser) @ drop (Suc ?i) (cmds parser) = remove1 (cmds parser ! ?i) (cmds parser)"
      by (rule command_index_remove [OF l])
    then show ?thesis using False shift_down_remove [OF l]
      by (simp add: command_parse_remove_def command_search_def Let_def)
  qed (simp add: command_parse_remove_def command_search_def)
qed

end
