(* ===== verification/Dada_Pwc.thy ===== *)
theory Dada_Pwc
  imports Ascii_Header Command_Parse Step_Systems
begin

text \<open>
  The control connection of a primary write client, src/dada_pwc.c: the states of the client, the mailbox
  of one command between the thread that serves the control port and the main loop, and the functions
  behind the control commands. A function that holds the mutex is one step; where it waits on the
  condition, \<open>Wait\<close>. Messages on errors are left out, and so are the fields that name the host and
  the port, the log and the server.
\<close>

section \<open>Data\<close>

datatype dada_pwc_state =
  dada_pwc_undefined | dada_pwc_pending | dada_pwc_idle | dada_pwc_prepared | dada_pwc_clocking
| dada_pwc_recording | dada_pwc_soft_error | dada_pwc_hard_error | dada_pwc_fatal_error

datatype dada_pwc_code =
  dada_pwc_no_command | dada_pwc_header | dada_pwc_clock | dada_pwc_record_start | dada_pwc_record_stop
| dada_pwc_start | dada_pwc_stop | dada_pwc_set_utc_start | dada_pwc_reset | dada_pwc_exit

text \<open>\<open>time_t\<close> is a number of seconds, here without bound.\<close>

record dada_pwc_command =
  code :: dada_pwc_code
  utc :: int
  byte_count :: u64
  cmd_header :: "string option"

definition DADA_PWC_COMMAND_INIT :: dada_pwc_command where
  "DADA_PWC_COMMAND_INIT = \<lparr>code = dada_pwc_no_command, utc = 0, byte_count = 0, cmd_header = None\<rparr>"

record dada_pwc =
  pwc_quit :: bool
  pwc_state :: dada_pwc_state
  convert_to_bytes :: bool
  bytes_per_second :: u64
  bits_per_sample :: u32
  byte_resolution :: u32
  utc_start :: int
  command :: dada_pwc_command
  pwc_header :: string
  header_size :: u32

section \<open>Names of states and commands\<close>

definition dada_pwc_string_to_state :: "string \<Rightarrow> dada_pwc_state" where
  "dada_pwc_string_to_state key =
    (if strcasecmp_eq key ''pending'' then dada_pwc_pending
     else if strcasecmp_eq key ''idle'' then dada_pwc_idle
     else if strcasecmp_eq key ''prepared'' then dada_pwc_prepared
     else if strcasecmp_eq key ''clocking'' then dada_pwc_clocking
     else if strcasecmp_eq key ''recording'' then dada_pwc_recording
     else if strcasecmp_eq key ''soft_error'' then dada_pwc_soft_error
     else if strcasecmp_eq key ''hard_error'' then dada_pwc_hard_error
     else if strcasecmp_eq key ''fatal_error'' then dada_pwc_fatal_error
     else dada_pwc_undefined)"

fun dada_pwc_state_to_string :: "dada_pwc_state \<Rightarrow> string" where
  "dada_pwc_state_to_string dada_pwc_pending = ''pending''"
| "dada_pwc_state_to_string dada_pwc_idle = ''idle''"
| "dada_pwc_state_to_string dada_pwc_prepared = ''prepared''"
| "dada_pwc_state_to_string dada_pwc_clocking = ''clocking''"
| "dada_pwc_state_to_string dada_pwc_recording = ''recording''"
| "dada_pwc_state_to_string dada_pwc_soft_error = ''soft_error''"
| "dada_pwc_state_to_string dada_pwc_hard_error = ''hard_error''"
| "dada_pwc_state_to_string dada_pwc_fatal_error = ''fatal_error''"
| "dada_pwc_state_to_string dada_pwc_undefined = ''undefined''"

fun dada_pwc_cmd_code_string :: "dada_pwc_code \<Rightarrow> string" where
  "dada_pwc_cmd_code_string dada_pwc_no_command = ''no_command''"
| "dada_pwc_cmd_code_string dada_pwc_header = ''header''"
| "dada_pwc_cmd_code_string dada_pwc_clock = ''clock''"
| "dada_pwc_cmd_code_string dada_pwc_record_start = ''record_start''"
| "dada_pwc_cmd_code_string dada_pwc_record_stop = ''record_stop''"
| "dada_pwc_cmd_code_string dada_pwc_start = ''start''"
| "dada_pwc_cmd_code_string dada_pwc_stop = ''stop''"
| "dada_pwc_cmd_code_string dada_pwc_set_utc_start = ''set_utc_start''"
| "dada_pwc_cmd_code_string dada_pwc_reset = ''reset''"
| "dada_pwc_cmd_code_string dada_pwc_exit = ''exit''"

section \<open>The mailbox\<close>

text \<open>The byte at which a command that carries a time is due; None is the error.\<close>

definition dada_pwc_command_set_byte_count ::
  "dada_pwc \<Rightarrow> dada_pwc_command \<Rightarrow> dada_pwc_command option" where
  "dada_pwc_command_set_byte_count primary c =
    (if \<not> convert_to_bytes primary then Some (c\<lparr>byte_count := 0\<rparr>)
     else if utc c = 0 then Some (c\<lparr>byte_count := 0\<rparr>)
     else if utc_start primary = 0 then None
     else if bytes_per_second primary = 0 then None
     else if utc c < utc_start primary then Some (c\<lparr>utc := 0, byte_count := 0\<rparr>)
     else
       let n = of_int (utc c - utc_start primary) * bytes_per_second primary;
           resolution = ucast (byte_resolution primary) :: u64
       in if byte_resolution primary > 1 then
            let rounded = n div resolution * resolution
            in Some (c\<lparr>byte_count :=
                 (if code c = dada_pwc_record_stop \<or> code c = dada_pwc_stop
                  then rounded + resolution else rounded)\<rparr>)
          else Some (c\<lparr>byte_count := n\<rparr>))"

fun command_allowed :: "dada_pwc_state \<Rightarrow> dada_pwc_code \<Rightarrow> bool" where
  "command_allowed st dada_pwc_header = (st = dada_pwc_idle)"
| "command_allowed st dada_pwc_clock = (st = dada_pwc_prepared)"
| "command_allowed st dada_pwc_record_start = (st = dada_pwc_clocking)"
| "command_allowed st dada_pwc_record_stop = (st = dada_pwc_recording)"
| "command_allowed st dada_pwc_start = (st = dada_pwc_prepared)"
| "command_allowed st dada_pwc_stop = True"
| "command_allowed st dada_pwc_set_utc_start = (st = dada_pwc_clocking \<or> st = dada_pwc_recording)"
| "command_allowed st dada_pwc_reset = (st = dada_pwc_soft_error \<or> st = dada_pwc_hard_error)"
| "command_allowed st dada_pwc_exit = (st = dada_pwc_idle)"
| "command_allowed st dada_pwc_no_command = True"

definition dada_pwc_command_set :: "dada_pwc_command \<Rightarrow> dada_pwc \<Rightarrow> (unit, dada_pwc) outcome" where
  "dada_pwc_command_set c primary =
    (if code (command primary) \<noteq> dada_pwc_no_command then Wait primary
     else if \<not> command_allowed (pwc_state primary) (code c) then Err (-1) primary
     else Done () (primary\<lparr>command := c\<rparr>))"

definition dada_pwc_command_check :: "dada_pwc \<Rightarrow> bool" where
  "dada_pwc_command_check primary \<longleftrightarrow> code (command primary) \<noteq> dada_pwc_no_command"

definition dada_pwc_command_get :: "dada_pwc \<Rightarrow> (dada_pwc_command, dada_pwc) outcome" where
  "dada_pwc_command_get primary =
    (if code (command primary) = dada_pwc_no_command then Wait primary
     else Done (command primary)
       (primary\<lparr>command := (command primary)\<lparr>code := dada_pwc_no_command, byte_count := 0\<rparr>\<rparr>))"

section \<open>The state of the client\<close>

definition error_states :: "dada_pwc_state set" where
  "error_states = {dada_pwc_soft_error, dada_pwc_hard_error, dada_pwc_fatal_error}"

fun may_enter :: "dada_pwc_state \<Rightarrow> dada_pwc_state \<Rightarrow> bool" where
  "may_enter dada_pwc_idle new = (new \<in> {dada_pwc_prepared} \<union> error_states)"
| "may_enter dada_pwc_prepared new =
    (new \<in> {dada_pwc_idle, dada_pwc_clocking, dada_pwc_recording} \<union> error_states)"
| "may_enter dada_pwc_clocking new = (new \<in> {dada_pwc_recording, dada_pwc_idle} \<union> error_states)"
| "may_enter dada_pwc_recording new = (new \<in> {dada_pwc_clocking, dada_pwc_idle} \<union> error_states)"
| "may_enter dada_pwc_soft_error new = (new = dada_pwc_idle)"
| "may_enter dada_pwc_hard_error new = (new = dada_pwc_idle)"
| "may_enter dada_pwc_fatal_error new = False"
| "may_enter dada_pwc_undefined new = False"
| "may_enter dada_pwc_pending new = False"

definition dada_pwc_set_state ::
  "dada_pwc_state \<Rightarrow> int \<Rightarrow> dada_pwc \<Rightarrow> (unit, dada_pwc) outcome" where
  "dada_pwc_set_state new t primary =
    (if \<not> may_enter (pwc_state primary) new then Err (-1) primary
     else
       let primary = (if pwc_state primary = dada_pwc_prepared then primary\<lparr>utc_start := t\<rparr> else primary)
       in Done () (primary\<lparr>pwc_state := new\<rparr>))"

section \<open>The control commands\<close>

text \<open>
  The C library functions whose results the client is given: \<open>strptime_utc\<close> is strptime and timegm with the
  format of src/tmutil.c, \<open>scanf_lf\<close> a conversion \<open>%lf\<close>, and \<open>per_second n d\<close> the number
  \<open>(uint64_t) (n / d)\<close> in the arithmetic of double.
\<close>

record 'd clib =
  strptime_utc :: "string \<Rightarrow> int"
  scanf_lf :: "string \<Rightarrow> int \<times> 'd option"
  per_second :: "u64 \<Rightarrow> 'd \<Rightarrow> u64"

definition str2utctime :: "'d clib \<Rightarrow> string \<Rightarrow> int" where
  "str2utctime lib str = strptime_utc lib (str @ '' UTC'')"

text \<open>
  A parameter of the header, or its default if the header has no such keyword or no value; a value that
  is no number leaves the variable unset (None), and computing with it is undefined.
\<close>

definition header_unsigned :: "string \<Rightarrow> string \<Rightarrow> int \<Rightarrow> u32 option" where
  "header_unsigned header keyword dflt =
    (case ascii_header_get header keyword scanf_d of
       (n, Some v) \<Rightarrow> Some (of_int v)
     | (n, None) \<Rightarrow> if n < 0 then Some (of_int dflt) else None)"

definition dada_pwc_parse_bytes_per_second ::
  "'d clib \<Rightarrow> string \<Rightarrow> dada_pwc \<Rightarrow> (unit, dada_pwc) outcome" where
  "dada_pwc_parse_bytes_per_second lib header primary =
    (let npol = header_unsigned header ''NPOL'' 2;
         nbit = header_unsigned header ''NBIT'' 8;
         ndim = header_unsigned header ''NDIM'' 1;
         nchan = header_unsigned header ''NCHAN'' 1;
         nant = header_unsigned header ''NANT'' 1;
         resolution = (case ascii_header_get header ''RESOLUTION'' scanf_d of
           (n, Some v) \<Rightarrow> of_int v | (n, None) \<Rightarrow> 1)
     in case (nbit, npol, ndim) of
       (Some b, Some p, Some d) \<Rightarrow>
         (let primary = primary\<lparr>byte_resolution := resolution, bits_per_sample := b * p * d\<rparr>
          in case ascii_header_get header ''TSAMP'' (scanf_lf lib) of
            (n, tsamp) \<Rightarrow>
              if n < 0 then Err (-1) (primary\<lparr>bytes_per_second := 0\<rparr>)
              else (case (nchan, nant, tsamp) of
                (Some c, Some a, Some t) \<Rightarrow>
                  (let bits = 1000000 * ucast (bits_per_sample primary) * ucast c * ucast a :: u64
                   in Done () (primary\<lparr>bytes_per_second := per_second lib bits t div 8\<rparr>))
              | _ \<Rightarrow> Crash))
     | _ \<Rightarrow> Crash)"

text \<open>
  The header is copied to a buffer of \<open>header_size\<close> bytes, NUL included; a text that does not fit
  is written behind its end.
\<close>

definition dada_pwc_cmd_header :: "'d clib \<Rightarrow> string option \<Rightarrow> dada_pwc \<Rightarrow> (unit, dada_pwc) outcome" where
  "dada_pwc_cmd_header lib args primary =
    (case args of
       None \<Rightarrow> Err (-1) primary
     | Some a \<Rightarrow>
        if length a > unat (header_size primary) then Err (-1) primary
        else
          let a = map (\<lambda>c. if c = BACKSLASH then NL else c) a
          in andthen (fail_as (-1) (dada_pwc_parse_bytes_per_second lib a primary)) (\<lambda>_ primary.
             if a = [] \<or> length a + 1 > unat (header_size primary) then Crash
             else
               let h = (if last a \<noteq> NL \<and> length a + 1 < unat (header_size primary) then a @ [NL] else a);
                   h = ascii_header_set h ''BYTES_PER_SECOND'' (decimal (unat (bytes_per_second primary)))
               in if length h + 1 > unat (header_size primary) then Crash
                  else fail_as (-1) (dada_pwc_command_set
                    (DADA_PWC_COMMAND_INIT\<lparr>code := dada_pwc_header, cmd_header := Some h\<rparr>)
                    (primary\<lparr>pwc_header := h\<rparr>))))"

text \<open>A duration is hours, minutes and seconds, or a number of samples; the result is in bytes, 0 on errors.\<close>

definition dada_pwc_parse_duration :: "dada_pwc \<Rightarrow> string \<Rightarrow> u64" where
  "dada_pwc_parse_duration primary args =
    (case map of_int (scan_fields (CHR '':'') 3 args) :: u32 list of
       [hh, mm, ss] \<Rightarrow>
         if bytes_per_second primary = 0 then 0
         else if mm > 59 then 0
         else if ss > 59 then 0
         else (ucast hh * 3600 + ucast (60 * mm) + ucast ss) * bytes_per_second primary
     | _ \<Rightarrow>
        (case scan_int args of
           Some (n, r) \<Rightarrow>
             if bits_per_sample primary = 0 then 0
             else of_int n * ucast (bits_per_sample primary) div 8
         | None \<Rightarrow> 0))"

definition dada_pwc_cmd_duration :: "string option \<Rightarrow> dada_pwc \<Rightarrow> (unit, dada_pwc) outcome" where
  "dada_pwc_cmd_duration args primary =
    (case args of
       None \<Rightarrow> Err (-1) primary
     | Some a \<Rightarrow>
        let n = dada_pwc_parse_duration primary a
        in if n = 0 then Err (-1) primary
           else if code (command primary) \<noteq> dada_pwc_no_command then Wait primary
           else if pwc_state primary = dada_pwc_recording then Err (-1) primary
           else Done () (primary\<lparr>command := (command primary)\<lparr>byte_count := n\<rparr>\<rparr>))"

text \<open>0 without an argument; -1 for a time that cannot be parsed.\<close>

definition dada_pwc_parse_time :: "'d clib \<Rightarrow> string option \<Rightarrow> int" where
  "dada_pwc_parse_time lib args = (case args of None \<Rightarrow> 0 | Some a \<Rightarrow> str2utctime lib a)"

definition dada_pwc_cmd_clock :: "dada_pwc \<Rightarrow> (unit, dada_pwc) outcome" where
  "dada_pwc_cmd_clock = dada_pwc_command_set (DADA_PWC_COMMAND_INIT\<lparr>code := dada_pwc_clock\<rparr>)"

text \<open>A command with a time is set with the byte count of the time.\<close>

definition set_timed :: "dada_pwc_command \<Rightarrow> dada_pwc \<Rightarrow> (unit, dada_pwc) outcome" where
  "set_timed c primary =
    (case dada_pwc_command_set_byte_count primary c of
       None \<Rightarrow> Err (-1) primary
     | Some c \<Rightarrow> dada_pwc_command_set c primary)"

definition dada_pwc_cmd_record_start ::
  "'d clib \<Rightarrow> string option \<Rightarrow> dada_pwc \<Rightarrow> (unit, dada_pwc) outcome" where
  "dada_pwc_cmd_record_start lib args primary =
    (let t = dada_pwc_parse_time lib args
     in if t = 0 then Err (-1) primary
        else set_timed (DADA_PWC_COMMAND_INIT\<lparr>code := dada_pwc_record_start, utc := t\<rparr>) primary)"

definition dada_pwc_cmd_record_stop ::
  "'d clib \<Rightarrow> string option \<Rightarrow> dada_pwc \<Rightarrow> (unit, dada_pwc) outcome" where
  "dada_pwc_cmd_record_stop lib args primary =
    (let t = dada_pwc_parse_time lib args
     in if t = 0 then Err (-1) primary
        else set_timed (DADA_PWC_COMMAND_INIT\<lparr>code := dada_pwc_record_stop, utc := t\<rparr>) primary)"

definition dada_pwc_cmd_start :: "'d clib \<Rightarrow> string option \<Rightarrow> dada_pwc \<Rightarrow> (unit, dada_pwc) outcome" where
  "dada_pwc_cmd_start lib args primary =
     dada_pwc_command_set (DADA_PWC_COMMAND_INIT\<lparr>code := dada_pwc_start,
       utc := dada_pwc_parse_time lib args, byte_count := byte_count (command primary)\<rparr>) primary"

definition dada_pwc_cmd_stop :: "'d clib \<Rightarrow> string option \<Rightarrow> dada_pwc \<Rightarrow> (unit, dada_pwc) outcome" where
  "dada_pwc_cmd_stop lib args =
     set_timed (DADA_PWC_COMMAND_INIT\<lparr>code := dada_pwc_stop, utc := dada_pwc_parse_time lib args\<rparr>)"

definition dada_pwc_cmd_set_utc_start ::
  "'d clib \<Rightarrow> string option \<Rightarrow> dada_pwc \<Rightarrow> (unit, dada_pwc) outcome" where
  "dada_pwc_cmd_set_utc_start lib args primary =
    (let t = dada_pwc_parse_time lib args
     in set_timed (DADA_PWC_COMMAND_INIT\<lparr>code := dada_pwc_set_utc_start, utc := t\<rparr>)
          (primary\<lparr>utc_start := t\<rparr>))"

definition dada_pwc_cmd_reset :: "dada_pwc \<Rightarrow> (unit, dada_pwc) outcome" where
  "dada_pwc_cmd_reset = dada_pwc_command_set (DADA_PWC_COMMAND_INIT\<lparr>code := dada_pwc_reset\<rparr>)"

definition dada_pwc_cmd_quit :: "dada_pwc \<Rightarrow> (unit, dada_pwc) outcome" where
  "dada_pwc_cmd_quit primary =
     dada_pwc_command_set (DADA_PWC_COMMAND_INIT\<lparr>code := dada_pwc_exit\<rparr>) (primary\<lparr>pwc_quit := True\<rparr>)"

section \<open>The connection\<close>

datatype pwc_func =
  Cmd_state | Cmd_header | Cmd_duration | Cmd_start | Cmd_stop | Cmd_clock | Cmd_record_start
| Cmd_record_stop | Cmd_set_utc_start | Cmd_quit | Cmd_reset

definition dada_pwc_cmd_state :: "dada_pwc \<Rightarrow> string" where
  "dada_pwc_cmd_state primary = dada_pwc_state_to_string (pwc_state primary) @ [NL]"

fun status :: "(unit, 's) outcome \<Rightarrow> (int \<times> string, 's) outcome" where
  "status (Done u s) = Done (0, []) s"
| "status (Err c s) = Done (c, []) s"
| "status (Wait s) = Wait s"
| "status Crash = Crash"

fun run_pwc_func :: "'d clib \<Rightarrow> pwc_func \<Rightarrow> string option \<Rightarrow> dada_pwc \<Rightarrow> (unit, dada_pwc) outcome" where
  "run_pwc_func lib Cmd_state args p = Done () p"
| "run_pwc_func lib Cmd_header args p = dada_pwc_cmd_header lib args p"
| "run_pwc_func lib Cmd_duration args p = dada_pwc_cmd_duration args p"
| "run_pwc_func lib Cmd_start args p = dada_pwc_cmd_start lib args p"
| "run_pwc_func lib Cmd_stop args p = dada_pwc_cmd_stop lib args p"
| "run_pwc_func lib Cmd_clock args p = dada_pwc_cmd_clock p"
| "run_pwc_func lib Cmd_record_start args p = dada_pwc_cmd_record_start lib args p"
| "run_pwc_func lib Cmd_record_stop args p = dada_pwc_cmd_record_stop lib args p"
| "run_pwc_func lib Cmd_set_utc_start args p = dada_pwc_cmd_set_utc_start lib args p"
| "run_pwc_func lib Cmd_quit args p = dada_pwc_cmd_quit p"
| "run_pwc_func lib Cmd_reset args p = dada_pwc_cmd_reset p"

definition pwc_call :: "'d clib \<Rightarrow> pwc_func \<Rightarrow> string option \<Rightarrow> dada_pwc \<Rightarrow> (int \<times> string, dada_pwc) outcome" where
  "pwc_call lib f args p =
    (if f = Cmd_state then Done (0, dada_pwc_cmd_state p) p else status (run_pwc_func lib f args p))"

text \<open>
  \<open>malloc\<close> sets nothing: the fields the function does not set are those of \<open>junk\<close>, \<open>page\<close> is
  \<open>DADA_DEFAULT_HEADER_SIZE\<close>. The parser has its commands in the order they are added.
\<close>

definition pwc_command :: "pwc_func \<Rightarrow> string \<Rightarrow> string \<Rightarrow> pwc_func command_t" where
  "pwc_command f name short = \<lparr>cmd = Function f, cmd_name = name, cmd_help = Some short, cmd_more = None\<rparr>"

definition pwc_commands :: "pwc_func command_t list" where
  "pwc_commands =
    [pwc_command Cmd_state ''state'' ''get the current state'',
     pwc_command Cmd_header ''header'' ''set the primary header'',
     pwc_command Cmd_duration ''duration'' ''set the duration of next recording'',
     pwc_command Cmd_start ''start'' ''enter the recording state'',
     pwc_command Cmd_stop ''stop'' ''enter the idle state'',
     pwc_command Cmd_clock ''clock'' ''enter the clocking state'',
     pwc_command Cmd_record_start ''rec_start'' ''enter the recording state'',
     pwc_command Cmd_record_stop ''rec_stop'' ''enter the clocking state'',
     pwc_command Cmd_set_utc_start ''set_utc_start'' ''set the UTC_START header parameter'',
     pwc_command Cmd_quit ''quit'' ''quit'',
     pwc_command Cmd_reset ''reset'' ''reset error state to idle'']"

definition pwc_parser :: "pwc_func command_parse_t" where
  "pwc_parser = fold add_command pwc_commands command_parse_create"

definition dada_pwc_create :: "u32 \<Rightarrow> dada_pwc \<Rightarrow> dada_pwc" where
  "dada_pwc_create page junk = junk\<lparr>
     pwc_state := dada_pwc_idle, command := (command junk)\<lparr>code := dada_pwc_no_command\<rparr>,
     convert_to_bytes := True, bytes_per_second := 0, bits_per_sample := 0, byte_resolution := 0,
     utc_start := 0, header_size := page, pwc_quit := False\<rparr>"

definition dada_pwc_set_header_size :: "u32 \<Rightarrow> dada_pwc \<Rightarrow> dada_pwc" where
  "dada_pwc_set_header_size n primary = primary\<lparr>header_size := n\<rparr>"

text \<open>A line received on the control port.\<close>

definition pwc_line :: "'d clib \<Rightarrow> string \<Rightarrow> dada_pwc \<Rightarrow> (int \<times> string, dada_pwc) outcome" where
  "pwc_line lib = command_parse (pwc_call lib) pwc_parser"

end
