(* ===== verification/Pwc_System.thy ===== *)
theory Pwc_System
  imports Dada_Pwc
begin

text \<open>
  The control connection in use: the thread of the control port runs commands, the main loop takes them and
  enters states, in any order. What the two threads see of it is a mailbox of one command and a walk on the
  graph of states.
\<close>

section \<open>Steps\<close>

datatype pwc_event =
  Accepted dada_pwc_command | Taken dada_pwc_command | Entered dada_pwc_state | Silent

text \<open>
  A function returns and has put its command into the mailbox; it returns and there is no
  command to put; it is refused. The main loop takes a command, enters a state, notes the time
  of the first sample, or asks to quit.
\<close>

definition sets_command :: "pwc_func \<Rightarrow> bool" where
  "sets_command f \<longleftrightarrow> f \<noteq> Cmd_state \<and> f \<noteq> Cmd_duration"

inductive pwc_step :: "'d clib \<Rightarrow> dada_pwc \<Rightarrow> pwc_event \<Rightarrow> dada_pwc \<Rightarrow> bool" for lib :: "'d clib" where
  accept: "run_pwc_func lib f args p = Done () p' \<Longrightarrow> sets_command f \<Longrightarrow>
    pwc_step lib p (Accepted (command p')) p'"
| no_command: "run_pwc_func lib f args p = Done () p' \<Longrightarrow> \<not> sets_command f \<Longrightarrow> pwc_step lib p Silent p'"
| refuse: "run_pwc_func lib f args p = Err c p' \<Longrightarrow> pwc_step lib p Silent p'"
| take: "dada_pwc_command_get p = Done c p' \<Longrightarrow> pwc_step lib p (Taken c) p'"
| enter: "dada_pwc_set_state new t p = Done () p' \<Longrightarrow> pwc_step lib p (Entered new) p'"
| first_sample: "pwc_step lib p Silent (p\<lparr>utc_start := t\<rparr>)"
| ask_quit: "pwc_step lib p Silent (p\<lparr>pwc_quit := True\<rparr>)"

inductive_cases pwc_stepE: "pwc_step lib p e p'"

section \<open>The mailbox\<close>

inductive mail_step :: "dada_pwc_command list \<Rightarrow> pwc_event \<Rightarrow> dada_pwc_command list \<Rightarrow> bool" where
  mail_accept: "mail_step [] (Accepted c) [c]"
| mail_take: "mail_step [c] (Taken c) []"
| mail_enter: "mail_step cs (Entered st) cs"
| mail_silent: "mail_step cs Silent cs"

inductive_cases mail_stepE: "mail_step cs e cs'"

definition pending_command :: "dada_pwc \<Rightarrow> dada_pwc_command list" where
  "pending_command p = (if code (command p) = dada_pwc_no_command then [] else [command p])"

definition accepted :: "pwc_event list \<Rightarrow> dada_pwc_command list" where
  "accepted es = concat (map (\<lambda>e. case e of Accepted c \<Rightarrow> [c] | _ \<Rightarrow> []) es)"

definition taken_commands :: "pwc_event list \<Rightarrow> dada_pwc_command list" where
  "taken_commands es = concat (map (\<lambda>e. case e of Taken c \<Rightarrow> [c] | _ \<Rightarrow> []) es)"

lemma mail_run: "run mail_step [] es cs \<Longrightarrow> accepted es = taken_commands es @ cs"
  by (induction rule: run.induct) (auto simp: accepted_def taken_commands_def elim: mail_stepE)

text \<open>What a function that returns has done, and one that is refused.\<close>

lemma command_set_cases:
  "dada_pwc_command_set c p = Done u p' \<Longrightarrow>
    code (command p) = dada_pwc_no_command \<and> command_allowed (pwc_state p) (code c) \<and> p' = p\<lparr>command := c\<rparr>"
  "dada_pwc_command_set c p = Err e p' \<Longrightarrow> e = -1 \<and> p' = p"
  by (auto simp: dada_pwc_command_set_def split: if_splits)

lemma set_byte_count_code: "dada_pwc_command_set_byte_count p c = Some c' \<Longrightarrow> code c' = code c"
  by (auto simp: dada_pwc_command_set_byte_count_def Let_def split: if_splits)

lemma set_timed_cases:
  "set_timed c p = Done u p' \<Longrightarrow>
    code (command p) = dada_pwc_no_command \<and> command_allowed (pwc_state p) (code c) \<and>
    (\<exists>c'. code c' = code c \<and> p' = p\<lparr>command := c'\<rparr>)"
  "set_timed c p = Err e p' \<Longrightarrow> e = -1 \<and> p' = p"
  using set_byte_count_code [of p c]
  by (auto simp: set_timed_def dest!: command_set_cases split: option.splits)

lemma parse_rate_same:
  "dada_pwc_parse_bytes_per_second lib h p = Done u p' \<Longrightarrow> command p' = command p \<and> pwc_state p' = pwc_state p"
  "dada_pwc_parse_bytes_per_second lib h p = Err e p' \<Longrightarrow> command p' = command p \<and> pwc_state p' = pwc_state p"
  by (auto simp: dada_pwc_parse_bytes_per_second_def Let_def split: option.splits prod.splits if_splits)

lemma fail_as_Err: "fail_as c out = Err d s \<longleftrightarrow> d = c \<and> (\<exists>e. out = Err e s)"
  by (cases out) auto

lemma andthen_Err:
  "andthen out k = Err c s \<longleftrightarrow> out = Err c s \<or> (\<exists>a t. out = Done a t \<and> k a t = Err c s)"
  by (cases out) auto

text \<open>The code of the command a function sets.\<close>

fun func_code :: "pwc_func \<Rightarrow> dada_pwc_code" where
  "func_code Cmd_header = dada_pwc_header"
| "func_code Cmd_start = dada_pwc_start"
| "func_code Cmd_stop = dada_pwc_stop"
| "func_code Cmd_clock = dada_pwc_clock"
| "func_code Cmd_record_start = dada_pwc_record_start"
| "func_code Cmd_record_stop = dada_pwc_record_stop"
| "func_code Cmd_set_utc_start = dada_pwc_set_utc_start"
| "func_code Cmd_quit = dada_pwc_exit"
| "func_code Cmd_reset = dada_pwc_reset"
| "func_code Cmd_state = dada_pwc_no_command"
| "func_code Cmd_duration = dada_pwc_no_command"

lemmas pwc_cmd_defs = dada_pwc_cmd_clock_def dada_pwc_cmd_record_start_def dada_pwc_cmd_record_stop_def
  dada_pwc_cmd_start_def dada_pwc_cmd_stop_def dada_pwc_cmd_set_utc_start_def dada_pwc_cmd_reset_def
  dada_pwc_cmd_quit_def Let_def

lemma cmd_header_Done:
  assumes "dada_pwc_cmd_header lib args p = Done u p'"
  shows "code (command p) = dada_pwc_no_command \<and> pwc_state p = dada_pwc_idle \<and>
    pwc_state p' = pwc_state p \<and> code (command p') = dada_pwc_header"
  using assms
  by (auto simp: dada_pwc_cmd_header_def Let_def outcome_simps dest!: command_set_cases parse_rate_same
      split: option.splits if_splits)

lemma cmd_header_Err:
  assumes "dada_pwc_cmd_header lib args p = Err e p'"
  shows "e = -1 \<and> command p' = command p \<and> pwc_state p' = pwc_state p"
  using assms
  by (auto simp: dada_pwc_cmd_header_def Let_def fail_as_Err andthen_Err dest!: command_set_cases parse_rate_same
      split: option.splits if_splits)

lemma func_accepted:
  assumes "run_pwc_func lib f args p = Done () p'" "sets_command f"
  shows "code (command p) = dada_pwc_no_command \<and> command_allowed (pwc_state p) (func_code f) \<and>
    pwc_state p' = pwc_state p \<and> code (command p') = func_code f"
proof (cases f)
  case Cmd_header
  then show ?thesis using assms cmd_header_Done [of lib args p "()" p'] by simp
qed (use assms in \<open>auto simp: pwc_cmd_defs sets_command_def DADA_PWC_COMMAND_INIT_def
      dest!: command_set_cases set_timed_cases split: if_splits\<close>)

lemma func_silent:
  assumes "run_pwc_func lib f args p = Done () p'" "\<not> sets_command f"
  shows "pwc_state p' = pwc_state p \<and> pending_command p' = pending_command p"
  using assms
  by (auto simp: sets_command_def dada_pwc_cmd_duration_def Let_def pending_command_def
      split: option.splits if_splits)

lemma func_refused:
  assumes "run_pwc_func lib f args p = Err e p'"
  shows "e = -1 \<and> command p' = command p \<and> pwc_state p' = pwc_state p"
proof (cases f)
  case Cmd_header
  then show ?thesis using assms cmd_header_Err [of lib args p e p'] by simp
next
  case Cmd_duration
  then show ?thesis using assms
    by (auto simp: dada_pwc_cmd_duration_def Let_def split: option.splits if_splits)
qed (use assms in \<open>auto simp: pwc_cmd_defs dest!: command_set_cases set_timed_cases split: if_splits\<close>)

lemma func_code_command: "sets_command f \<Longrightarrow> func_code f \<noteq> dada_pwc_no_command"
  by (cases f) (auto simp: sets_command_def)

interpretation mailbox: forward_simulation "pwc_step lib" mail_step "\<lambda>p cs. cs = pending_command p" for lib :: "'d clib"
proof unfold_locales
  fix p :: dada_pwc and cs e p'
  assume cs: "cs = pending_command p" and step: "pwc_step lib p e p'"
  from step show "\<exists>cs'. mail_step cs e cs' \<and> cs' = pending_command p'"
  proof cases
    case (accept f args)
    then show ?thesis using func_accepted [OF accept(2,3)] func_code_command [OF accept(3)]
      by (auto simp: cs pending_command_def intro: mail_step.intros)
  next
    case (no_command f args)
    then show ?thesis using func_silent [OF no_command(2,3)] by (auto simp: cs intro: mail_step.intros)
  next
    case (refuse f args c)
    then show ?thesis using func_refused [OF refuse(2)]
      by (auto simp: cs pending_command_def intro: mail_step.intros)
  next
    case (take c)
    then show ?thesis
      by (auto simp: cs dada_pwc_command_get_def pending_command_def intro: mail_step.intros split: if_splits)
  next
    case (enter new t)
    then show ?thesis
      by (auto simp: cs dada_pwc_set_state_def pending_command_def Let_def intro: mail_step.intros split: if_splits)
  qed (auto simp: cs pending_command_def intro: mail_step.intros)
qed

section \<open>The walk on the states\<close>

definition entered :: "pwc_event list \<Rightarrow> dada_pwc_state list" where
  "entered es = concat (map (\<lambda>e. case e of Entered st \<Rightarrow> [st] | _ \<Rightarrow> []) es)"

lemma entered_snoc [simp]: "entered [] = []"
  "entered (es @ [e]) = entered es @ (case e of Entered st \<Rightarrow> [st] | _ \<Rightarrow> [])"
  by (simp_all add: entered_def)

lemma step_state:
  assumes "pwc_step lib p e p'"
  shows "case e of Entered st \<Rightarrow> may_enter (pwc_state p) st \<and> pwc_state p' = st | _ \<Rightarrow> pwc_state p' = pwc_state p"
  using assms
proof cases
  case (enter new t)
  then show ?thesis by (auto simp: dada_pwc_set_state_def Let_def split: if_splits)
qed (auto simp: dada_pwc_command_get_def dest: func_accepted func_silent func_refused split: if_splits)

lemma run_walk:
  "run (pwc_step lib) p0 es p \<Longrightarrow>
    successively may_enter (pwc_state p0 # entered es) \<and> pwc_state p = last (pwc_state p0 # entered es)"
proof (induction rule: run.induct)
  case run_Nil
  then show ?case by simp
next
  case (run_snoc es t e u)
  then show ?case using step_state [OF run_snoc.hyps(2)]
    by (cases e) (auto simp: successively_append_iff simp flip: append_Cons)
qed

end
