(* ===== verification/Pwc_Properties.thy ===== *)
theory Pwc_Properties
  imports Pwc_System
begin

text \<open>
  The properties of the control connection: no command is lost or taken twice, the states are those of the
  documented graph, a refused command changes nothing the main loop sees, times become byte counts on a
  boundary, and a header that is accepted says how fast the data come.
\<close>

section \<open>A connection to try\<close>

definition demo_lib :: "int clib" where
  "demo_lib = \<lparr>strptime_utc = (\<lambda>s. 1010), scanf_lf = scanf_d, per_second = (\<lambda>n d. n div of_int d)\<rparr>"

definition demo_pwc :: dada_pwc where
  "demo_pwc = dada_pwc_create 200
     \<lparr>pwc_quit = False, pwc_state = dada_pwc_undefined, convert_to_bytes = False, bytes_per_second = 7,
      bits_per_sample = 7, byte_resolution = 7, utc_start = 7, command = DADA_PWC_COMMAND_INIT,
      pwc_header = [], header_size = 0\<rparr>"

definition demo_command :: dada_pwc_command where
  "demo_command = DADA_PWC_COMMAND_INIT\<lparr>code := dada_pwc_stop\<rparr>"

lemma demo_steps:
  "pwc_step demo_lib demo_pwc (Accepted demo_command) (demo_pwc\<lparr>command := demo_command\<rparr>)"
  "pwc_step demo_lib (demo_pwc\<lparr>command := demo_command\<rparr>) (Taken demo_command)
     (demo_pwc\<lparr>command := DADA_PWC_COMMAND_INIT\<rparr>)"
proof -
  have "run_pwc_func demo_lib Cmd_stop None demo_pwc = Done () (demo_pwc\<lparr>command := demo_command\<rparr>)"
    by (simp add: dada_pwc_cmd_stop_def set_timed_def dada_pwc_command_set_def dada_pwc_parse_time_def
        dada_pwc_command_set_byte_count_def demo_pwc_def demo_command_def dada_pwc_create_def
        DADA_PWC_COMMAND_INIT_def)
  from accept [OF this] show "pwc_step demo_lib demo_pwc (Accepted demo_command) (demo_pwc\<lparr>command := demo_command\<rparr>)"
    by (simp add: sets_command_def)
  show "pwc_step demo_lib (demo_pwc\<lparr>command := demo_command\<rparr>) (Taken demo_command)
     (demo_pwc\<lparr>command := DADA_PWC_COMMAND_INIT\<rparr>)"
    by (rule take) (simp add: dada_pwc_command_get_def demo_command_def DADA_PWC_COMMAND_INIT_def)
qed

lemma demo_enters:
  "pwc_step demo_lib demo_pwc (Entered dada_pwc_prepared) (demo_pwc\<lparr>pwc_state := dada_pwc_prepared\<rparr>)"
  "pwc_step demo_lib (demo_pwc\<lparr>pwc_state := dada_pwc_prepared\<rparr>) (Entered dada_pwc_recording)
     (demo_pwc\<lparr>utc_start := 1000, pwc_state := dada_pwc_recording\<rparr>)"
  by (rule enter [where t = 1000],
      simp add: dada_pwc_set_state_def demo_pwc_def dada_pwc_create_def)+

lemma demo_idle: "pwc_state demo_pwc = dada_pwc_idle" "pending_command demo_pwc = []"
  by (simp_all add: demo_pwc_def dada_pwc_create_def pending_command_def DADA_PWC_COMMAND_INIT_def)

section \<open>Properties of the connection\<close>



lemma walk_active:
  "successively may_enter (dada_pwc_idle # xs) \<Longrightarrow> last (dada_pwc_idle # xs) \<in> {dada_pwc_clocking, dada_pwc_recording} \<Longrightarrow>
    \<exists>ys zs. xs = ys @ dada_pwc_prepared # zs \<and> set zs \<subseteq> {dada_pwc_clocking, dada_pwc_recording}"
proof (induction xs rule: rev_induct)
  case (snoc x xs)
  let ?l = "last (dada_pwc_idle # xs)"
  have s: "successively may_enter (dada_pwc_idle # xs)" "may_enter ?l x"
    using snoc.prems(1) by (auto simp: successively_append_iff simp flip: append_Cons)
  have x: "x \<in> {dada_pwc_clocking, dada_pwc_recording}" using snoc.prems(2) by simp
  then have "?l \<in> {dada_pwc_prepared, dada_pwc_clocking, dada_pwc_recording}"
    using s(2) by (cases ?l) (auto simp: error_states_def)
  then consider "?l = dada_pwc_prepared" | "?l \<in> {dada_pwc_clocking, dada_pwc_recording}" by blast
  then show ?case
  proof cases
    case 1
    then have "xs = butlast xs @ [dada_pwc_prepared]" by (cases xs rule: rev_cases) auto
    then show ?thesis using x by (metis append_assoc append_Cons append_Nil empty_set list.simps(15) singletonD subsetI)
  next
    case 2
    from snoc.IH [OF s(1) 2] obtain ys zs where
      "xs = ys @ dada_pwc_prepared # zs" "set zs \<subseteq> {dada_pwc_clocking, dada_pwc_recording}" by blast
    then show ?thesis using x by (intro exI [of _ ys] exI [of _ "zs @ [x]"]) auto
  qed
qed simp

lemma walk_fatal:
  "successively may_enter (s # xs) \<Longrightarrow> dada_pwc_fatal_error \<in> set xs \<Longrightarrow> last (s # xs) = dada_pwc_fatal_error"
proof (induction xs rule: rev_induct)
  case (snoc x xs)
  have s: "successively may_enter (s # xs)" "may_enter (last (s # xs)) x"
    using snoc.prems(1) by (auto simp: successively_append_iff simp flip: append_Cons)
  show ?case
  proof (cases "dada_pwc_fatal_error \<in> set xs")
    case True
    then have "last (s # xs) = dada_pwc_fatal_error" using snoc.IH s(1) by blast
    then show ?thesis using s(2) by simp
  qed (use snoc.prems(2) in simp)
qed simp

lemma walk_defined:
  "successively may_enter (dada_pwc_idle # xs) \<Longrightarrow>
    last (dada_pwc_idle # xs) \<notin> {dada_pwc_undefined, dada_pwc_pending}"
proof (induction xs rule: rev_induct)
  case (snoc x xs)
  then have "may_enter (last (dada_pwc_idle # xs)) x"
    by (auto simp: successively_append_iff simp flip: append_Cons)
  then show ?case by (cases "last (dada_pwc_idle # xs)") (auto simp: error_states_def)
qed simp

text \<open>C27: whatever the two threads do, the client records or clocks data only after it was prepared, that
  is after a header came, and has been nowhere but clocking and recording since; a fatal
  error is final; the state is never undefined or pending.\<close>

theorem states_follow_graph:
  assumes "run (pwc_step lib) (dada_pwc_create page junk) es p"
  shows "(pwc_state p \<in> {dada_pwc_clocking, dada_pwc_recording} \<longrightarrow>
      (\<exists>ys zs. entered es = ys @ dada_pwc_prepared # zs \<and> set zs \<subseteq> {dada_pwc_clocking, dada_pwc_recording})) \<and>
    (dada_pwc_fatal_error \<in> set (entered es) \<longrightarrow> pwc_state p = dada_pwc_fatal_error) \<and>
    pwc_state p \<notin> {dada_pwc_undefined, dada_pwc_pending}"
proof -
  have idle: "pwc_state (dada_pwc_create page junk) = dada_pwc_idle" by (simp add: dada_pwc_create_def)
  note w = run_walk [OF assms, unfolded idle]
  show ?thesis
    using w walk_active [of "entered es"] walk_fatal [of dada_pwc_idle "entered es"] walk_defined [of "entered es"]
    by simp
qed

theorem states_follow_graph_witness:
  "\<exists>ys zs. entered [Entered dada_pwc_prepared, Entered dada_pwc_recording] = ys @ dada_pwc_prepared # zs \<and>
    set zs \<subseteq> {dada_pwc_clocking, dada_pwc_recording}"
proof -
  have "run (pwc_step demo_lib) demo_pwc [Entered dada_pwc_prepared, Entered dada_pwc_recording]
      (demo_pwc\<lparr>utc_start := 1000, pwc_state := dada_pwc_recording\<rparr>)"
    by (rule run_two) (rule demo_enters)+
  from states_follow_graph [OF this [unfolded demo_pwc_def]] show ?thesis by simp
qed

text \<open>C28: a control command that is refused answers -1 and changes neither the mailbox nor the
  state; one that is accepted was allowed in the state, found the mailbox empty, and leaves there
  a command of its own code.\<close>

theorem refused_or_allowed:
  shows "(run_pwc_func lib f args p = Err e p' \<longrightarrow>
      e = -1 \<and> command p' = command p \<and> pwc_state p' = pwc_state p) \<and>
    (sets_command f \<and> run_pwc_func lib f args p = Done () p' \<longrightarrow>
      \<not> dada_pwc_command_check p \<and> command_allowed (pwc_state p) (func_code f) \<and>
      pwc_state p' = pwc_state p \<and> code (command p') = func_code f)"
  using func_refused [of lib f args p e p'] func_accepted [of lib f args p p']
  by (auto simp: dada_pwc_command_check_def)

theorem refused_or_allowed_witness:
  "\<exists>p'. run_pwc_func demo_lib Cmd_clock None demo_pwc = Err (-1) p' \<and> command p' = command demo_pwc"
proof -
  have "run_pwc_func demo_lib Cmd_clock None demo_pwc = Err (-1) demo_pwc"
    using demo_idle
    by (simp add: dada_pwc_cmd_clock_def dada_pwc_command_set_def demo_pwc_def dada_pwc_create_def
        DADA_PWC_COMMAND_INIT_def)
  with refused_or_allowed [of demo_lib Cmd_clock None demo_pwc "-1" demo_pwc] show ?thesis by blast
qed

section \<open>Times and durations\<close>

lemma unat_widen: "unat (ucast w :: u64) = unat w"
  for w :: u32
proof -
  have "unat w < 2 ^ 32" by (rule order_less_le_trans [OF unsigned_less]) simp
  then show ?thesis by (simp add: unsigned_ucast_eq take_bit_nat_eq_self)
qed

lemma unat_plus: "unat x + unat y < 2 ^ 64 \<Longrightarrow> unat (x + y) = unat x + unat y"
  for x y :: u64
  by (simp add: unat_word_ariths)

lemma unat_byte_count:
  fixes b :: u64
  assumes "0 \<le> d" "nat d * unat b < 2 ^ 64" "unat b \<noteq> 0"
  shows "unat (of_int d * b) = nat d * unat b"
proof -
  have "nat d * 1 \<le> nat d * unat b" using assms(3) by (intro mult_le_mono) auto
  then have "nat d < 2 ^ 64" using assms(2) by linarith
  moreover have "(of_int d :: u64) = of_nat (nat d)" using assms(1) by simp
  ultimately show ?thesis using assms(2) by (simp add: unat_word_ariths)
qed

lemma unat_round:
  fixes n r :: u64
  shows "unat (n div r * r) = unat n div unat r * unat r"
proof -
  have "unat n div unat r * unat r \<le> unat n" by (simp add: div_times_less_eq_dividend)
  then have "unat n div unat r * unat r < 2 ^ 64" using unat_u64_bound [of n] by linarith
  then show ?thesis by (simp add: unat_div unat_word_ariths)
qed

text \<open>C29: a time later than the first sample becomes the byte of that time, rounded to a packet: down
  for a command that starts something, and for one that stops to the end of the packet, which is the
  packet behind if the time is on a boundary. No count is reached that is no multiple of the resolution.\<close>

theorem byte_count_on_boundary:
  assumes "dada_pwc_command_set_byte_count p c = Some c'" "convert_to_bytes p" "utc c \<noteq> 0"
    and "utc_start p \<le> utc c" "1 < byte_resolution p"
    and "nat (utc c - utc_start p) * unat (bytes_per_second p) + unat (byte_resolution p) < 2 ^ 64"
  shows "let x = nat (utc c - utc_start p) * unat (bytes_per_second p); r = unat (byte_resolution p);
      n = unat (byte_count c')
    in r dvd n \<and>
      (if code c = dada_pwc_record_stop \<or> code c = dada_pwc_stop then x < n \<and> n \<le> x + r
       else n \<le> x \<and> x < n + r)"
proof -
  let ?d = "utc c - utc_start p" and ?b = "bytes_per_second p"
  let ?r = "ucast (byte_resolution p) :: u64"
  have r: "unat ?r = unat (byte_resolution p)" by (rule unat_widen)
  have r1: "1 < unat (byte_resolution p)" using assms(5) by (simp add: word_less_nat_alt)
  have b: "?b \<noteq> 0" "\<not> utc c < utc_start p"
    using assms(1-4) by (auto simp: dada_pwc_command_set_byte_count_def split: if_splits)
  have n: "unat (of_int ?d * ?b) = nat ?d * unat ?b"
    using b assms(4,6) by (intro unat_byte_count) (auto simp: unat_eq_zero)
  let ?q = "nat ?d * unat ?b div unat (byte_resolution p) * unat (byte_resolution p)"
  have round: "unat (of_int ?d * ?b div ?r * ?r) = ?q" by (simp only: unat_round n r)
  have q: "?q \<le> nat ?d * unat ?b" "nat ?d * unat ?b < ?q + unat (byte_resolution p)"
    using r1 dividend_less_div_times [of "unat (byte_resolution p)" "nat ?d * unat ?b"]
    by (simp_all add: add.commute)
  have up: "unat (of_int ?d * ?b div ?r * ?r + ?r) = ?q + unat (byte_resolution p)"
    using unat_plus [of "of_int ?d * ?b div ?r * ?r" ?r] q(1) assms(6) unfolding round r by linarith
  show ?thesis
  proof (cases "code c = dada_pwc_record_stop \<or> code c = dada_pwc_stop")
    case True
    then have "byte_count c' = of_int ?d * ?b div ?r * ?r + ?r"
      using assms b by (auto simp: dada_pwc_command_set_byte_count_def Let_def split: if_splits)
    then show ?thesis using True q up by (simp add: Let_def)
  next
    case False
    then have "byte_count c' = of_int ?d * ?b div ?r * ?r"
      using assms b by (auto simp: dada_pwc_command_set_byte_count_def Let_def split: if_splits)
    then show ?thesis using False q round by (simp add: Let_def)
  qed
qed

definition timed_pwc :: dada_pwc where
  "timed_pwc = demo_pwc\<lparr>utc_start := 1000, bytes_per_second := 100, byte_resolution := 16\<rparr>"

theorem byte_count_on_boundary_witness:
  "\<exists>c. dada_pwc_command_set_byte_count timed_pwc (DADA_PWC_COMMAND_INIT\<lparr>code := dada_pwc_stop, utc := 1010\<rparr>) = Some c \<and>
    16 dvd unat (byte_count c) \<and> 1000 < unat (byte_count c) \<and> unat (byte_count c) \<le> 1016"
proof -
  let ?c = "DADA_PWC_COMMAND_INIT\<lparr>code := dada_pwc_stop, utc := 1010\<rparr>"
  have t: "utc_start timed_pwc = 1000" "bytes_per_second timed_pwc = 100" "byte_resolution timed_pwc = 16"
    "convert_to_bytes timed_pwc"
    by (simp_all add: timed_pwc_def demo_pwc_def dada_pwc_create_def)
  have c: "utc ?c = 1010" "code ?c = dada_pwc_stop" by simp_all
  obtain c' where c': "dada_pwc_command_set_byte_count timed_pwc ?c = Some c'"
    using t by (auto simp: dada_pwc_command_set_byte_count_def Let_def)
  from byte_count_on_boundary [OF c'] show ?thesis using c' t c by (auto simp: Let_def)
qed

definition clock_text :: "nat \<Rightarrow> nat \<Rightarrow> nat \<Rightarrow> string" where
  "clock_text h m s = decimal h @ '':'' @ decimal m @ '':'' @ decimal s"

lemma scan_int_decimal: "r = [] \<or> \<not> isdigit (hd r) \<Longrightarrow> scan_int (decimal n @ r) = Some (int n, r)"
  using scan_int_printf_d [of "[]" r "int n"] by (simp add: printf_d_def)

lemma scan_clock: "scan_fields (CHR '':'') 3 (clock_text h m s) = [int h, int m, int s]"
proof -
  have colon: "\<not> isdigit CHR '':''" by (simp add: isdigit_def)
  show ?thesis using scan_int_decimal [of "[]" s]
    by (simp add: clock_text_def numeral_3_eq_3 scan_int_decimal colon)
qed

text \<open>C30: a duration given as hours, minutes and seconds is what the command \<open>start\<close> that follows
  carries, in bytes at the rate of the header.\<close>

theorem duration_reaches_start:
  assumes "pwc_state p = dada_pwc_prepared" "\<not> dada_pwc_command_check p" "bytes_per_second p \<noteq> 0"
    and "h < 2 ^ 32" "m < 60" "s < 60" "0 < h + m + s"
    and "(h * 3600 + 60 * m + s) * unat (bytes_per_second p) < 2 ^ 64"
  shows "\<exists>p'. andthen (dada_pwc_cmd_duration (Some (clock_text h m s)) p) (\<lambda>_. dada_pwc_cmd_start lib args) = Done () p' \<and>
    code (command p') = dada_pwc_start \<and> utc (command p') = dada_pwc_parse_time lib args \<and>
    unat (byte_count (command p')) = (h * 3600 + 60 * m + s) * unat (bytes_per_second p)"
proof -
  let ?t = "h * 3600 + 60 * m + s" and ?b = "bytes_per_second p"
  let ?n = "(ucast (of_nat h :: u32) * 3600 + ucast (60 * of_nat m :: u32) + ucast (of_nat s :: u32)) * ?b :: u64"
  have small: "unat (of_nat m :: u32) = m" "unat (of_nat s :: u32) = s" "unat (of_nat h :: u32) = h"
    "unat (60 * of_nat m :: u32) = 60 * m"
    using assms(4-6) by (simp_all add: unat_of_nat unat_word_ariths)
  have u: "(ucast (of_nat h :: u32) :: u64) = of_nat h" "(ucast (60 * of_nat m :: u32) :: u64) = of_nat (60 * m)"
    "(ucast (of_nat s :: u32) :: u64) = of_nat s"
    using small assms(4-6) by (simp_all add: word_unat_eq_iff unat_widen unat_of_nat del: of_nat_mult)
  have sum: "?n = of_nat ?t * ?b" unfolding u by simp
  have b0: "unat ?b \<noteq> 0" using assms(3) by (simp add: unat_eq_zero)
  then have "?t \<le> ?t * unat ?b" by simp
  then have "?t < 2 ^ 64" using assms(8) by (rule order_le_less_trans)
  then have n: "unat ?n = ?t * unat ?b" unfolding sum using assms(8) by (simp add: unat_word_ariths)
  have "unat ?n \<noteq> 0" unfolding n using b0 assms(7) by auto
  then have n0: "?n \<noteq> 0" by (metis unat_0)
  have "dada_pwc_parse_duration p (clock_text h m s) = ?n"
    using assms(3,5,6) small by (simp add: dada_pwc_parse_duration_def scan_clock word_less_nat_alt not_less)
  then have "dada_pwc_cmd_duration (Some (clock_text h m s)) p =
      Done () (p\<lparr>command := (command p)\<lparr>byte_count := ?n\<rparr>\<rparr>)"
    using n0 assms(1,2) by (simp add: dada_pwc_cmd_duration_def dada_pwc_command_check_def Let_def)
  then show ?thesis using assms(1,2) n
    by (simp add: dada_pwc_cmd_start_def dada_pwc_command_set_def dada_pwc_command_check_def)
qed

theorem duration_reaches_start_witness:
  "\<exists>p'. andthen (dada_pwc_cmd_duration (Some (clock_text 0 1 30)) (timed_pwc\<lparr>pwc_state := dada_pwc_prepared\<rparr>))
      (\<lambda>_. dada_pwc_cmd_start demo_lib None) = Done () p' \<and> unat (byte_count (command p')) = 9000"
proof -
  let ?p = "timed_pwc\<lparr>pwc_state := dada_pwc_prepared\<rparr>"
  have p: "pwc_state ?p = dada_pwc_prepared" "\<not> dada_pwc_command_check ?p" "bytes_per_second ?p = 100"
    by (simp_all add: timed_pwc_def demo_pwc_def dada_pwc_create_def dada_pwc_command_check_def DADA_PWC_COMMAND_INIT_def)
  from duration_reaches_start [of ?p 0 1 30 demo_lib None] p show ?thesis by fastforce
qed

section \<open>Headers\<close>

text \<open>A header that is accepted waits in the mailbox with the data rate its own parameters give: the
  line \<open>BYTES_PER_SECOND\<close> of it reads as the rate that times are converted with.\<close>

theorem header_rate_readable:
  assumes "dada_pwc_cmd_header lib (Some a) p = Done u p'"
    and "length a + 1 < unat (header_size p)" "strstr (map (\<lambda>c. if c = BACKSLASH then NL else c) a @ [NL]) DATA = None"
  shows "\<exists>h. cmd_header (command p') = Some h \<and> h = pwc_header p' \<and>
    ascii_header_get h ''BYTES_PER_SECOND'' scanf_d = (1, Some (int (unat (bytes_per_second p'))))"
proof -
  let ?k = "''BYTES_PER_SECOND''"
  let ?a = "map (\<lambda>c. if c = BACKSLASH then NL else c) a"
  from assms(1) obtain q where q: "dada_pwc_parse_bytes_per_second lib ?a p = Done () q" and a: "a \<noteq> []"
    and p': "p' = q\<lparr>pwc_header := pwc_header p', command := command p'\<rparr>"
      "cmd_header (command p') = Some (pwc_header p')"
    and h: "pwc_header p' = ascii_header_set (if last ?a \<noteq> NL \<and> length ?a + 1 < unat (header_size q)
        then ?a @ [NL] else ?a) ?k (decimal (unat (bytes_per_second q)))"
    by (auto simp: dada_pwc_cmd_header_def Let_def outcome_simps dest!: command_set_cases split: if_splits)
  have s: "header_size q = header_size p"
    using q by (auto simp: dada_pwc_parse_bytes_per_second_def Let_def split: option.splits prod.splits if_splits)
  let ?h = "if last ?a \<noteq> NL then ?a @ [NL] else ?a"
  have h: "pwc_header p' = ascii_header_set ?h ?k (printf_d (int (unat (bytes_per_second q))))"
    using h s assms(2) by (auto simp: printf_d_def)
  have o: "in_order ?h ?k"
    using assms(3) strstr_append_None [OF assms(3)] by (intro in_orderI) auto
  have k: "is_keyword ?k" by code_simp
  have "unat (bytes_per_second q) < 10 ^ 20"
    using unat_u64_bound [of "bytes_per_second q"] by (rule order_less_le_trans) simp
  then have l: "int (length (printf_d (int (unat (bytes_per_second q))))) < 131072"
    using length_decimal [of "unat (bytes_per_second q)" 20] by (simp add: printf_d_def)
  obtain w t where "list_all isspace w" "ascii_header_get (pwc_header p') ?k scanf_d =
      scanf_d (w @ printf_d (int (unat (bytes_per_second q))) @ BLANK # t)"
    using set_get_scan [OF k o l, of scanf_d] unfolding h by blast
  then have "ascii_header_get (pwc_header p') ?k scanf_d = (1, Some (int (unat (bytes_per_second q))))"
    by (simp add: scanf_d_printf_d isspace_def)
  moreover have "bytes_per_second p' = bytes_per_second q" by (subst p'(1)) simp
  ultimately show ?thesis using p'(2) by auto
qed

definition demo_text :: string where
  "demo_text = ''NPOL 1'' @ BACKSLASH # ''NBIT 1'' @ BACKSLASH # ''TSAMP 1000''"

theorem header_rate_readable_witness:
  "\<exists>p' h. dada_pwc_cmd_header demo_lib (Some demo_text) demo_pwc = Done () p' \<and> cmd_header (command p') = Some h \<and>
    ascii_header_get h ''BYTES_PER_SECOND'' scanf_d = (1, Some 125)"
proof -
  have "map_option (\<lambda>p'. bytes_per_second p')
      (case dada_pwc_cmd_header demo_lib (Some demo_text) demo_pwc of Done u p' \<Rightarrow> Some p' | _ \<Rightarrow> None) = Some 125"
    by code_simp
  then obtain p' where p': "dada_pwc_cmd_header demo_lib (Some demo_text) demo_pwc = Done () p'"
    "bytes_per_second p' = 125"
    by (auto split: outcome.splits)
  have "length demo_text + 1 < unat (header_size demo_pwc)"
    by (simp add: demo_text_def demo_pwc_def dada_pwc_create_def)
  moreover have "strstr (map (\<lambda>c. if c = BACKSLASH then NL else c) demo_text @ [NL]) DATA = None" by code_simp
  ultimately show ?thesis using header_rate_readable [OF p'(1)] p' by fastforce
qed

end
