(* ===== verification/C_Memory.thy ===== *)
theory C_Memory
  imports Ascii_Header
begin

text \<open>ASCII headers in memory: the header blocks of a ring hold them as C strings.\<close>

text \<open>The C string at the start of a region of memory, and its storage there.\<close>

definition c_string :: "u8 list \<Rightarrow> string option" where
  "c_string m = (if 0 \<in> set m then Some (map (\<lambda>b. char_of (unat b)) (takeWhile (\<lambda>b. b \<noteq> 0) m)) else None)"

definition store_string :: "string \<Rightarrow> u8 list \<Rightarrow> u8 list option" where
  "store_string s m =
     (if length s < length m then Some (map of_char s @ 0 # drop (Suc (length s)) m) else None)"

text \<open>strncpy of at most \<open>n\<close> characters to the start of \<open>m\<close>, the rest of the \<open>n\<close> filled with zeros.\<close>

definition store_strncpy :: "nat \<Rightarrow> string \<Rightarrow> u8 list \<Rightarrow> u8 list option" where
  "store_strncpy n s m =
     (if n \<le> length m then Some (take n (map of_char s @ replicate n 0) @ drop n m) else None)"

lemma c_string_prefix: "c_string d = Some text \<Longrightarrow> c_string (d @ rest) = Some text"
  by (auto simp: c_string_def takeWhile_append split: if_splits)

text \<open>For evaluation: integers are computed with faster than natural numbers.\<close>

lemma c_string_code [code]:
  "c_string m = (if 0 \<in> set m then Some (map (\<lambda>b. char_of (uint b)) (takeWhile (\<lambda>b. b \<noteq> 0) m)) else None)"
proof -
  have "char_of (unat b) = char_of (uint b)" for b :: u8
    by (simp add: char_of_def bit_unsigned_iff)
  then show ?thesis by (simp add: c_string_def)
qed

end
