(* ===== verification/Dada_Hdu.thy ===== *)
theory Dada_Hdu
  imports Ipcio_Start C_Memory
begin

text \<open>
  src/dada_hdu.c: a header-data unit, the pair of rings through which the programs of the
  repository pass observations: the data block, used as a byte stream, and the header block, whose
  sub-blocks hold one ASCII header each. The functions act on the unit and the kernel; a function of
  src/ipcbuf.c or src/ipcio.c acts on one of the unit's two handles and, through it, on the ring the
  handle is connected to. The logging is not modelled.
\<close>

section \<open>The unit\<close>

text \<open>\<open>header\<close> is the process's own copy of a header, of \<open>header_size\<close> bytes; \<open>None\<close> is NULL.\<close>

record dada_hdu =
  data_block :: "ipcio option"
  header_block :: "ipcbuf option"
  header :: "u8 list option"
  header_size :: u64
  data_block_key :: key_t
  header_block_key :: key_t

type_synonym hdu_st = "dada_hdu \<times> kernel"

definition DADA_DEFAULT_BLOCK_KEY :: key_t where "DADA_DEFAULT_BLOCK_KEY = 0xdada"

text \<open>A call on the data block or on the header block.\<close>

definition on_data :: "(unit ipcio_ext life_st \<Rightarrow> ('a, unit ipcio_ext life_st) outcome) \<Rightarrow>
    hdu_st \<Rightarrow> ('a, hdu_st) outcome" where
  "on_data f = (\<lambda>(hdu, k). case data_block hdu of
     None \<Rightarrow> Crash
   | Some ipc \<Rightarrow> map_outcome id (\<lambda>(ipc', k'). (hdu\<lparr>data_block := Some ipc'\<rparr>, k')) (f (ipc, k)))"

definition on_header :: "(unit life_st \<Rightarrow> ('a, unit life_st) outcome) \<Rightarrow>
    hdu_st \<Rightarrow> ('a, hdu_st) outcome" where
  "on_header f = (\<lambda>(hdu, k). case header_block hdu of
     None \<Rightarrow> Crash
   | Some hb \<Rightarrow> map_outcome id (\<lambda>(hb', k'). (hdu\<lparr>header_block := Some hb'\<rparr>, k')) (f (hb, k)))"

section \<open>Creation and connection\<close>

definition dada_hdu_set_key :: "key_t \<Rightarrow> dada_hdu \<Rightarrow> dada_hdu" where
  "dada_hdu_set_key key hdu = hdu\<lparr>data_block_key := key, header_block_key := key + 1\<rparr>"

definition dada_hdu_create :: dada_hdu where
  "dada_hdu_create = dada_hdu_set_key DADA_DEFAULT_BLOCK_KEY
     \<lparr>data_block = None, header_block = None, header = None, header_size = 0,
      data_block_key = 0, header_block_key = 0\<rparr>"

text \<open>Both handles are released; the copy of the header is not.\<close>

definition free_blocks :: "hdu_st \<Rightarrow> hdu_st" where
  "free_blocks = (\<lambda>(hdu, k). (hdu\<lparr>data_block := None, header_block := None\<rparr>, k))"

text \<open>The caller tests the result for an error, runs \<open>cleanup\<close>, and returns -1.\<close>

fun fail_after :: "('s \<Rightarrow> (unit, 's) outcome) \<Rightarrow> ('a, 's) outcome \<Rightarrow> ('a, 's) outcome" where
  "fail_after cleanup (Err c s) = andthen (cleanup s) (\<lambda>_. Err (-1))"
| "fail_after cleanup (Done a s) = Done a s"
| "fail_after cleanup (Wait s) = Wait s"
| "fail_after cleanup Crash = Crash"

definition dada_hdu_connect :: "hdu_st \<Rightarrow> (unit, hdu_st) outcome" where
  "dada_hdu_connect = (\<lambda>(hdu, k).
     if data_block hdu \<noteq> None then Err (-1) (hdu, k)
     else
       andthen (fail_after (\<lambda>s. Done () (free_blocks s))
         (on_header (ipcbuf_connect (header_block_key hdu))
           (hdu\<lparr>header_block := Some IPCBUF_INIT, data_block := Some IPCIO_INIT\<rparr>, k))) (\<lambda>_ s.
       fail_after (\<lambda>s. andthen (ignore (on_header ipcbuf_disconnect s)) (\<lambda>_ s. Done () (free_blocks s)))
         (on_data (ipcio_connect (data_block_key hdu)) s)))"

text \<open>The status of a call whose failure the caller only notes.\<close>

fun status :: "(unit, 's) outcome \<Rightarrow> (bool, 's) outcome" where
  "status (Done u s) = Done True s"
| "status (Err c s) = Done False s"
| "status (Wait s) = Wait s"
| "status Crash = Crash"

definition dada_hdu_disconnect :: "hdu_st \<Rightarrow> (unit, hdu_st) outcome" where
  "dada_hdu_disconnect = (\<lambda>(hdu, k).
     if data_block hdu = None then Err (-1) (hdu, k)
     else
       andthen (status (on_data ipcio_disconnect (hdu, k))) (\<lambda>ok_data s.
       andthen (status (on_header ipcbuf_disconnect s)) (\<lambda>ok_header s.
         if ok_data \<and> ok_header then Done () (free_blocks s) else Err (-1) (free_blocks s))))"

text \<open>After \<open>dada_hdu_destroy\<close> the unit is no more; the state is what it leaves in the kernel.\<close>

definition dada_hdu_destroy :: "hdu_st \<Rightarrow> (unit, hdu_st) outcome" where
  "dada_hdu_destroy s =
     (if data_block (fst s) \<noteq> None then ignore (dada_hdu_disconnect s) else Done () s)"

section \<open>Locks\<close>

definition connected_unit :: "hdu_st \<Rightarrow> bool" where
  "connected_unit s \<longleftrightarrow> data_block (fst s) \<noteq> None"

definition dada_hdu_lock_read :: "hdu_st \<Rightarrow> (unit, hdu_st) outcome" where
  "dada_hdu_lock_read s =
     (if \<not> connected_unit s then Err (-1) s
      else andthen (fail_as (-1) (on_header (with_ring ipcbuf_lock_read) s)) (\<lambda>_ s.
           fail_as (-1) (on_data (with_ring (ipcio_open (CHR ''R''))) s)))"

text \<open>The data block is closed only if it is open.\<close>

definition close_if_open :: "hdu_st \<Rightarrow> (unit, hdu_st) outcome" where
  "close_if_open s = (case data_block (fst s) of
     None \<Rightarrow> Crash
   | Some ipc \<Rightarrow> if ipcio_is_open ipc then fail_as (-1) (on_data (with_ring ipcio_close) s) else Done () s)"

definition clear_header :: "('h, 'r) buf_st \<Rightarrow> (unit, ('h, 'r) buf_st) outcome" where
  "clear_header s = (if ipcbuf_is_reader s then ignore (ipcbuf_mark_cleared s) else Done () s)"

definition dada_hdu_unlock_read :: "hdu_st \<Rightarrow> (unit, hdu_st) outcome" where
  "dada_hdu_unlock_read s =
     (if \<not> connected_unit s then Err (-1) s
      else andthen (close_if_open s) (\<lambda>_ (hdu, k).
           andthen
             (if header hdu \<noteq> None
              then on_header (with_ring clear_header) (hdu\<lparr>header := None\<rparr>, k)
              else Done () (hdu, k)) (\<lambda>_ s.
           fail_as (-1) (on_header (with_ring ipcbuf_unlock_read) s))))"

definition dada_hdu_lock_write_spec :: "char \<Rightarrow> hdu_st \<Rightarrow> (unit, hdu_st) outcome" where
  "dada_hdu_lock_write_spec writemode s =
     (if \<not> connected_unit s then Err (-1) s
      else andthen (fail_as (-1) (on_header (with_ring ipcbuf_lock_write) s)) (\<lambda>_ s.
           fail_as (-1) (on_data (with_ring (ipcio_open writemode)) s)))"

definition dada_hdu_lock_write :: "hdu_st \<Rightarrow> (unit, hdu_st) outcome" where
  "dada_hdu_lock_write = dada_hdu_lock_write_spec (CHR ''W'')"

definition dada_hdu_unlock_write :: "hdu_st \<Rightarrow> (unit, hdu_st) outcome" where
  "dada_hdu_unlock_write s =
     (if \<not> connected_unit s then Err (-1) s
      else andthen (close_if_open s) (\<lambda>_ s.
           fail_as (-1) (on_header (with_ring ipcbuf_unlock_write) s)))"

definition dada_hdu_open_view :: "hdu_st \<Rightarrow> (unit, hdu_st) outcome" where
  "dada_hdu_open_view s =
     (if \<not> connected_unit s then Err (-1) s
      else fail_as (-1) (on_data (with_ring (ipcio_open (CHR ''r''))) s))"

definition dada_hdu_close_view :: "hdu_st \<Rightarrow> (unit, hdu_st) outcome" where
  "dada_hdu_close_view s =
     (if \<not> connected_unit s then Err (-1) s
      else fail_as (-1) (on_data (with_ring ipcio_close) s))"

section \<open>The next header\<close>

text \<open>
  The loop of \<open>dada_hdu_open\<close>: empty sub-blocks at the end of a transfer are released and skipped. Each turn
  but the first follows a sub-block taken, so a reader makes at most as many turns as there are full
  sub-blocks, and one that sleeps; a viewer at the end of data gets no further block. \<open>next_header\<close> starts
  with enough turns: \<open>next_header_unfold\<close> below is the loop as the code has it.
\<close>

fun header_turns :: "nat \<Rightarrow> ('h, 'r) buf_st \<Rightarrow> (read_ptr, ('h, 'r) buf_st) outcome" where
  "header_turns n s =
     andthen (fail_as (-1) (ipcbuf_get_next_read s)) (\<lambda>p s.
     if rp_bytes p \<noteq> 0 then Done p s
     else andthen (clear_header s) (\<lambda>_ s.
       if \<not> ipcbuf_eod s then Err (-1) s
       else andthen (if ipcbuf_is_reader s then ignore (ipcbuf_reset s) else Done () s) (\<lambda>_ s.
         case n of 0 \<Rightarrow> Wait s | Suc m \<Rightarrow> header_turns m s)))"

declare header_turns.simps [simp del]

definition next_header :: "('h, 'r) buf_st \<Rightarrow> (read_ptr, ('h, 'r) buf_st) outcome" where
  "next_header = (\<lambda>(hb, r). header_turns (Suc (sem_data r (nat (iread hb)) IPCBUF_FULL)) (hb, r))"

text \<open>
  The size the header claims, which is set to that of a sub-block if there is none. \<open>%PRIu64\<close> stores a
  number modulo 2 to the 64.
\<close>

definition claimed_size :: "read_ptr \<Rightarrow> ('h, 'r) buf_st \<Rightarrow> (u64, ('h, 'r) buf_st) outcome" where
  "claimed_size p = (\<lambda>(hb, r).
     let b = rp_block p; off = unat (rp_offset p); m = drop off (mem r b)
     in case c_string m of
          None \<Rightarrow> Crash
        | Some text \<Rightarrow>
            (case ascii_header_get text ''HDR_SIZE'' scanf_d of
               (n, Some v) \<Rightarrow> Done (of_int v) (hb, r)
             | (n, None) \<Rightarrow>
                 (case store_string (ascii_header_set text ''HDR_SIZE'' (decimal (unat (bufsz r)))) m of
                    None \<Rightarrow> Crash
                  | Some m' \<Rightarrow>
                      Done (bufsz r) (hb, r\<lparr>mem := (mem r)(b := take off (mem r b) @ m')\<rparr>))))"

definition header_bytes :: "('h, 'r) buf_st \<Rightarrow> (u64 \<times> u8 list, ('h, 'r) buf_st) outcome" where
  "header_bytes s =
     andthen (next_header s) (\<lambda>p s.
     andthen (claimed_size p s) (\<lambda>hdr_size (hb, r).
       if hdr_size > bufsz r then Err (-1) (hb, r)
       else Done (hdr_size, drop (unat (rp_offset p)) (mem r (rp_block p))) (hb, r)))"

text \<open>memcpy of \<open>n\<close> bytes from the start of \<open>m\<close> to the unit's copy.\<close>

definition copy_header :: "u64 \<Rightarrow> u8 list \<Rightarrow> dada_hdu \<Rightarrow> dada_hdu option" where
  "copy_header n m hdu =
     (let hdu = (if n > header_size hdu
                 then hdu\<lparr>header := Some (replicate (unat n) 0), header_size := n\<rparr> else hdu)
      in case header hdu of
           None \<Rightarrow> None
         | Some h \<Rightarrow>
             if unat n > length m \<or> unat n > length h then None
             else Some (hdu\<lparr>header := Some (take (unat n) m @ drop (unat n) h)\<rparr>))"

definition dada_hdu_open :: "hdu_st \<Rightarrow> (unit, hdu_st) outcome" where
  "dada_hdu_open s =
     (if header (fst s) \<noteq> None then Crash
      else andthen (on_header (with_ring header_bytes) s) (\<lambda>(n, m) (hdu, k).
        case copy_header n m hdu of None \<Rightarrow> Crash | Some hdu \<Rightarrow> Done () (hdu, k)))"

section \<open>Addresses of the sub-blocks\<close>

definition dada_hdu_hb_addresses :: "hdu_st \<Rightarrow> (key_t option list \<times> u64 \<times> u64, hdu_st) outcome" where
  "dada_hdu_hb_addresses = on_header (with_ring (\<lambda>(hb, r).
     Done (buffer hb, ipcbuf_get_nbufs (hb, r), ipcbuf_get_bufsz (hb, r)) (hb, r)))"

definition dada_hdu_db_addresses :: "hdu_st \<Rightarrow> (key_t option list \<times> u64 \<times> u64, hdu_st) outcome" where
  "dada_hdu_db_addresses = on_data (with_ring (\<lambda>(db, r).
     Done (buffer db, ipcbuf_get_nbufs (db, r), ipcbuf_get_bufsz (db, r)) (db, r)))"

end
