(* ===== verification/Hdu_Properties.thy ===== *)
theory Hdu_Properties
  imports Dada_Hdu Ipcbuf_Query
begin

text \<open>
  Header-data units: the loop of \<open>dada_hdu_open\<close> ends, connecting to two rings created side by side,
  and the header a reader of a ring in use gets. The last section has two flaws of the code.
\<close>

section \<open>The loop over empty sub-blocks\<close>

text \<open>A reader that took a block has one full sub-block less, and stays at its slot.\<close>

lemma header_turns_eod: "ipcbuf_eod s \<Longrightarrow> header_turns n s = Err (-1) s"
  by (cases s) (simp add: header_turns.simps [of n] ipcbuf_get_next_read_def ipcbuf_get_next_read_work_def)

lemma clear_header_Done:
  assumes "clear_header (h, r) = Done u (h', r')"
  shows "iread h' = iread h" "sem_data r' (nat (iread h)) IPCBUF_FULL = sem_data r (nat (iread h)) IPCBUF_FULL"
    "\<not> ipcbuf_is_reader (h, r) \<Longrightarrow> (h', r') = (h, r)" "ipcbuf_is_reader (h, r) \<Longrightarrow> ipcbuf_is_reader (h', r')"
  using assms
  by (auto simp: clear_header_def outcome_simps ipcbuf_mark_cleared_def ipc_semop_Data Let_def sem_data_add_one
      ipcbuf_is_reader_def ipc_semop_def split: if_splits sem_result.splits)

lemma reset_reader_Done:
  assumes "ipcbuf_reset (h, r) = Done u (h', r') \<or> ipcbuf_reset (h, r) = Err c (h', r')"
    and "ipcbuf_eod (h, r)" "ipcbuf_is_reader (h, r)"
  shows "iread h' = iread h" "sem_data r' = sem_data r"
  using assms by (auto simp: ipcbuf_reset_def ipcbuf_eod_def ipcbuf_is_reader_def split: if_splits)

lemma next_turn_less:
  assumes 1: "ipcbuf_get_next_read (h, r) = Done p s1" and 2: "clear_header s1 = Done u s2"
    and eod: "ipcbuf_eod s2"
    and 3: "(if ipcbuf_is_reader s2 then ignore (ipcbuf_reset s2) else Done () s2) = Done v (h3, r3)"
  shows "ipcbuf_eod (h3, r3) \<or>
    sem_data r3 (nat (iread h3)) IPCBUF_FULL < sem_data r (nat (iread h)) IPCBUF_FULL"
proof (cases "ipcbuf_is_reader s2")
  case False
  then show ?thesis using 3 eod by simp
next
  case True
  obtain h1 r1 h2 r2 where eqs: "s1 = (h1, r1)" "s2 = (h2, r2)" by (metis surj_pair)
  note c = clear_header_Done [OF 2 [unfolded eqs(1,2)]]
  have rd1: "ipcbuf_is_reader (h1, r1)" using c(3) True eqs by auto
  have rd: "ipcbuf_is_reader (h, r)"
    using 1 rd1 unfolding eqs
    by (auto simp: ipcbuf_get_next_read_def ipcbuf_get_next_read_work_def get_next_read_viewer_def
        viewer_start_def Let_def ipcbuf_is_reader_def split: if_splits)
  note t = get_next_read_Done [OF 1 rd]
  have "state h = IPCBUF_READING \<or> state h = IPCBUF_READER"
    using rd t(1) by (auto simp: ipcbuf_is_reader_def)
  then have "iread h1 = iread h \<and>
      Suc (sem_data r1 (nat (iread h)) IPCBUF_FULL) = sem_data r (nat (iread h)) IPCBUF_FULL"
    using t(3-5) by (auto simp: eqs sem_data_add_one)
  moreover have "iread h3 = iread h2 \<and> sem_data r3 = sem_data r2"
    using 3 True reset_reader_Done [of h2 r2 v h3 r3] eod by (auto simp: eqs outcome_simps)
  ultimately show ?thesis using c(1,2) by simp
qed

lemma header_turns_enough:
  "sem_data (snd s) (nat (iread (fst s))) IPCBUF_FULL < n \<Longrightarrow> header_turns (Suc n) s = header_turns n s"
proof (induction n arbitrary: s)
  case (Suc n)
  obtain h r where s: "s = (h, r)" by fastforce
  have next_turn: "header_turns (Suc n) s3 = header_turns n s3"
    if "ipcbuf_get_next_read (h, r) = Done p s1" "clear_header s1 = Done u s2" "ipcbuf_eod s2"
      "(if ipcbuf_is_reader s2 then ignore (ipcbuf_reset s2) else Done () s2) = Done v s3"
    for p s1 u s2 v s3
    using next_turn_less [of h r p s1 u s2 v "fst s3" "snd s3"] Suc.IH [of s3] Suc.prems that
    by (auto simp: s header_turns_eod)
  show ?case
    unfolding s header_turns.simps [of "Suc (Suc n)" "(h, r)"] header_turns.simps [of "Suc n" "(h, r)"] nat.case
    using next_turn by (intro andthen_cong if_cong refl) simp_all
qed simp

lemma header_turns_more:
  "sem_data (snd s) (nat (iread (fst s))) IPCBUF_FULL < n \<Longrightarrow> header_turns (n + d) s = header_turns n s"
  by (induction d) (simp_all add: header_turns_enough)

lemma next_header_enough:
  "sem_data (snd s) (nat (iread (fst s))) IPCBUF_FULL < n \<Longrightarrow> header_turns n s = next_header s"
proof -
  assume n: "sem_data (snd s) (nat (iread (fst s))) IPCBUF_FULL < n"
  let ?m = "Suc (sem_data (snd s) (nat (iread (fst s))) IPCBUF_FULL)"
  have "header_turns (?m + (n - ?m)) s = header_turns ?m s" by (rule header_turns_more) simp
  then show ?thesis using n by (simp add: next_header_def case_prod_unfold)
qed

text \<open>\<open>next_header\<close> is the loop of the code.\<close>

lemma next_header_unfold:
  "next_header s =
     andthen (fail_as (-1) (ipcbuf_get_next_read s)) (\<lambda>p s.
     if rp_bytes p \<noteq> 0 then Done p s
     else andthen (clear_header s) (\<lambda>_ s.
       if \<not> ipcbuf_eod s then Err (-1) s
       else andthen (if ipcbuf_is_reader s then ignore (ipcbuf_reset s) else Done () s) (\<lambda>_ s.
         next_header s)))"
proof -
  obtain h r where s: "s = (h, r)" by fastforce
  let ?n = "sem_data r (nat (iread h)) IPCBUF_FULL"
  have next_turn: "header_turns ?n s3 = next_header s3"
    if "ipcbuf_get_next_read (h, r) = Done p s1" "clear_header s1 = Done u s2" "ipcbuf_eod s2"
      "(if ipcbuf_is_reader s2 then ignore (ipcbuf_reset s2) else Done () s2) = Done v s3"
    for p s1 u s2 v s3
    using next_turn_less [of h r p s1 u s2 v "fst s3" "snd s3"] next_header_enough [of s3 ?n] that
    by (auto simp: next_header_def header_turns_eod case_prod_unfold)
  have "next_header s = header_turns (Suc ?n) (h, r)" by (simp add: next_header_def s)
  then show ?thesis
    unfolding s header_turns.simps [of "Suc ?n" "(h, r)"] nat.case
    using next_turn by (auto intro!: andthen_cong)
qed

section \<open>Connection\<close>

text \<open>Connecting to a ring changes nothing in the kernel.\<close>

lemma get_sems_False: "get_sems keys False k = (ids, k') \<Longrightarrow> k' = k"
  by (induction keys arbitrary: ids k')
    (auto simp: sys_semget_def Let_def split: option.splits if_splits prod.splits)

lemma get_bufs_False: "get_bufs keys sz False k = (bufs, shms, k') \<Longrightarrow> k' = k"
  by (induction keys arbitrary: bufs shms k')
    (auto simp: ipc_alloc_def Let_def split: option.splits if_splits prod.splits)

lemma connect_keeps:
  "ipcbuf_connect key (h, k) = Done u (h', k') \<Longrightarrow> k' = k \<and> sync_ptr h' = Some key"
  "ipcbuf_connect key (h, k) = Err c (h', k') \<Longrightarrow> k' = k"
  by (auto simp: ipcbuf_connect_def ipcsync_get_def ipc_alloc_def ipcbuf_get_def Let_def outcome_simps
      sys_semget_def dest!: get_sems_False get_bufs_False split: option.splits if_splits prod.splits)

lemma connect_not_Wait: "ipcbuf_connect key (h, k) \<noteq> Wait s"
  by (auto simp: ipcbuf_connect_def ipcsync_get_def ipcbuf_get_def Let_def split: option.splits prod.splits)

lemma connect_cases:
  obtains h' where "ipcbuf_connect key (h, k) = Done () (h', k)" "sync_ptr h' = Some key"
  | c h' where "ipcbuf_connect key (h, k) = Err c (h', k)"
  | "ipcbuf_connect key (h, k) = Crash"
proof (cases "ipcbuf_connect key (h, k)")
  case (Done u s')
  then show thesis using that(1) connect_keeps(1) [of key h k u "fst s'" "snd s'"] by (cases s') auto
next
  case (Err c s')
  then show thesis using that(2) connect_keeps(2) [of key h k c "fst s'" "snd s'"] by (cases s') auto
next
  case (Wait s)
  then show thesis using connect_not_Wait [of key h k s] by simp
qed (use that in auto)

lemma hdu_connect_cases:
  assumes "data_block hdu = None" "header_block hdu = None"
  obtains hdu' where "dada_hdu_connect (hdu, k) = Done () (hdu', k)"
      "dada_hdu_disconnect (hdu', k) = Done () (hdu, k)"
  | "dada_hdu_connect (hdu, k) = Err (-1) (hdu, k)" | "dada_hdu_connect (hdu, k) = Crash"
proof -
  have same: "free_blocks (hdu\<lparr>data_block := x, header_block := y\<rparr>, k) = (hdu, k)"
    "free_blocks (hdu\<lparr>header_block := y, data_block := x\<rparr>, k) = (hdu, k)" for x y
    using assms by (cases hdu; simp add: free_blocks_def)+
  note defs = dada_hdu_connect_def on_header_def on_data_def ipcio_connect_def assms
  show thesis
  proof (cases rule: connect_cases [of "header_block_key hdu" IPCBUF_INIT k])
    case (1 hb)
    note hb = this
    show thesis
    proof (cases rule: connect_cases [of "data_block_key hdu" IPCIO_INIT k])
      case (1 db)
      let ?hdu = "hdu\<lparr>header_block := Some hb, data_block := Some (ipcio_init db)\<rparr>"
      have "dada_hdu_connect (hdu, k) = Done () (?hdu, k)"
        using 1 hb by (simp add: defs)
      moreover have "sync_ptr (ipcio_init db) = Some (data_block_key hdu)" using 1 by (simp add: ipcio_init_def)
      then have "dada_hdu_disconnect (?hdu, k) = Done () (hdu, k)"
        using hb same by (simp add: dada_hdu_disconnect_def ipcbuf_disconnect_def ipcio_disconnect_def
            on_header_def on_data_def)
      ultimately show thesis by (rule that(1))
    next
      case (2 c db)
      then show thesis
        using hb same by (intro that(2)) (simp add: defs ipcbuf_disconnect_def)
    next
      case 3
      then show thesis using hb by (intro that(3)) (simp add: defs)
    qed
  next
    case (2 c hb)
    then show thesis using same by (intro that(2)) (simp add: defs)
  next
    case 3
    then show thesis by (intro that(3)) (simp add: defs)
  qed
qed

text \<open>Rings with keys that differ in the low 16 bits are created side by side.\<close>

lemma created_other:
  assumes "unat x mod 65536 \<noteq> unat key mod 65536"
  shows "segs (created key nb bz n k) x = segs k x" "semsets (created key nb bz n k) x = semsets k x"
    "rings (created key nb bz n k) x = rings k x"
proof -
  have ne: "x \<noteq> ring_key key j" for j using assms ring_key_low by metis
  then have "x \<noteq> key" using ring_key_0 by metis
  with ne show "segs (created key nb bz n k) x = segs k x"
    "semsets (created key nb bz n k) x = semsets k x" "rings (created key nb bz n k) x = rings k x"
    by (auto simp: created_def Ring_Lifetime.taken_def sub_block_keys_def reader_keys_def)
qed

lemma created_same:
  assumes "segs k x = segs k' x" "semsets k x = semsets k' x" "rings k x = rings k' x"
  shows "segs (created key nb bz n k) x = segs (created key nb bz n k') x"
    "semsets (created key nb bz n k) x = semsets (created key nb bz n k') x"
    "rings (created key nb bz n k) x = rings (created key nb bz n k') x"
  using assms by (simp_all add: created_def Ring_Lifetime.taken_def)

lemma created_swap:
  assumes "unat key mod 65536 \<noteq> unat key' mod 65536"
  shows "created key' nb' bz' n' (created key nb bz n k) = created key nb bz n (created key' nb' bz' n' k)"
    (is "?k1 = ?k2")
proof -
  have "segs ?k1 x = segs ?k2 x \<and> semsets ?k1 x = semsets ?k2 x \<and> rings ?k1 x = rings ?k2 x" for x
  proof (cases "unat x mod 65536 = unat key mod 65536")
    case True
    then have x: "unat x mod 65536 \<noteq> unat key' mod 65536" using assms by simp
    show ?thesis
      unfolding created_other [OF x]
      by (intro conjI; rule created_same; simp only: created_other [OF x])
  next
    case False
    show ?thesis
      unfolding created_other [OF False]
      by (intro conjI; rule created_same; simp only: created_other [OF False])
  qed
  then have "segs ?k1 = segs ?k2" "semsets ?k1 = semsets ?k2" "rings ?k1 = rings ?k2"
    by (simp_all add: fun_eq_iff)
  then show ?thesis by (cases ?k1, cases ?k2) simp
qed

lemma created_free:
  assumes ne: "unat key mod 65536 \<noteq> unat key' mod 65536"
  shows "all_free (key # sub_block_keys key nb) (segs (created key' nb' bz' n' k)) \<longleftrightarrow>
      all_free (key # sub_block_keys key nb) (segs k)"
    "all_free (ring_key key 1 # reader_keys key n) (semsets (created key' nb' bz' n' k)) \<longleftrightarrow>
      all_free (ring_key key 1 # reader_keys key n) (semsets k)"
proof -
  have "unat (ring_key key j) mod 65536 \<noteq> unat key' mod 65536" for j
    using ne ring_key_low [of key j] by simp
  note other = created_other [OF this] created_other [OF ne]
  show "all_free (key # sub_block_keys key nb) (segs (created key' nb' bz' n' k)) \<longleftrightarrow>
      all_free (key # sub_block_keys key nb) (segs k)"
    "all_free (ring_key key 1 # reader_keys key n) (semsets (created key' nb' bz' n' k)) \<longleftrightarrow>
      all_free (ring_key key 1 # reader_keys key n) (semsets k)"
    by (auto simp: sub_block_keys_def reader_keys_def all_free_def other)
qed

lemma next_key_differs: "unat key mod 65536 \<noteq> unat (key + 1) mod 65536" for key :: key_t
proof -
  have "unat (key + 1) = (unat key + 1) mod 4294967296" by (simp add: unat_word_ariths)
  moreover have "(unat key + 1) mod 4294967296 mod 65536 = (unat key + 1) mod 65536"
    by (rule mod_mod_cancel) simp
  ultimately have "unat (key + 1) mod 65536 = (unat key + 1) mod 65536" by simp
  then show ?thesis using mod_Suc [of "unat key" 65536] by (auto split: if_splits)
qed

lemma connect_both:
  assumes c: "ipcbuf_create key nb bz n (h, k) = Done u (h1, k1)" "bz \<noteq> 0"
    and c': "ipcbuf_create (key + 1) nb' bz' n' (h', k1) = Done u' (h2, k2)" "bz' \<noteq> 0"
  shows "ipcbuf_connect key (g, k2) = Done () (connected_handle key nb n g, k2)"
    and "ipcbuf_connect (key + 1) (g', k2) = Done () (connected_handle (key + 1) nb' n' g', k2)"
proof -
  note D = create_DoneD [OF c] and D' = create_DoneD [OF c']
  note ne = next_key_differs [of key]
  have k: "k1 = created key nb bz n k" "k2 = created (key + 1) nb' bz' n' k1" using D(5) D'(5) by auto
  show "ipcbuf_connect (key + 1) (g', k2) = Done () (connected_handle (key + 1) nb' n' g', k2)"
    unfolding k(2) by (rule connect_created [OF D'(3,4,1)])
  show "ipcbuf_connect key (g, k2) = Done () (connected_handle key nb n g, k2)"
    unfolding k created_swap [OF ne] using D(1,3,4) created_free [OF ne] by (intro connect_created) simp_all
qed

section \<open>Opening a header\<close>

text \<open>
  A reader that finds a block at the front of its ring with a header of a proper size in it takes
  the block and copies the header.
\<close>

lemma header_bytes_Done:
  assumes f: "ipcbuf_get_next_read (h, r) = Done p (h', r')" and p: "rp_bytes p \<noteq> 0"
    and str: "c_string (drop (unat (rp_offset p)) (mem r' (rp_block p))) = Some text"
    and v: "ascii_header_get text ''HDR_SIZE'' scanf_d = (m, Some v)" "of_int v \<le> bufsz r'"
  shows "header_bytes (h, r) =
    Done (of_int v, drop (unat (rp_offset p)) (mem r' (rp_block p))) (h', r')"
proof -
  have "next_header (h, r) = Done p (h', r')"
    unfolding next_header_unfold [of "(h, r)"] by (simp add: f p)
  then show ?thesis using str v by (simp add: header_bytes_def claimed_size_def)
qed

lemma hdu_open_Done:
  assumes hdu: "header_block hdu = Some h" "sync_ptr h = Some key" "header hdu = None"
    and b: "header_bytes (h, rings k key) = Done (v, m) (h', r')"
    and v: "header_size hdu < v" "unat v \<le> length m"
  shows "dada_hdu_open (hdu, k) =
    Done () (hdu\<lparr>header_block := Some h', header := Some (take (unat v) m), header_size := v\<rparr>,
             k\<lparr>rings := (rings k)(key := r')\<rparr>)"
  using hdu v by (simp add: dada_hdu_open_def on_header_def with_ring_def b copy_header_def)

lemma unat_of_int_u64: "0 \<le> v \<Longrightarrow> v < 2 ^ 64 \<Longrightarrow> unat (of_int v :: u64) = nat v"
  by (metis of_nat_nat unat_of_nat_u64 nat_less_numeral_power_cancel_iff)

text \<open>The next block of a reader in a reachable state, and what the call that takes it returns.\<close>

lemma next_block:
  assumes R: "reachable key nb bz n es s" and i: "i < n" "\<not> holds s i" "state (rd s i) \<noteq> IPCBUF_RSTOP"
    and more: "length (cleared_marks i es) < length (sent es)"
  defines "d \<equiv> sent es ! length (cleared_marks i es)"
  obtains p s' rest where
    "ipcbuf_get_next_read (rd s i, rg s) = Done p (rd s' i, rg s')"
    "ring_exec (Take i) s = Some (Took i d, s')" "bufsz (rg s') = bz"
    "rp_offset p = 0" "unat (rp_bytes p) = length d" "mem (rg s') (rp_block p) = d @ rest"
proof -
  obtain a where a: "ring_rel s a" "stream_ok es a" "nbufs (rg s) = nb" "bufsz (rg s) = bz"
    "n_readers (rg s) = n"
    using R by (rule reachableD)
  note S = stream_okD(3,4) [OF a(2)]
  have ir: "i < n_readers (rg s)" using i a by simp
  have g: "got a i < length (posted a)" using more S by simp
  have "map fst (posted a) = sent es" using a(2) by (simp add: stream_ok_def)
  then have d: "d = fst (posted a ! got a i)"
    using nth_map [OF g, of fst] by (simp add: d_def S(1) [symmetric])
  from take_progress [OF a(1) ir i(2) g i(3)] obtain e s' where ex: "ring_exec (Take i) s = Some (e, s')"
    by blast
  then obtain p h r where f: "ipcbuf_get_next_read (rd s i, rg s) = Done p (h, r)"
    and e: "e = Took i (read_bytes p r)"
    and s': "s' = s\<lparr>rd := (rd s)(i := h), rg := r, holds := (holds s)(i := True)\<rparr>"
    by (auto split: if_splits option.splits)
  note T = take_ptr [OF a(1) ir i(2) f]
  have m: "take (length d) (mem r (rp_block p)) = d"
    using block_data(3) [OF a(1) ir g] T by (simp add: d)
  then obtain rest where rest: "mem r (rp_block p) = d @ rest" by (metis append_take_drop_id)
  have "read_bytes p r = d" using T(2,3) m by (simp add: read_bytes_def d)
  then show thesis
    using that [of p s' rest] ex e f T rest a by (simp add: s' d)
qed

section \<open>The properties\<close>


definition demo_block :: "u8 list" where
  "demo_block = map of_char (''HDR_SIZE 16'' @ [NL]) @ [0, 0, 0, 0]"

definition header_events :: "ring_event list" where
  "header_events = [Opened 0, Internal, Posted demo_block False]"

lemma header_run:
  "map_option (\<lambda>(es, s). (es, \<not> holds s 0 \<and> state (rd s 0) = IPCBUF_READER \<and> sync_ptr (rd s 0) = Some 56027))
    (exec_ring 56027 2 16 1 [Open, Store 0 demo_block, Fill 16]) = Some (header_events, True)"
  by code_simp




text \<open>C33: two rings created at a key and at the next are the unit of that key: a program that sets
  the key and connects gets handles to the sub-blocks of both, whatever else the kernel holds.\<close>

theorem unit_connects:
  assumes "ipcbuf_create key nb bz n (h, k) = Done u (h1, k1)" and "bz \<noteq> 0"
    and "ipcbuf_create (key + 1) nb' bz' n' (h', k1) = Done u' (h2, k2)" and "bz' \<noteq> 0"
    and "data_block hdu = None"
  shows "\<exists>hdu' db hb. dada_hdu_connect (dada_hdu_set_key key hdu, k2) = Done () (hdu', k2) \<and>
    data_block hdu' = Some db \<and> header_block hdu' = Some hb \<and>
    sync_ptr db = Some key \<and> sync_ptr hb = Some (key + 1) \<and>
    buffer db = buffer h1 \<and> buffer hb = buffer h2 \<and>
    state db = IPCBUF_VIEWER \<and> state hb = IPCBUF_VIEWER"
proof -
  have "h1 = created_handle key nb n h" "h2 = created_handle (key + 1) nb' n' h'"
    using create_DoneD(5) [OF assms(1,2)] create_DoneD(5) [OF assms(3,4)] by auto
  then show ?thesis
    using connect_both(1) [OF assms(1-4), of IPCIO_INIT] connect_both(2) [OF assms(1-4), of IPCBUF_INIT] assms(5)
    by (simp add: dada_hdu_connect_def dada_hdu_set_key_def on_header_def on_data_def ipcio_connect_def
        ipcio_init_def connected_handle_def created_handle_def)
qed

theorem unit_connects_witness:
  "\<exists>k hdu'. dada_hdu_connect (dada_hdu_set_key 56026 dada_hdu_create, k) = Done () (hdu', k)"
proof -
  have "all_free (key # sub_block_keys key 2) (segs no_kernel)"
    "all_free (ring_key key 1 # reader_keys key 1) (semsets no_kernel)" for key
    using no_kernel_free [of 2 1 key] by simp_all
  moreover have sz: "sync_size 2 \<noteq> 0" by (simp add: sync_size_def)
  moreover have ne: "unat (56027 :: key_t) mod 65536 \<noteq> unat (56026 :: key_t) mod 65536" by simp
  ultimately have "ipcbuf_create 56026 2 1 1 (IPCBUF_INIT, no_kernel) =
      Done () (created_handle 56026 2 1 IPCBUF_INIT, created 56026 2 1 1 no_kernel)"
    "ipcbuf_create (56026 + 1) 2 1 1 (IPCBUF_INIT, created 56026 2 1 1 no_kernel) =
      Done () (created_handle 56027 2 1 IPCBUF_INIT, created 56027 2 1 1 (created 56026 2 1 1 no_kernel))"
    using create_Done [of 1 1 2 56026 IPCBUF_INIT no_kernel]
      create_Done [of 1 1 2 56027 IPCBUF_INIT "created 56026 2 1 1 no_kernel"]
      created_free [OF ne] by auto
  from unit_connects [OF this(1) _ this(2), of dada_hdu_create] show ?thesis
    by (auto simp: dada_hdu_create_def dada_hdu_set_key_def)
qed

section \<open>Two flaws\<close>

text \<open>
  \<open>dada_hdu_unlock_read\<close> frees the copy of the header but keeps its size; the next
  \<open>dada_hdu_open\<close> allocates only for a header that is larger, and otherwise copies to NULL.
\<close>

lemma on_block_keeps:
  "on_data f s = Done a s' \<Longrightarrow> header (fst s') = header (fst s) \<and> header_size (fst s') = header_size (fst s)"
  "on_header g s = Done b s' \<Longrightarrow> header (fst s') = header (fst s) \<and> header_size (fst s') = header_size (fst s)"
  by (auto simp: on_data_def on_header_def map_outcome_Done split: option.splits prod.splits)

lemma unlock_read_keeps_size:
  "dada_hdu_unlock_read (hdu, k) = Done u (hdu', k') \<Longrightarrow> header hdu' = None \<and> header_size hdu' = header_size hdu"
proof -
  have close: "close_if_open (hdu, k) = Done v s \<Longrightarrow> header_size (fst s) = header_size hdu" for v s
    by (auto simp: close_if_open_def split: option.splits if_splits dest!: on_block_keeps)
  show "dada_hdu_unlock_read (hdu, k) = Done u (hdu', k') \<Longrightarrow>
      header hdu' = None \<and> header_size hdu' = header_size hdu"
    by (auto simp: dada_hdu_unlock_read_def outcome_simps split: if_splits
        dest!: on_block_keeps close)
qed

lemma reopen_same_size:
  assumes "on_header (with_ring header_bytes) (hdu, k) = Done (v, m) (hdu', k')"
    and "header hdu = None" "v \<le> header_size hdu"
  shows "dada_hdu_open (hdu, k) = Crash"
proof -
  have "header hdu' = None" "header_size hdu' = header_size hdu"
    using assms(1,2) by (auto simp: on_header_def map_outcome_Done split: option.splits)
  then show ?thesis using assms by (simp add: dada_hdu_open_def copy_header_def leD)
qed

text \<open>\<open>dada_hdu_lock_write_spec\<close> keeps the lock of the header block when it fails on the data block.\<close>

lemma failed_lock_kept:
  assumes "data_block hdu = Some db" "header_block hdu = Some hb" "sync_ptr hb = Some key"
    "sync_ptr db = Some key'" "state hb = IPCBUF_VIEWER" "1 \<le> sem_connect (rings k key) IPCBUF_WRITE"
  shows "\<exists>hdu' k'. dada_hdu_lock_write_spec (CHR ''x'') (hdu, k) = Err (-1) (hdu', k') \<and>
    sem_connect (rings k' key) IPCBUF_WRITE = sem_connect (rings k key) IPCBUF_WRITE - 1"
proof -
  obtain hb' r' where l: "ipcbuf_lock_write (hb, rings k key) = Done () (hb', r')"
    "sem_connect r' IPCBUF_WRITE = sem_connect (rings k key) IPCBUF_WRITE - 1"
    using assms(5,6) by (auto simp: lock_write_Done Let_def)
  then show ?thesis
    using assms(1-4) by (simp add: dada_hdu_lock_write_spec_def connected_unit_def on_header_def on_data_def
        with_ring_def ipcio_open_def)
qed

end
