(* ===== verification/Pwc_Main_Steps.thy ===== *)
theory Pwc_Main_Steps
  imports Dada_Pwc Ipcio C_Memory
begin

text \<open>
  The primary write client, src/dada_pwc_main.c, but for the loops that transfer data: the states it
  passes through between two recordings, how it starts and stops, and how it moves on to another
  transfer within an observation. The client's instrument is behind its callback functions.

  The client shares three things with others: the control connection with the thread that serves the
  control port, the data block and the header block with the processes that read. What they do is the
  argument \<open>others\<close>, a function on these three and on whatever else they know (\<open>world\<close>); it acts
  before each call of the client that looks at or changes something shared. The log and the flag \<open>verbose\<close>,
  which only says how much is logged, are left out.
\<close>

section \<open>The client and its callbacks\<close>

abbreviation (input) DADA_ERROR_SOFT :: int where "DADA_ERROR_SOFT \<equiv> -1"
abbreviation (input) DADA_ERROR_HARD :: int where "DADA_ERROR_HARD \<equiv> -2"
abbreviation (input) DADA_ERROR_FATAL :: int where "DADA_ERROR_FATAL \<equiv> -3"

abbreviation (input) DADA_XFER_NORMAL :: int where "DADA_XFER_NORMAL \<equiv> 0"
abbreviation (input) DADA_XFER_ENDING :: int where "DADA_XFER_ENDING \<equiv> 1"
abbreviation (input) DADA_OBS_ENDING :: int where "DADA_OBS_ENDING \<equiv> 2"

text \<open>
  \<open>pwcm_header\<close> is a sub-block of the header block, \<open>None\<close> a NULL pointer. The last three fields are
  the two rings and the world, which the C structure does not hold.
\<close>

record ('c, 'w) dada_pwc_main_t =
  pwcm_pwc :: dada_pwc
  pwcm_data_block :: "ipcio option"
  pwcm_header_block :: "ipcbuf option"
  pwcm_context :: 'c
  pwcm_command :: dada_pwc_command
  pwcm_header :: "nat option"
  pwcm_header_size :: u32
  pwcm_header_valid :: int
  data_ring :: ring
  header_ring :: ring
  world :: 'w

text \<open>
  The callbacks, \<open>None\<close> a NULL pointer; each may change the client, and gives a result. The buffer function
  returns what is stored at the address it returns (\<open>None\<close> for NULL) and a size, the block function is
  given an address in the data block or NULL. \<open>utc_string\<close> is \<open>strftime\<close> with \<open>DADA_TIMESTR\<close> of \<open>gmtime\<close>.
\<close>

type_synonym ('a, 'c, 'w) callback = "('c, 'w) dada_pwc_main_t \<Rightarrow> 'a \<times> ('c, 'w) dada_pwc_main_t"

record ('c, 'w) client =
  start_function :: "(int \<Rightarrow> (int, 'c, 'w) callback) option"
  buffer_function :: "(u8 list option \<times> int, 'c, 'w) callback option"
  block_function :: "(address option \<Rightarrow> u64 \<Rightarrow> u64 \<Rightarrow> (int, 'c, 'w) callback) option"
  stop_function :: "(int, 'c, 'w) callback option"
  error_function :: "(int, 'c, 'w) callback option"
  header_valid_function :: "(int, 'c, 'w) callback option"
  xfer_pending_function :: "(int, 'c, 'w) callback option"
  new_xfer_function :: "(u64, 'c, 'w) callback option"
  utc_string :: "int \<Rightarrow> string"
  others :: "'w \<times> ring \<times> ring \<times> dada_pwc \<Rightarrow> 'w \<times> ring \<times> ring \<times> dada_pwc"

definition dada_pwc_main_create :: "('c, 'w) dada_pwc_main_t \<Rightarrow> ('c, 'w) dada_pwc_main_t" where
  "dada_pwc_main_create junk = junk\<lparr>pwcm_data_block := None, pwcm_header_block := None,
     pwcm_header := None, pwcm_header_size := 0, pwcm_header_valid := 0\<rparr>"

section \<open>Calls on what is shared\<close>

definition meanwhile :: "('c, 'w) client \<Rightarrow> ('c, 'w) dada_pwc_main_t \<Rightarrow> ('c, 'w) dada_pwc_main_t" where
  "meanwhile C st =
    (let (w, dr, hr, p) = others C (world st, data_ring st, header_ring st, pwcm_pwc st)
     in st\<lparr>world := w, data_ring := dr, header_ring := hr, pwcm_pwc := p\<rparr>)"

definition control_call :: "('c, 'w) client \<Rightarrow> (dada_pwc \<Rightarrow> ('a, dada_pwc) outcome) \<Rightarrow>
    ('c, 'w) dada_pwc_main_t \<Rightarrow> ('a, ('c, 'w) dada_pwc_main_t) outcome" where
  "control_call C f st =
    (let st = meanwhile C st in map_outcome id (\<lambda>p. st\<lparr>pwcm_pwc := p\<rparr>) (f (pwcm_pwc st)))"

definition data_call :: "('c, 'w) client \<Rightarrow> (ipcio \<times> ring \<Rightarrow> ('a, ipcio \<times> ring) outcome) \<Rightarrow>
    ('c, 'w) dada_pwc_main_t \<Rightarrow> ('a, ('c, 'w) dada_pwc_main_t) outcome" where
  "data_call C f st =
    (let st = meanwhile C st
     in case pwcm_data_block st of
          None \<Rightarrow> Crash
        | Some h \<Rightarrow> map_outcome id (\<lambda>(h, r). st\<lparr>pwcm_data_block := Some h, data_ring := r\<rparr>)
            (f (h, data_ring st)))"

definition header_call :: "('c, 'w) client \<Rightarrow> (ipcbuf \<times> ring \<Rightarrow> ('a, ipcbuf \<times> ring) outcome) \<Rightarrow>
    ('c, 'w) dada_pwc_main_t \<Rightarrow> ('a, ('c, 'w) dada_pwc_main_t) outcome" where
  "header_call C f st =
    (let st = meanwhile C st
     in case pwcm_header_block st of
          None \<Rightarrow> Crash
        | Some h \<Rightarrow> map_outcome id (\<lambda>(h, r). st\<lparr>pwcm_header_block := Some h, header_ring := r\<rparr>)
            (f (h, header_ring st)))"

text \<open>Calling through a function pointer.\<close>

definition call :: "('a, 'c, 'w) callback option \<Rightarrow> ('c, 'w) dada_pwc_main_t \<Rightarrow>
    ('a, ('c, 'w) dada_pwc_main_t) outcome" where
  "call f st = (case f of None \<Rightarrow> Crash | Some g \<Rightarrow> (let (a, st) = g st in Done a st))"

text \<open>The control connection: whether to quit, and entering a state.\<close>

definition quit_asked :: "('c, 'w) client \<Rightarrow> ('c, 'w) dada_pwc_main_t \<Rightarrow>
    (bool, ('c, 'w) dada_pwc_main_t) outcome" where
  "quit_asked C = control_call C (\<lambda>p. Done (pwc_quit p) p)"

definition set_state :: "('c, 'w) client \<Rightarrow> dada_pwc_state \<Rightarrow> int \<Rightarrow> ('c, 'w) dada_pwc_main_t \<Rightarrow>
    (unit, ('c, 'w) dada_pwc_main_t) outcome" where
  "set_state C new t = control_call C (dada_pwc_set_state new t)"

section \<open>The header\<close>

text \<open>The memory at the client's header, and editing it in place.\<close>

definition header_memory :: "('c, 'w) dada_pwc_main_t \<Rightarrow> u8 list option" where
  "header_memory st = map_option (mem (header_ring st)) (pwcm_header st)"

definition put_header :: "u8 list option \<Rightarrow> ('c, 'w) dada_pwc_main_t \<Rightarrow> (unit, ('c, 'w) dada_pwc_main_t) outcome" where
  "put_header m st = (case (pwcm_header st, m) of
     (Some b, Some m) \<Rightarrow>
       Done () (st\<lparr>header_ring := (header_ring st)\<lparr>mem := (mem (header_ring st))(b := m)\<rparr>\<rparr>)
   | _ \<Rightarrow> Crash)"

definition header_text :: "('c, 'w) dada_pwc_main_t \<Rightarrow> string option" where
  "header_text st = Option.bind (header_memory st) c_string"

definition header_set :: "string \<Rightarrow> string \<Rightarrow> ('c, 'w) dada_pwc_main_t \<Rightarrow>
    (unit, ('c, 'w) dada_pwc_main_t) outcome" where
  "header_set keyword value st =
    (case (header_memory st, header_text st) of
       (Some m, Some t) \<Rightarrow> put_header (store_string (ascii_header_set t keyword value) m) st
     | _ \<Rightarrow> Crash)"

definition mark_header :: "('c, 'w) client \<Rightarrow> ('c, 'w) dada_pwc_main_t \<Rightarrow> (unit, ('c, 'w) dada_pwc_main_t) outcome" where
  "mark_header C st =
     fail_as DADA_ERROR_HARD (header_call C (ipcbuf_mark_filled (ucast (pwcm_header_size st))) st)"

text \<open>Whether the header is valid: what the callback says, or true without one.\<close>

definition check_header :: "('c, 'w) client \<Rightarrow> ('c, 'w) dada_pwc_main_t \<Rightarrow> (unit, ('c, 'w) dada_pwc_main_t) outcome" where
  "check_header C st =
     andthen (if header_valid_function C \<noteq> None then call (header_valid_function C) st else Done 1 st)
       (\<lambda>v st. Done () (st\<lparr>pwcm_header_valid := v\<rparr>))"

text \<open>A header that is found valid is marked filled.\<close>

definition mark_if_valid :: "('c, 'w) client \<Rightarrow> ('c, 'w) dada_pwc_main_t \<Rightarrow> (unit, ('c, 'w) dada_pwc_main_t) outcome" where
  "mark_if_valid C st =
     andthen (check_header C st) (\<lambda>_ st. if pwcm_header_valid st \<noteq> 0 then mark_header C st else Done () st)"

section \<open>Idle and prepared\<close>

fun next_header_block :: "('c, 'w) client \<Rightarrow> ('c, 'w) dada_pwc_main_t \<Rightarrow> (unit, ('c, 'w) dada_pwc_main_t) outcome" where
  "next_header_block C st =
    (case header_call C ipcbuf_get_next_write st of
       Done b st \<Rightarrow> Done () (st\<lparr>pwcm_header := Some b\<rparr>)
     | Err c st \<Rightarrow> Err DADA_ERROR_HARD (st\<lparr>pwcm_header := None\<rparr>)
     | Wait st \<Rightarrow> Wait st
     | Crash \<Rightarrow> Crash)"

definition prepare_blocks :: "('c, 'w) client \<Rightarrow> ('c, 'w) dada_pwc_main_t \<Rightarrow> (unit, ('c, 'w) dada_pwc_main_t) outcome" where
  "prepare_blocks C st =
     andthen
       (if pwcm_header_block st \<noteq> None then
          andthen (header_call C (\<lambda>s. Done (ipcbuf_get_bufsz s) s) st) (\<lambda>n st.
            next_header_block C (st\<lparr>pwcm_header_size := ucast n\<rparr>))
        else Done () st) (\<lambda>_ st.
     case pwcm_data_block st of
       None \<Rightarrow> Done () st
     | Some h \<Rightarrow>
         if ipcio_is_open h then fail_as DADA_ERROR_HARD (data_call C ipcio_close st) else Done () st)"

definition copy_command_header :: "('c, 'w) dada_pwc_main_t \<Rightarrow> (unit, ('c, 'w) dada_pwc_main_t) outcome" where
  "copy_command_header st =
    (if pwcm_header_block st = None then Done () st
     else case (cmd_header (pwcm_command st), header_memory st) of
       (Some t, Some m) \<Rightarrow> put_header (store_strncpy (unat (pwcm_header_size st)) t m) st
     | _ \<Rightarrow> Crash)"

definition open_data :: "('c, 'w) client \<Rightarrow> char \<Rightarrow> ('c, 'w) dada_pwc_main_t \<Rightarrow> (unit, ('c, 'w) dada_pwc_main_t) outcome" where
  "open_data C mode st =
    (if pwcm_data_block st = None then Done () st
     else fail_as DADA_ERROR_HARD (data_call C (ipcio_open mode) st))"

text \<open>A command carried out while idle or prepared; \<open>True\<close>: the loop is left to start a transfer.\<close>

definition prepare_command :: "('c, 'w) client \<Rightarrow> ('c, 'w) dada_pwc_main_t \<Rightarrow> (bool, ('c, 'w) dada_pwc_main_t) outcome" where
  "prepare_command C st =
    (case code (pwcm_command st) of
       dada_pwc_reset \<Rightarrow> andthen (ignore (set_state C dada_pwc_idle 0 st)) (\<lambda>_. Done False)
     | dada_pwc_header \<Rightarrow>
         andthen (copy_command_header st) (\<lambda>_ st.
         andthen (ignore (set_state C dada_pwc_prepared 0 st)) (\<lambda>_. Done False))
     | dada_pwc_clock \<Rightarrow>
         if byte_count (pwcm_command st) \<noteq> 0 then Err DADA_ERROR_SOFT st
         else andthen (open_data C (CHR ''w'') st) (\<lambda>_. Done True)
     | dada_pwc_start \<Rightarrow> andthen (open_data C (CHR ''W'') st) (\<lambda>_. Done True)
     | dada_pwc_stop \<Rightarrow> andthen (ignore (set_state C dada_pwc_idle 0 st)) (\<lambda>_. Done False)
     | _ \<Rightarrow> Err DADA_ERROR_HARD st)"

text \<open>
  The loops of the client wait for commands and data for as long as they come. They are given a number
  of turns; \<open>Wait\<close> also means that more turns are needed.
\<close>

fun prepare_loop :: "('c, 'w) client \<Rightarrow> nat \<Rightarrow> ('c, 'w) dada_pwc_main_t \<Rightarrow> (unit, ('c, 'w) dada_pwc_main_t) outcome" where
  "prepare_loop C 0 st = Wait st"
| "prepare_loop C (Suc n) st =
     andthen (quit_asked C st) (\<lambda>quit st.
     if quit then Done () st
     else andthen (control_call C dada_pwc_command_get st) (\<lambda>c st.
       let st = st\<lparr>pwcm_command := c\<rparr>
       in andthen (quit_asked C st) (\<lambda>quit st.
          if quit then Done () st
          else andthen (prepare_command C st) (\<lambda>leave st.
            if leave then Done () st else prepare_loop C n st))))"

definition dada_pwc_main_prepare :: "('c, 'w) client \<Rightarrow> nat \<Rightarrow> ('c, 'w) dada_pwc_main_t \<Rightarrow>
    (unit, ('c, 'w) dada_pwc_main_t) outcome" where
  "dada_pwc_main_prepare C n st = andthen (prepare_blocks C st) (\<lambda>_. prepare_loop C n)"

section \<open>Starting a transfer\<close>

definition start_header :: "('c, 'w) client \<Rightarrow> int \<Rightarrow> ('c, 'w) dada_pwc_main_t \<Rightarrow> (unit, ('c, 'w) dada_pwc_main_t) outcome" where
  "start_header C t st =
    (if pwcm_header_block st = None then Done () st
     else
       andthen (header_set ''UTC_START'' (if t = 0 then ''UNKNOWN'' else utc_string C t) st) (\<lambda>_ st.
       let st = (if t > 0 then st\<lparr>pwcm_pwc := (pwcm_pwc st)\<lparr>utc_start := t\<rparr>\<rparr> else st)
       in if code (pwcm_command st) = dada_pwc_start then mark_if_valid C st else Done () st))"

definition dada_pwc_main_start_transfer :: "('c, 'w) client \<Rightarrow> ('c, 'w) dada_pwc_main_t \<Rightarrow>
    (unit, ('c, 'w) dada_pwc_main_t) outcome" where
  "dada_pwc_main_start_transfer C st =
     andthen (call (map_option (\<lambda>f. f (utc (pwcm_command st))) (start_function C)) st) (\<lambda>t st.
     if t < 0 then Err DADA_ERROR_HARD st
     else
       andthen (start_header C t st) (\<lambda>_ st.
       andthen (data_call C ipcbuf_set_soclock_buf st) (\<lambda>_ st.
       if code (pwcm_command st) = dada_pwc_clock then set_state C dada_pwc_clocking t st
       else if code (pwcm_command st) = dada_pwc_start then set_state C dada_pwc_recording t st
       else Err DADA_ERROR_HARD st)))"

section \<open>From clocking to recording\<close>

text \<open>The byte at which the recording starts; too early a byte is put off, and so is the command's.\<close>

definition record_start_byte :: "('c, 'w) client \<Rightarrow> ('c, 'w) dada_pwc_main_t \<Rightarrow>
    (u64, ('c, 'w) dada_pwc_main_t) outcome" where
  "record_start_byte C st =
     andthen (data_call C (\<lambda>s. Done (ipcio_get_start_minimum s) s) st) (\<lambda>least st.
     andthen (data_call C (\<lambda>s. Done (ipcio_get_soclock_byte s) s) st) (\<lambda>first st.
       let start = first + byte_count (pwcm_command st)
       in if start < least
          then Done least (st\<lparr>pwcm_command := (pwcm_command st)\<lparr>byte_count := least - first\<rparr>\<rparr>)
          else Done start st))"

text \<open>The next header block; the header is copied to it if it is another one.\<close>

definition move_header :: "('c, 'w) client \<Rightarrow> ('c, 'w) dada_pwc_main_t \<Rightarrow> (unit, ('c, 'w) dada_pwc_main_t) outcome" where
  "move_header C st =
    (case header_call C ipcbuf_get_next_write st of
       Done b st \<Rightarrow>
         if pwcm_header st = Some b then Done () st
         else (case header_memory st of
           None \<Rightarrow> Crash
         | Some m \<Rightarrow>
             let n = unat (pwcm_header_size st); m' = mem (header_ring st) b
             in if n > length m \<or> n > length m' then Crash
                else put_header (Some (take n m @ drop n m')) (st\<lparr>pwcm_header := Some b\<rparr>))
     | Err c st \<Rightarrow> Crash
     | Wait st \<Rightarrow> Wait st
     | Crash \<Rightarrow> Crash)"

definition dada_pwc_main_record_start :: "('c, 'w) client \<Rightarrow> ('c, 'w) dada_pwc_main_t \<Rightarrow>
    (unit, ('c, 'w) dada_pwc_main_t) outcome" where
  "dada_pwc_main_record_start C st =
     andthen (record_start_byte C st) (\<lambda>start st.
     andthen (move_header C st) (\<lambda>_ st.
     andthen (header_set ''UTC_START'' (utc_string C (utc (pwcm_command st))) st) (\<lambda>_ st.
     andthen (header_set ''OBS_OFFSET'' (decimal 0) st) (\<lambda>_ st.
     andthen (fail_as DADA_ERROR_HARD (data_call C (ipcio_start start) st)) (\<lambda>_ st.
     if pwcm_header_valid st \<noteq> 0 then Done () st
     else andthen (check_header C st) (\<lambda>_ st.
       if pwcm_header_valid st \<noteq> 0 then mark_header C st else Err DADA_ERROR_HARD st))))))"

section \<open>Stopping, and errors\<close>

definition dada_pwc_main_stop_transfer :: "('c, 'w) client \<Rightarrow> ('c, 'w) dada_pwc_main_t \<Rightarrow>
    (unit, ('c, 'w) dada_pwc_main_t) outcome" where
  "dada_pwc_main_stop_transfer C st =
     andthen (call (stop_function C) (st\<lparr>pwcm_header_valid := 0\<rparr>)) (\<lambda>res st.
     if res < 0 then Err DADA_ERROR_HARD st
     else
       andthen
         (if pwcm_data_block st = None then Done () st
          else fail_as DADA_ERROR_FATAL (data_call C ipcio_close st)) (\<lambda>_ st.
       if pwc_state (pwcm_pwc st) \<notin> error_states then ignore (set_state C dada_pwc_idle 0 st)
       else Done () st))"

definition error_state_for :: "int \<Rightarrow> dada_pwc_state \<Rightarrow> dada_pwc_state" where
  "error_state_for rval old =
    (if rval = DADA_ERROR_SOFT then
       (if old \<noteq> dada_pwc_hard_error \<and> old \<noteq> dada_pwc_fatal_error then dada_pwc_soft_error else old)
     else if rval = DADA_ERROR_HARD then
       (if old \<noteq> dada_pwc_fatal_error then dada_pwc_hard_error else old)
     else dada_pwc_fatal_error)"

definition dada_pwc_main_process_error :: "('c, 'w) client \<Rightarrow> int \<Rightarrow> ('c, 'w) dada_pwc_main_t \<Rightarrow>
    (unit, ('c, 'w) dada_pwc_main_t) outcome" where
  "dada_pwc_main_process_error C rval st =
     ignore (set_state C (error_state_for rval (pwc_state (pwcm_pwc st))) 0 st)"

section \<open>Another transfer of the observation\<close>

text \<open>
  \<open>dada_pwc_main_process_xfer\<close> returns a number in every case; an error is that number. The
  header is saved, both blocks are closed and opened again, and the header goes to the next header block.
\<close>

definition reopen_blocks :: "('c, 'w) client \<Rightarrow> ('c, 'w) dada_pwc_main_t \<Rightarrow> (unit, ('c, 'w) dada_pwc_main_t) outcome" where
  "reopen_blocks C st =
     andthen (data_call C ipcio_close st) (\<lambda>_ st.
     andthen (header_call C ipcbuf_unlock_write st) (\<lambda>_ st.
     andthen (header_call C ipcbuf_lock_write st) (\<lambda>_ st.
     data_call C (ipcio_open (CHR ''W'')) st)))"

definition restore_header :: "('c, 'w) client \<Rightarrow> u8 list \<Rightarrow> ('c, 'w) dada_pwc_main_t \<Rightarrow>
    (unit, ('c, 'w) dada_pwc_main_t) outcome" where
  "restore_header C last_header st =
    (case header_call C ipcbuf_get_next_write st of
       Done b st \<Rightarrow>
         (let m = mem (header_ring st) b; n = length last_header
          in if n > length m then Crash
             else put_header (Some (last_header @ drop n m)) (st\<lparr>pwcm_header := Some b\<rparr>))
     | Err c st \<Rightarrow> Crash
     | Wait st \<Rightarrow> Wait st
     | Crash \<Rightarrow> Crash)"

definition next_xfer :: "('c, 'w) client \<Rightarrow> ('c, 'w) dada_pwc_main_t \<Rightarrow> (int, ('c, 'w) dada_pwc_main_t) outcome" where
  "next_xfer C st =
     andthen (call (new_xfer_function C) st) (\<lambda>first st.
     andthen (header_call C (ipcbuf_mark_filled (ucast (pwcm_header_size st))) st) (\<lambda>_ st.
     andthen (call (xfer_pending_function C) st) (\<lambda>xfer_status st.
     andthen
       (if xfer_status = DADA_OBS_ENDING then data_call C (ipcio_write [of_char (CHR ''0'')]) st
        else Done 1 st) (\<lambda>k. if k \<noteq> 1 then Err (-2) else Done (sint first)))))"

definition end_xfer :: "('c, 'w) client \<Rightarrow> ('c, 'w) dada_pwc_main_t \<Rightarrow> (int, ('c, 'w) dada_pwc_main_t) outcome" where
  "end_xfer C st =
    (case header_memory st of
       None \<Rightarrow> Crash
     | Some m \<Rightarrow>
         let n = unat (pwcm_header_size st)
         in if n > length m then Crash
            else
              andthen (reopen_blocks C st) (\<lambda>_ st.
              andthen (restore_header C (take n m) st) (\<lambda>_ st.
              next_xfer C st)))"

definition dada_pwc_main_process_xfer :: "('c, 'w) client \<Rightarrow> u64 \<Rightarrow> ('c, 'w) dada_pwc_main_t \<Rightarrow>
    (int, ('c, 'w) dada_pwc_main_t) outcome" where
  "dada_pwc_main_process_xfer C buf_bytes st =
     andthen (call (xfer_pending_function C) st) (\<lambda>xfer_status st.
     if xfer_status = DADA_XFER_NORMAL then
       value_of DADA_ERROR_FATAL
         (andthen (data_call C (ipcio_close_block_write buf_bytes) st) (\<lambda>_. Done 0))
     else if xfer_status = DADA_OBS_ENDING then Done 0 st
     else
       value_of DADA_ERROR_FATAL
         (andthen (data_call C (ipcio_update_block_write buf_bytes) st) (\<lambda>_ st.
          value_of (-2) (end_xfer C st))))"

end
