(* ===== verification/Pwc_Transfer.thy ===== *)
theory Pwc_Transfer
  imports Pwc_Main_Steps
begin

text \<open>
  The two loops of src/dada_pwc_main.c that transfer data while the client is clocking or recording, and
  its main loop. One loop copies what the buffer function returns to the data block; the
  other has the block function fill the blocks of the ring.
\<close>

section \<open>Commands during a transfer\<close>

text \<open>
  The local variables the two loops share: the bytes written, the byte at which the state changes (0 for
  none), the bytes to write up to there, whether the time of the first sample is known, and the size of the last
  piece written.
\<close>

record transfer_vars =
  total_bytes_written :: u64
  transit_byte :: u64
  bytes_to_write :: u64
  utc_start_set :: bool
  buf_bytes :: u64

definition set_utc_start :: "('c, 'w) client \<Rightarrow> 'v transfer_vars_scheme \<Rightarrow> ('c, 'w) dada_pwc_main_t \<Rightarrow>
    ('v transfer_vars_scheme, ('c, 'w) dada_pwc_main_t) outcome" where
  "set_utc_start C v st =
    (if utc (pwcm_command st) \<le> 0 then Crash
     else if utc_start_set v then Done v st
     else
       andthen (header_set ''UTC_START'' (utc_string C (utc (pwcm_command st))) st) (\<lambda>_ st.
       andthen (if pwc_state (pwcm_pwc st) = dada_pwc_recording then mark_if_valid C st else Done () st)
         (\<lambda>_. Done (v\<lparr>utc_start_set := True\<rparr>))))"

text \<open>
  A command with a byte still to come is carried out there, any other at once. The copying
  loop (\<open>at_least_one\<close>) takes a count of no bytes for one, since a byte 0 would mean no change of state.
\<close>

definition schedule :: "bool \<Rightarrow> u64 \<Rightarrow> 'v transfer_vars_scheme \<Rightarrow> 'v transfer_vars_scheme" where
  "schedule at_least_one n v =
    (if n > total_bytes_written v
     then v\<lparr>transit_byte := n, bytes_to_write := n - total_bytes_written v\<rparr>
     else
       let v = (if at_least_one \<and> total_bytes_written v = 0 then v\<lparr>total_bytes_written := 1\<rparr> else v)
       in v\<lparr>transit_byte := total_bytes_written v, bytes_to_write := 0\<rparr>)"

definition take_command :: "('c, 'w) client \<Rightarrow> bool \<Rightarrow> 'v transfer_vars_scheme \<Rightarrow> ('c, 'w) dada_pwc_main_t \<Rightarrow>
    ('v transfer_vars_scheme, ('c, 'w) dada_pwc_main_t) outcome" where
  "take_command C at_least_one v st =
     andthen (control_call C (\<lambda>p. Done (dada_pwc_command_check p) p) st) (\<lambda>pending st.
     if \<not> pending then Done v st
     else andthen (control_call C dada_pwc_command_get st) (\<lambda>c st.
       let st = st\<lparr>pwcm_command := c\<rparr>
       in if code c = dada_pwc_set_utc_start then set_utc_start C v st
          else if code c \<in> {dada_pwc_record_stop, dada_pwc_record_start, dada_pwc_stop}
          then Done (schedule at_least_one (byte_count c) v) st
          else Err DADA_ERROR_HARD st))"

text \<open>The values of the variables at the start of a transfer.\<close>

definition transfer_start :: "('c, 'w) client \<Rightarrow> ('c, 'w) dada_pwc_main_t \<Rightarrow>
    (transfer_vars, ('c, 'w) dada_pwc_main_t) outcome" where
  "transfer_start C st =
     (let n = byte_count (pwcm_command st)
      in andthen (if new_xfer_function C = None then Done 0 st else call (new_xfer_function C) st) (\<lambda>first st.
      case header_text st of
        None \<Rightarrow> Crash
      | Some t \<Rightarrow>
          (case ascii_header_get t ''UTC_START'' scanf_s of
             (k, Some u) \<Rightarrow>
               Done \<lparr>total_bytes_written = first, transit_byte = n, bytes_to_write = n,
                     utc_start_set = (u \<noteq> ''UNKNOWN''), buf_bytes = 0\<rparr> st
           | (k, None) \<Rightarrow> Err DADA_ERROR_HARD st)))"

text \<open>A header that was not valid yet may be so by now; the pointer to the callback is not tested.\<close>

definition header_now_valid :: "('c, 'w) client \<Rightarrow> ('c, 'w) dada_pwc_main_t \<Rightarrow>
    (unit, ('c, 'w) dada_pwc_main_t) outcome" where
  "header_now_valid C st =
    (if pwcm_header_valid st = 0 \<and> pwc_state (pwcm_pwc st) = dada_pwc_recording then
       andthen (call (header_valid_function C) st) (\<lambda>valid st.
         let st = st\<lparr>pwcm_header_valid := valid\<rparr>
         in if valid \<noteq> 0 then mark_header C st else Done () st)
     else Done () st)"

text \<open>
  The change of state at the transit byte; the result is whether the transfer goes on. \<open>ending\<close> is what
  the loop does with the transfer at a stop command.
\<close>

definition change_state :: "('c, 'w) client \<Rightarrow>
    (('c, 'w) dada_pwc_main_t \<Rightarrow> (unit, ('c, 'w) dada_pwc_main_t) outcome) \<Rightarrow> u64 \<Rightarrow>
    ('c, 'w) dada_pwc_main_t \<Rightarrow> (bool, ('c, 'w) dada_pwc_main_t) outcome" where
  "change_state C ending sofar st =
    (case code (pwcm_command st) of
       dada_pwc_record_stop \<Rightarrow>
         andthen
           (if pwcm_data_block st = None then Done () st
            else fail_as DADA_ERROR_FATAL (data_call C ipcio_stop st)) (\<lambda>_ st.
         andthen (ignore (set_state C dada_pwc_clocking 0 st)) (\<lambda>_. Done True))
     | dada_pwc_record_start \<Rightarrow>
         andthen (fail_as DADA_ERROR_HARD (dada_pwc_main_record_start C st)) (\<lambda>_ st.
         andthen (ignore (set_state C dada_pwc_recording 0 st)) (\<lambda>_. Done True))
     | dada_pwc_stop \<Rightarrow>
         andthen (if xfer_pending_function C = None then Done () st else ending st) (\<lambda>_. Done False)
     | dada_pwc_set_utc_start \<Rightarrow> if sofar \<noteq> 0 then Err DADA_ERROR_HARD st else Done True st
     | dada_pwc_clock \<Rightarrow> if sofar \<noteq> 0 then Err DADA_ERROR_HARD st else Done True st
     | dada_pwc_start \<Rightarrow> if sofar \<noteq> 0 then Err DADA_ERROR_HARD st else Done True st
     | _ \<Rightarrow> Err DADA_ERROR_HARD st)"

section \<open>The copying loop\<close>

text \<open>
  The buffer is a position in what the buffer function returned; \<open>buffer_size\<close> is of type \<open>int64_t\<close>.
\<close>

record copy_vars = transfer_vars +
  buffer_ptr :: "(u8 list \<times> nat) option"
  buffer_size :: int
  error_state :: u64

text \<open>\<open>ipcio_write (buffer, n)\<close>: reading behind what the buffer holds is a crash.\<close>

definition write_data :: "('c, 'w) client \<Rightarrow> (u8 list \<times> nat) option \<Rightarrow> u64 \<Rightarrow> ('c, 'w) dada_pwc_main_t \<Rightarrow>
    (nat, ('c, 'w) dada_pwc_main_t) outcome" where
  "write_data C ptr n st =
    (if n = 0 then data_call C (ipcio_write []) st
     else case ptr of
       None \<Rightarrow> Crash
     | Some (d, off) \<Rightarrow>
         if off + unat n > length d then Crash
         else data_call C (ipcio_write (take (unat n) (drop off d))) st)"

definition space_left :: "('c, 'w) client \<Rightarrow> ('c, 'w) dada_pwc_main_t \<Rightarrow> (u64, ('c, 'w) dada_pwc_main_t) outcome" where
  "space_left C = data_call C (\<lambda>s. case ipcio_space_left s of
     None \<Rightarrow> Crash | Some n \<Rightarrow> Done (of_int n) s)"

text \<open>
  The space left is compared as an unsigned number. Without a start time the client does not wait for
  space.
\<close>

definition write_piece :: "('c, 'w) client \<Rightarrow> bool \<Rightarrow> (u8 list \<times> nat) option \<Rightarrow> u64 \<Rightarrow> ('c, 'w) dada_pwc_main_t \<Rightarrow>
    (unit, ('c, 'w) dada_pwc_main_t) outcome" where
  "write_piece C utc_set ptr n st =
     andthen (if utc_set then Done n st else space_left C st) (\<lambda>space st.
     if space < n then Err DADA_ERROR_FATAL st
     else andthen (fail_as DADA_ERROR_FATAL (write_data C ptr n st)) (\<lambda>k st.
       if k < unat n then Err DADA_ERROR_FATAL st else Done () st))"

text \<open>
  The buffer function returned no bytes: there may be another transfer, or the error function says
  whether to try again. The result is false if the observation is at its end.
\<close>

definition no_bytes :: "('c, 'w) client \<Rightarrow> 'v copy_vars_scheme \<Rightarrow> ('c, 'w) dada_pwc_main_t \<Rightarrow>
    (bool \<times> 'v copy_vars_scheme, ('c, 'w) dada_pwc_main_t) outcome" where
  "no_bytes C v st =
    (if xfer_pending_function C \<noteq> None then
       andthen (dada_pwc_main_process_xfer C 0 st) (\<lambda>first st.
       if first = -2 then Err DADA_ERROR_HARD st
       else if first = -1 then Done (False, v) st
       else if first = 0 then Done (True, v) st
       else Done (True, v\<lparr>total_bytes_written := of_int first\<rparr>) st)
     else
       andthen (if error_function C \<noteq> None then call (error_function C) st else Done 2 st) (\<lambda>e st.
       let v = v\<lparr>error_state := of_int e\<rparr>
       in if error_state v = 2 then
            andthen (ignore (write_data C (buffer_ptr v) 1 st)) (\<lambda>_. Err DADA_ERROR_HARD)
          else Done (True, v) st))"

text \<open>\<open>return buffer_size\<close> converts to \<open>int\<close>.\<close>

definition int_of_size :: "int \<Rightarrow> int" where
  "int_of_size n = sint (word_of_int n :: 32 word)"

definition copy_piece :: "('c, 'w) client \<Rightarrow> 'v copy_vars_scheme \<Rightarrow> ('c, 'w) dada_pwc_main_t \<Rightarrow>
    ('v copy_vars_scheme, ('c, 'w) dada_pwc_main_t) outcome" where
  "copy_piece C v st =
    (if buffer_ptr v = None then Err DADA_ERROR_HARD st
     else
       andthen (header_now_valid C st) (\<lambda>_ st.
       let size = of_int (buffer_size v);
           n = (if transit_byte v \<noteq> 0 \<and> size > bytes_to_write v then bytes_to_write v else size)
       in andthen
            (if pwcm_data_block st = None then Done () st
             else write_piece C (utc_start_set v) (buffer_ptr v) n st) (\<lambda>_.
          Done (v\<lparr>buf_bytes := n, total_bytes_written := total_bytes_written v + n,
                  bytes_to_write := (if bytes_to_write v \<noteq> 0 then bytes_to_write v - n else 0)\<rparr>))))"

definition fetch_buffer :: "('c, 'w) client \<Rightarrow> 'v copy_vars_scheme \<Rightarrow> ('c, 'w) dada_pwc_main_t \<Rightarrow>
    (bool \<times> 'v copy_vars_scheme, ('c, 'w) dada_pwc_main_t) outcome" where
  "fetch_buffer C v st =
     andthen (call (buffer_function C) st) (\<lambda>(d, size) st.
     let v = v\<lparr>buffer_ptr := map_option (\<lambda>d. (d, 0)) d, buffer_size := size\<rparr>
     in if size < 0 then
          (if int_of_size size < 0 then Err (int_of_size size) st else Done (False, v) st)
        else
          let v = (if size \<noteq> 0 then v\<lparr>error_state := 0\<rparr> else v)
          in andthen (if size = 0 then no_bytes C v st else Done (True, v) st) (\<lambda>(go, v) st.
             if \<not> go then Done (False, v) st
             else andthen (copy_piece C v st) (\<lambda>v. Done (True, v))))"

text \<open>
  After a change of state the rest of the buffer, at the position now reached, is written; that it cannot be
  written is not noticed.
\<close>

definition write_rest :: "('c, 'w) client \<Rightarrow> 'v copy_vars_scheme \<Rightarrow> ('c, 'w) dada_pwc_main_t \<Rightarrow>
    ('v copy_vars_scheme, ('c, 'w) dada_pwc_main_t) outcome" where
  "write_rest C v st =
    (let rest = of_int (buffer_size v) - buf_bytes v;
         v = v\<lparr>transit_byte := 0, buf_bytes := rest,
               buffer_ptr := map_option (\<lambda>(d, off). (d, off + unat (buf_bytes v))) (buffer_ptr v)\<rparr>
     in if rest = 0 \<or> pwcm_data_block st = None then Done v st
        else
          andthen (space_left C st) (\<lambda>space st.
          if space < rest \<and> \<not> utc_start_set v then Err DADA_ERROR_FATAL st
          else andthen (unsigned_count (write_data C (buffer_ptr v) rest st)) (\<lambda>k st.
            if k < unat rest then Err DADA_ERROR_FATAL st
            else Done (v\<lparr>total_bytes_written := total_bytes_written v + rest\<rparr>) st)))"

text \<open>One turn; the result is false if the transfer is over.\<close>

definition transit_now :: "'v transfer_vars_scheme \<Rightarrow> bool" where
  "transit_now v \<longleftrightarrow> transit_byte v \<noteq> 0 \<and> transit_byte v \<le> total_bytes_written v"

definition copy_transit :: "('c, 'w) client \<Rightarrow> 'v copy_vars_scheme \<Rightarrow> ('c, 'w) dada_pwc_main_t \<Rightarrow>
    (bool \<times> 'v copy_vars_scheme, ('c, 'w) dada_pwc_main_t) outcome" where
  "copy_transit C v st =
    (if \<not> transit_now v then Done (True, v) st
     else
       andthen (change_state C
           (\<lambda>st. andthen (dada_pwc_main_process_xfer C 2 st) (\<lambda>_. Done ())) (total_bytes_written v) st) (\<lambda>go st.
       if \<not> go then Done (False, v) st
       else andthen (write_rest C v st) (\<lambda>v. Done (True, v))))"

definition copy_turn :: "('c, 'w) client \<Rightarrow> 'v copy_vars_scheme \<Rightarrow> ('c, 'w) dada_pwc_main_t \<Rightarrow>
    (bool \<times> 'v copy_vars_scheme, ('c, 'w) dada_pwc_main_t) outcome" where
  "copy_turn C v st =
     andthen (take_command C True v st) (\<lambda>v st.
     andthen
       (if transit_byte v = 0 \<or> bytes_to_write v \<noteq> 0 then fetch_buffer C v st else Done (True, v) st) (\<lambda>(go, v) st.
     if \<not> go then Done (False, v) st else copy_transit C v st))"

fun copy_loop :: "('c, 'w) client \<Rightarrow> nat \<Rightarrow> 'v copy_vars_scheme \<Rightarrow> ('c, 'w) dada_pwc_main_t \<Rightarrow>
    (unit, ('c, 'w) dada_pwc_main_t) outcome" where
  "copy_loop C 0 v st = Wait st"
| "copy_loop C (Suc n) v st =
     andthen (quit_asked C st) (\<lambda>quit st.
     if quit \<or> error_state v > 1 then Done () st
     else andthen (copy_turn C v st) (\<lambda>(go, v) st. if go then copy_loop C n v st else Done () st))"

definition dada_pwc_main_transfer_data :: "('c, 'w) client \<Rightarrow> nat \<Rightarrow> ('c, 'w) dada_pwc_main_t \<Rightarrow>
    (unit, ('c, 'w) dada_pwc_main_t) outcome" where
  "dada_pwc_main_transfer_data C n st =
     andthen (transfer_start C st) (\<lambda>v.
       copy_loop C n (transfer_vars.extend v
         (copy_vars.fields None 0 0)))"

section \<open>The loop over blocks\<close>

record block_vars = transfer_vars +
  bytes_this_xfer :: u64
  block_id :: u64

definition close_block :: "('c, 'w) client \<Rightarrow> u64 \<Rightarrow> ('c, 'w) dada_pwc_main_t \<Rightarrow>
    (unit, ('c, 'w) dada_pwc_main_t) outcome" where
  "close_block C n = data_call C (ipcio_close_block_write n)"

text \<open>
  A transfer that supports several xfers: at the transit byte the block function is called once more, without a
  buffer; then the xfer goes on or a new one starts.
\<close>

definition xfer_piece :: "('c, 'w) client \<Rightarrow> 'v block_vars_scheme \<Rightarrow> ('c, 'w) dada_pwc_main_t \<Rightarrow>
    ('v block_vars_scheme, ('c, 'w) dada_pwc_main_t) outcome" where
  "xfer_piece C v st =
    (let v = v\<lparr>bytes_this_xfer := bytes_this_xfer v + buf_bytes v\<rparr>
     in andthen
          (if transit_byte v \<noteq> 0 \<and> transit_byte v = total_bytes_written v
           then call (map_option (\<lambda>f. f None 0 (block_id v)) (block_function C)) st
           else Done 0 st) (\<lambda>_ st.
        andthen (dada_pwc_main_process_xfer C (buf_bytes v) st) (\<lambda>first st.
        if first = 0 then Done v st
        else if first < 0 then Err DADA_ERROR_HARD st
        else Done (v\<lparr>total_bytes_written := of_int first, bytes_this_xfer := 0\<rparr>) st)))"

text \<open>\<open>bytes_written\<close> is an \<open>int64_t\<close>, the size of a block unsigned.\<close>

definition fill_block :: "('c, 'w) client \<Rightarrow> u64 \<Rightarrow> 'v block_vars_scheme \<Rightarrow> ('c, 'w) dada_pwc_main_t \<Rightarrow>
    ('v block_vars_scheme, ('c, 'w) dada_pwc_main_t) outcome" where
  "fill_block C block_size v st =
     andthen (fail_as DADA_ERROR_FATAL (data_call C ipcio_open_block_write st)) (\<lambda>(a, b) st.
     let v = v\<lparr>block_id := b\<rparr>
     in andthen (call (map_option (\<lambda>f. f (Some a) block_size b) (block_function C)) st) (\<lambda>written st.
     if written < 0 then andthen (ignore (close_block C 0 st)) (\<lambda>_. Err DADA_ERROR_FATAL)
     else if of_int written > block_size then
       andthen (ignore (close_block C block_size st)) (\<lambda>_. Err DADA_ERROR_FATAL)
     else
       let n = (if transit_byte v \<noteq> 0 \<and> of_int written > bytes_to_write v then bytes_to_write v
                else of_int written);
           v = v\<lparr>buf_bytes := n, total_bytes_written := total_bytes_written v + n,
                 bytes_to_write := (if bytes_to_write v \<noteq> 0 then bytes_to_write v - n else 0)\<rparr>
       in andthen
            (if xfer_pending_function C = None
             then andthen (fail_as DADA_ERROR_FATAL (close_block C n st)) (\<lambda>_. Done v)
             else xfer_piece C v st) (\<lambda>v st.
          andthen (header_now_valid C st) (\<lambda>_. Done v))))"

definition block_transit :: "('c, 'w) client \<Rightarrow> 'v block_vars_scheme \<Rightarrow> ('c, 'w) dada_pwc_main_t \<Rightarrow>
    (bool \<times> 'v block_vars_scheme, ('c, 'w) dada_pwc_main_t) outcome" where
  "block_transit C v st =
    (if \<not> transit_now v then Done (True, v) st
     else
       andthen (change_state C
           (\<lambda>st. andthen (dada_pwc_main_process_xfer C (buf_bytes v) st) (\<lambda>_. Done ()))
           (total_bytes_written v) st) (\<lambda>go.
         Done (go, v\<lparr>transit_byte := 0\<rparr>)))"

definition block_turn :: "('c, 'w) client \<Rightarrow> u64 \<Rightarrow> 'v block_vars_scheme \<Rightarrow> ('c, 'w) dada_pwc_main_t \<Rightarrow>
    (bool \<times> 'v block_vars_scheme, ('c, 'w) dada_pwc_main_t) outcome" where
  "block_turn C block_size v st =
     andthen (take_command C False v st) (\<lambda>v st.
     let v = v\<lparr>buf_bytes := 0\<rparr>
     in andthen
          (if transit_byte v = 0 \<or> bytes_to_write v \<noteq> 0 then fill_block C block_size v st
           else Done v st) (\<lambda>v. block_transit C v))"

fun block_loop :: "('c, 'w) client \<Rightarrow> nat \<Rightarrow> u64 \<Rightarrow> 'v block_vars_scheme \<Rightarrow> ('c, 'w) dada_pwc_main_t \<Rightarrow>
    (unit, ('c, 'w) dada_pwc_main_t) outcome" where
  "block_loop C 0 bz v st = Wait st"
| "block_loop C (Suc n) bz v st =
     andthen (quit_asked C st) (\<lambda>quit st.
     if quit then Done () st
     else andthen (block_turn C bz v st) (\<lambda>(go, v) st. if go then block_loop C n bz v st else Done () st))"

definition dada_pwc_main_transfer_data_block :: "('c, 'w) client \<Rightarrow> nat \<Rightarrow> ('c, 'w) dada_pwc_main_t \<Rightarrow>
    (unit, ('c, 'w) dada_pwc_main_t) outcome" where
  "dada_pwc_main_transfer_data_block C n st =
     andthen (data_call C (\<lambda>s. Done (ipcbuf_get_bufsz s) s) st) (\<lambda>bz st.
     andthen (transfer_start C st) (\<lambda>v.
       block_loop C n bz (transfer_vars.extend v (block_vars.fields 0 0))))"

section \<open>The main loop\<close>

text \<open>The value of a step, for the tests \<open>rval < 0\<close>.\<close>

fun rval_of :: "(unit, 's) outcome \<Rightarrow> (int, 's) outcome" where
  "rval_of (Done u s) = Done 0 s"
| "rval_of (Err c s) = Done c s"
| "rval_of (Wait s) = Wait s"
| "rval_of Crash = Crash"

definition process_error_if :: "('c, 'w) client \<Rightarrow> int \<Rightarrow> ('c, 'w) dada_pwc_main_t \<Rightarrow>
    (unit, ('c, 'w) dada_pwc_main_t) outcome" where
  "process_error_if C rval st = (if rval < 0 then dada_pwc_main_process_error C rval st else Done () st)"

definition run_transfer :: "('c, 'w) client \<Rightarrow> nat \<Rightarrow> ('c, 'w) dada_pwc_main_t \<Rightarrow>
    (int, ('c, 'w) dada_pwc_main_t) outcome" where
  "run_transfer C n st =
     andthen (rval_of (dada_pwc_main_start_transfer C st)) (\<lambda>rval st.
     andthen
       (if rval < 0 then dada_pwc_main_process_error C rval st
        else andthen (rval_of
            (if block_function C \<noteq> None then dada_pwc_main_transfer_data_block C n st
             else dada_pwc_main_transfer_data C n st)) (process_error_if C)) (\<lambda>_ st.
     andthen (rval_of (dada_pwc_main_stop_transfer C st)) (\<lambda>rval st.
     andthen (process_error_if C rval st) (\<lambda>_. Done rval))))"

fun main_loop :: "('c, 'w) client \<Rightarrow> nat \<Rightarrow> int \<Rightarrow> ('c, 'w) dada_pwc_main_t \<Rightarrow>
    (int, ('c, 'w) dada_pwc_main_t) outcome" where
  "main_loop C 0 rval st = Wait st"
| "main_loop C (Suc n) rval st =
     andthen (quit_asked C st) (\<lambda>quit st.
     if quit then Done rval st
     else
       andthen (rval_of (dada_pwc_main_prepare C n st)) (\<lambda>rval st.
       andthen (quit_asked C st) (\<lambda>quit st.
       if quit then Done rval st
       else
         andthen
           (if rval < 0
            then andthen (dada_pwc_main_process_error C rval st) (\<lambda>_. Done rval)
            else run_transfer C n st) (\<lambda>rval st.
         main_loop C n rval
           (if pwc_state (pwcm_pwc st) = dada_pwc_fatal_error
            then st\<lparr>pwcm_pwc := (pwcm_pwc st)\<lparr>pwc_quit := True\<rparr>\<rparr> else st)))))"

definition dada_pwc_main :: "('c, 'w) client \<Rightarrow> nat \<Rightarrow> ('c, 'w) dada_pwc_main_t \<Rightarrow>
    (int, ('c, 'w) dada_pwc_main_t) outcome" where
  "dada_pwc_main C n st =
    (if start_function C = None \<or> buffer_function C = None \<or> stop_function C = None then Err (-1) st
     else main_loop C n 0 st)"

end
