(* ===== verification/Pwc_Main_Multi.thy ===== *)
theory Pwc_Main_Multi
  imports Pwc_Transfer
begin

text \<open>
  src/dada_pwc_main_multi.c: the main loop of a primary write client with several header-data units. The
  buffer function returns one buffer for each unit, all of one size.

  As in Pwc_Main_Steps the other processes (\<open>mc_others\<close>) act before each call of the client on something shared, here the control
  connection and the two rings of each unit.
\<close>

section \<open>The client\<close>

text \<open>
  The handles of a unit. Its header is a sub-block of its header block. \<open>utc_buffer_literal\<close>: the static
  variable \<open>buffer\<close> of \<open>dada_pwc_main_multi_start_transfer\<close> points to a string literal.
\<close>

record write_unit =
  wu_data_block :: "ipcio option"
  wu_header_block :: "ipcbuf option"
  wu_header :: "nat option"
  wu_header_size :: u64

record ('c, 'w) dada_pwc_main_multi_t =
  mm_pwc :: dada_pwc
  hdus :: "write_unit list"
  mm_context :: 'c
  mm_command :: dada_pwc_command
  mm_header_valid :: int
  utc_buffer_literal :: bool
  data_rings :: "nat \<Rightarrow> ring"
  header_rings :: "nat \<Rightarrow> ring"
  mm_world :: 'w

text \<open>The callbacks; the buffer function returns an array of buffers (\<open>None\<close> for NULL) and their size.\<close>

type_synonym ('a, 'c, 'w) multi_callback =
  "('c, 'w) dada_pwc_main_multi_t \<Rightarrow> 'a \<times> ('c, 'w) dada_pwc_main_multi_t"

record ('c, 'w) multi_client =
  mc_start_function :: "(int \<Rightarrow> (int, 'c, 'w) multi_callback) option"
  mc_buffer_function :: "(u8 list list option \<times> u64, 'c, 'w) multi_callback option"
  mc_stop_function :: "(int, 'c, 'w) multi_callback option"
  mc_error_function :: "(int, 'c, 'w) multi_callback option"
  mc_header_valid_function :: "(int, 'c, 'w) multi_callback option"
  mc_utc_string :: "int \<Rightarrow> string"
  mc_others :: "'w \<times> (nat \<Rightarrow> ring) \<times> (nat \<Rightarrow> ring) \<times> dada_pwc \<Rightarrow>
    'w \<times> (nat \<Rightarrow> ring) \<times> (nat \<Rightarrow> ring) \<times> dada_pwc"

definition dada_pwc_main_multi_create :: "write_unit list \<Rightarrow> ('c, 'w) dada_pwc_main_multi_t \<Rightarrow>
    ('c, 'w) dada_pwc_main_multi_t" where
  "dada_pwc_main_multi_create units junk = junk\<lparr>hdus := units, mm_header_valid := 0\<rparr>"

section \<open>Calls\<close>

definition multi_meanwhile :: "('c, 'w) multi_client \<Rightarrow> ('c, 'w) dada_pwc_main_multi_t \<Rightarrow>
    ('c, 'w) dada_pwc_main_multi_t" where
  "multi_meanwhile C st =
    (let (w, dr, hr, p) = mc_others C (mm_world st, data_rings st, header_rings st, mm_pwc st)
     in st\<lparr>mm_world := w, data_rings := dr, header_rings := hr, mm_pwc := p\<rparr>)"

definition multi_control_call :: "('c, 'w) multi_client \<Rightarrow> (dada_pwc \<Rightarrow> ('a, dada_pwc) outcome) \<Rightarrow>
    ('c, 'w) dada_pwc_main_multi_t \<Rightarrow> ('a, ('c, 'w) dada_pwc_main_multi_t) outcome" where
  "multi_control_call C f st =
    (let st = multi_meanwhile C st in map_outcome id (\<lambda>p. st\<lparr>mm_pwc := p\<rparr>) (f (mm_pwc st)))"

definition unit_at :: "nat \<Rightarrow> ('c, 'w) dada_pwc_main_multi_t \<Rightarrow> write_unit option" where
  "unit_at i st = (if i < length (hdus st) then Some (hdus st ! i) else None)"

definition set_unit :: "nat \<Rightarrow> write_unit \<Rightarrow> ('c, 'w) dada_pwc_main_multi_t \<Rightarrow> ('c, 'w) dada_pwc_main_multi_t" where
  "set_unit i u st = st\<lparr>hdus := (hdus st)[i := u]\<rparr>"

definition unit_data_call :: "('c, 'w) multi_client \<Rightarrow> nat \<Rightarrow> (ipcio \<times> ring \<Rightarrow> ('a, ipcio \<times> ring) outcome) \<Rightarrow>
    ('c, 'w) dada_pwc_main_multi_t \<Rightarrow> ('a, ('c, 'w) dada_pwc_main_multi_t) outcome" where
  "unit_data_call C i f st =
    (let st = multi_meanwhile C st
     in case unit_at i st of
          None \<Rightarrow> Crash
        | Some u \<Rightarrow>
            (case wu_data_block u of
               None \<Rightarrow> Crash
             | Some h \<Rightarrow>
                 map_outcome id (\<lambda>(h, r). set_unit i (u\<lparr>wu_data_block := Some h\<rparr>)
                   (st\<lparr>data_rings := (data_rings st)(i := r)\<rparr>)) (f (h, data_rings st i))))"

definition unit_header_call :: "('c, 'w) multi_client \<Rightarrow> nat \<Rightarrow> (ipcbuf \<times> ring \<Rightarrow> ('a, ipcbuf \<times> ring) outcome) \<Rightarrow>
    ('c, 'w) dada_pwc_main_multi_t \<Rightarrow> ('a, ('c, 'w) dada_pwc_main_multi_t) outcome" where
  "unit_header_call C i f st =
    (let st = multi_meanwhile C st
     in case unit_at i st of
          None \<Rightarrow> Crash
        | Some u \<Rightarrow>
            (case wu_header_block u of
               None \<Rightarrow> Crash
             | Some h \<Rightarrow>
                 map_outcome id (\<lambda>(h, r). set_unit i (u\<lparr>wu_header_block := Some h\<rparr>)
                   (st\<lparr>header_rings := (header_rings st)(i := r)\<rparr>)) (f (h, header_rings st i))))"

definition multi_call :: "('a, 'c, 'w) multi_callback option \<Rightarrow> ('c, 'w) dada_pwc_main_multi_t \<Rightarrow>
    ('a, ('c, 'w) dada_pwc_main_multi_t) outcome" where
  "multi_call f st = (case f of None \<Rightarrow> Crash | Some g \<Rightarrow> (let (a, st) = g st in Done a st))"

text \<open>\<open>for (i = 0; i < pwcm->num_hdus; i++)\<close>, with or without a value that is carried along.\<close>

definition for_units :: "(nat \<Rightarrow> ('c, 'w) dada_pwc_main_multi_t \<Rightarrow> (unit, ('c, 'w) dada_pwc_main_multi_t) outcome) \<Rightarrow>
    ('c, 'w) dada_pwc_main_multi_t \<Rightarrow> (unit, ('c, 'w) dada_pwc_main_multi_t) outcome" where
  "for_units f st = for_loop 0 (length (hdus st)) f st"

fun last_of :: "nat \<Rightarrow> nat \<Rightarrow> (nat \<Rightarrow> 's \<Rightarrow> ('a, 's) outcome) \<Rightarrow> 'a \<Rightarrow> 's \<Rightarrow> ('a, 's) outcome" where
  "last_of i 0 f a s = Done a s"
| "last_of i (Suc n) f a s = andthen (f i s) (\<lambda>b. last_of (Suc i) n f b)"

definition multi_quit_asked :: "('c, 'w) multi_client \<Rightarrow> ('c, 'w) dada_pwc_main_multi_t \<Rightarrow>
    (bool, ('c, 'w) dada_pwc_main_multi_t) outcome" where
  "multi_quit_asked C = multi_control_call C (\<lambda>p. Done (pwc_quit p) p)"

definition multi_set_state :: "('c, 'w) multi_client \<Rightarrow> dada_pwc_state \<Rightarrow> int \<Rightarrow> ('c, 'w) dada_pwc_main_multi_t \<Rightarrow>
    (unit, ('c, 'w) dada_pwc_main_multi_t) outcome" where
  "multi_set_state C new t = multi_control_call C (dada_pwc_set_state new t)"

section \<open>The headers\<close>

definition unit_memory :: "nat \<Rightarrow> ('c, 'w) dada_pwc_main_multi_t \<Rightarrow> u8 list option" where
  "unit_memory i st = Option.bind (unit_at i st) (\<lambda>u. map_option (mem (header_rings st i)) (wu_header u))"

definition put_unit_header :: "nat \<Rightarrow> u8 list option \<Rightarrow> ('c, 'w) dada_pwc_main_multi_t \<Rightarrow>
    (unit, ('c, 'w) dada_pwc_main_multi_t) outcome" where
  "put_unit_header i m st =
    (case (Option.bind (unit_at i st) wu_header, m) of
       (Some b, Some m) \<Rightarrow>
         (let r = header_rings st i
          in Done () (st\<lparr>header_rings := (header_rings st)(i := r\<lparr>mem := (mem r)(b := m)\<rparr>)\<rparr>))
     | _ \<Rightarrow> Crash)"

definition unit_header_text :: "nat \<Rightarrow> ('c, 'w) dada_pwc_main_multi_t \<Rightarrow> string option" where
  "unit_header_text i st = Option.bind (unit_memory i st) c_string"

definition unit_header_set :: "string \<Rightarrow> string \<Rightarrow> nat \<Rightarrow> ('c, 'w) dada_pwc_main_multi_t \<Rightarrow>
    (unit, ('c, 'w) dada_pwc_main_multi_t) outcome" where
  "unit_header_set keyword value i st =
    (case (unit_memory i st, unit_header_text i st) of
       (Some m, Some t) \<Rightarrow> put_unit_header i (store_string (ascii_header_set t keyword value) m) st
     | _ \<Rightarrow> Crash)"

definition mark_unit_header :: "('c, 'w) multi_client \<Rightarrow> nat \<Rightarrow> ('c, 'w) dada_pwc_main_multi_t \<Rightarrow>
    (unit, ('c, 'w) dada_pwc_main_multi_t) outcome" where
  "mark_unit_header C i st =
    (case unit_at i st of
       None \<Rightarrow> Crash
     | Some u \<Rightarrow> fail_as DADA_ERROR_HARD (unit_header_call C i (ipcbuf_mark_filled (wu_header_size u)) st))"

definition multi_check_header :: "('c, 'w) multi_client \<Rightarrow> ('c, 'w) dada_pwc_main_multi_t \<Rightarrow>
    (unit, ('c, 'w) dada_pwc_main_multi_t) outcome" where
  "multi_check_header C st =
     andthen
       (if mc_header_valid_function C \<noteq> None then multi_call (mc_header_valid_function C) st else Done 1 st)
       (\<lambda>v st. Done () (st\<lparr>mm_header_valid := v\<rparr>))"

definition multi_mark_if_valid :: "('c, 'w) multi_client \<Rightarrow> ('c, 'w) dada_pwc_main_multi_t \<Rightarrow>
    (unit, ('c, 'w) dada_pwc_main_multi_t) outcome" where
  "multi_mark_if_valid C st =
     andthen (multi_check_header C st) (\<lambda>_ st.
       if mm_header_valid st \<noteq> 0 then for_units (mark_unit_header C) st else Done () st)"

section \<open>Idle and prepared\<close>

definition next_unit_header :: "('c, 'w) multi_client \<Rightarrow> nat \<Rightarrow> ('c, 'w) dada_pwc_main_multi_t \<Rightarrow>
    (unit, ('c, 'w) dada_pwc_main_multi_t) outcome" where
  "next_unit_header C i st =
    (case unit_at i st of
       None \<Rightarrow> Crash
     | Some u \<Rightarrow>
         if wu_header_block u = None then Done () st
         else
           andthen (unit_header_call C i (\<lambda>s. Done (ipcbuf_get_bufsz s) s) st) (\<lambda>n st.
           let st = set_unit i ((hdus st ! i)\<lparr>wu_header_size := n\<rparr>) st
           in case unit_header_call C i ipcbuf_get_next_write st of
                Done b st \<Rightarrow> Done () (set_unit i ((hdus st ! i)\<lparr>wu_header := Some b\<rparr>) st)
              | Err c st \<Rightarrow> Err DADA_ERROR_HARD (set_unit i ((hdus st ! i)\<lparr>wu_header := None\<rparr>) st)
              | Wait st \<Rightarrow> Wait st
              | Crash \<Rightarrow> Crash))"

definition close_unit_data :: "('c, 'w) multi_client \<Rightarrow> nat \<Rightarrow> ('c, 'w) dada_pwc_main_multi_t \<Rightarrow>
    (unit, ('c, 'w) dada_pwc_main_multi_t) outcome" where
  "close_unit_data C i st =
    (case Option.bind (unit_at i st) wu_data_block of
       None \<Rightarrow> Done () st
     | Some h \<Rightarrow>
         if ipcio_is_open h then fail_as DADA_ERROR_HARD (unit_data_call C i ipcio_close st) else Done () st)"

definition copy_unit_header :: "nat \<Rightarrow> ('c, 'w) dada_pwc_main_multi_t \<Rightarrow>
    (unit, ('c, 'w) dada_pwc_main_multi_t) outcome" where
  "copy_unit_header i st =
    (case unit_at i st of
       None \<Rightarrow> Crash
     | Some u \<Rightarrow>
         if wu_header_block u = None then Done () st
         else (case (cmd_header (mm_command st), unit_memory i st) of
           (Some t, Some m) \<Rightarrow> put_unit_header i (store_strncpy (unat (wu_header_size u)) t m) st
         | _ \<Rightarrow> Crash))"

definition open_unit_data :: "('c, 'w) multi_client \<Rightarrow> char \<Rightarrow> nat \<Rightarrow> ('c, 'w) dada_pwc_main_multi_t \<Rightarrow>
    (unit, ('c, 'w) dada_pwc_main_multi_t) outcome" where
  "open_unit_data C mode i st =
    (if Option.bind (unit_at i st) wu_data_block = None then Done () st
     else fail_as DADA_ERROR_HARD (unit_data_call C i (ipcio_open mode) st))"

definition multi_prepare_command :: "('c, 'w) multi_client \<Rightarrow> ('c, 'w) dada_pwc_main_multi_t \<Rightarrow>
    (bool, ('c, 'w) dada_pwc_main_multi_t) outcome" where
  "multi_prepare_command C st =
    (case code (mm_command st) of
       dada_pwc_reset \<Rightarrow> andthen (ignore (multi_set_state C dada_pwc_idle 0 st)) (\<lambda>_. Done False)
     | dada_pwc_header \<Rightarrow>
         andthen (for_units copy_unit_header st) (\<lambda>_ st.
         andthen (ignore (multi_set_state C dada_pwc_prepared 0 st)) (\<lambda>_. Done False))
     | dada_pwc_clock \<Rightarrow>
         if byte_count (mm_command st) \<noteq> 0 then Err DADA_ERROR_SOFT st
         else andthen (for_units (open_unit_data C (CHR ''w'')) st) (\<lambda>_. Done True)
     | dada_pwc_start \<Rightarrow> andthen (for_units (open_unit_data C (CHR ''W'')) st) (\<lambda>_. Done True)
     | dada_pwc_stop \<Rightarrow> andthen (ignore (multi_set_state C dada_pwc_idle 0 st)) (\<lambda>_. Done False)
     | _ \<Rightarrow> Err DADA_ERROR_HARD st)"

text \<open>The loops are given a number of turns; \<open>Wait\<close> also means that more turns are needed.\<close>

fun multi_prepare_loop :: "('c, 'w) multi_client \<Rightarrow> nat \<Rightarrow> ('c, 'w) dada_pwc_main_multi_t \<Rightarrow>
    (unit, ('c, 'w) dada_pwc_main_multi_t) outcome" where
  "multi_prepare_loop C 0 st = Wait st"
| "multi_prepare_loop C (Suc n) st =
     andthen (multi_quit_asked C st) (\<lambda>quit st.
     if quit then Done () st
     else andthen (multi_control_call C dada_pwc_command_get st) (\<lambda>c st.
       let st = st\<lparr>mm_command := c\<rparr>
       in andthen (multi_quit_asked C st) (\<lambda>quit st.
          if quit then Done () st
          else andthen (multi_prepare_command C st) (\<lambda>leave st.
            if leave then Done () st else multi_prepare_loop C n st))))"

definition dada_pwc_main_multi_prepare :: "('c, 'w) multi_client \<Rightarrow> nat \<Rightarrow> ('c, 'w) dada_pwc_main_multi_t \<Rightarrow>
    (unit, ('c, 'w) dada_pwc_main_multi_t) outcome" where
  "dada_pwc_main_multi_prepare C n st =
     andthen (for_units (next_unit_header C) st) (\<lambda>_ st.
     andthen (for_units (close_unit_data C) st) (\<lambda>_. multi_prepare_loop C n))"

section \<open>Starting a transfer\<close>

text \<open>
  The text of the start time: memory that was allocated once, or the literal ``UNKNOWN'' from the first start without a
  time on, which must not be written.
\<close>

definition start_text :: "('c, 'w) multi_client \<Rightarrow> int \<Rightarrow> ('c, 'w) dada_pwc_main_multi_t \<Rightarrow>
    (string, ('c, 'w) dada_pwc_main_multi_t) outcome" where
  "start_text C t st =
    (if t = 0 then Done ''UNKNOWN'' (st\<lparr>utc_buffer_literal := True\<rparr>)
     else if utc_buffer_literal st then Crash
     else Done (mc_utc_string C t) st)"

text \<open>Whether headers are written depends on the first unit.\<close>

definition multi_start_headers :: "('c, 'w) multi_client \<Rightarrow> int \<Rightarrow> string \<Rightarrow> ('c, 'w) dada_pwc_main_multi_t \<Rightarrow>
    (unit, ('c, 'w) dada_pwc_main_multi_t) outcome" where
  "multi_start_headers C t utc_text st =
    (case unit_at 0 st of
       None \<Rightarrow> Crash
     | Some u \<Rightarrow>
         if wu_header_block u = None then Done () st
         else
           andthen (for_units (unit_header_set ''UTC_START'' utc_text) st) (\<lambda>_ st.
           let st = (if t > 0 then st\<lparr>mm_pwc := (mm_pwc st)\<lparr>utc_start := t\<rparr>\<rparr> else st)
           in if code (mm_command st) = dada_pwc_start then multi_mark_if_valid C st else Done () st))"

definition dada_pwc_main_multi_start_transfer :: "('c, 'w) multi_client \<Rightarrow> ('c, 'w) dada_pwc_main_multi_t \<Rightarrow>
    (unit, ('c, 'w) dada_pwc_main_multi_t) outcome" where
  "dada_pwc_main_multi_start_transfer C st =
     andthen (multi_call (map_option (\<lambda>f. f (utc (mm_command st))) (mc_start_function C)) st) (\<lambda>t st.
     if t < 0 then Err DADA_ERROR_HARD st
     else
       andthen (start_text C t st) (\<lambda>utc_text st.
       andthen (multi_start_headers C t utc_text st) (\<lambda>_ st.
       andthen (for_units (\<lambda>i st. ignore (unit_data_call C i ipcbuf_set_soclock_buf st)) st) (\<lambda>_ st.
       if code (mm_command st) = dada_pwc_clock then multi_set_state C dada_pwc_clocking t st
       else if code (mm_command st) = dada_pwc_start then multi_set_state C dada_pwc_recording t st
       else Err DADA_ERROR_HARD st))))"

section \<open>From clocking to recording\<close>

text \<open>The byte is that of the last unit.\<close>

definition multi_record_start_byte :: "('c, 'w) multi_client \<Rightarrow> ('c, 'w) dada_pwc_main_multi_t \<Rightarrow>
    (u64, ('c, 'w) dada_pwc_main_multi_t) outcome" where
  "multi_record_start_byte C st =
    (let n = length (hdus st)
     in andthen (last_of 0 n (\<lambda>i. unit_data_call C i (\<lambda>s. Done (ipcio_get_start_minimum s) s)) 0 st) (\<lambda>least st.
        andthen (last_of 0 n (\<lambda>i. unit_data_call C i (\<lambda>s. Done (ipcio_get_soclock_byte s) s)) 0 st) (\<lambda>first st.
        let start = first + byte_count (mm_command st)
        in if start < least
           then Done least (st\<lparr>mm_command := (mm_command st)\<lparr>byte_count := least - first\<rparr>\<rparr>)
           else Done start st)))"

definition move_unit_header :: "('c, 'w) multi_client \<Rightarrow> nat \<Rightarrow> ('c, 'w) dada_pwc_main_multi_t \<Rightarrow>
    (unit, ('c, 'w) dada_pwc_main_multi_t) outcome" where
  "move_unit_header C i st =
    (case unit_header_call C i ipcbuf_get_next_write st of
       Done b st \<Rightarrow>
         let u = hdus st ! i
         in if wu_header u = Some b then Done () st
            else (case unit_memory i st of
              None \<Rightarrow> Crash
            | Some m \<Rightarrow>
                let n = unat (wu_header_size u); m' = mem (header_rings st i) b
                in if n > length m \<or> n > length m' then Crash
                   else put_unit_header i (Some (take n m @ drop n m')) (set_unit i (u\<lparr>wu_header := Some b\<rparr>) st))
     | Err c st \<Rightarrow> Crash
     | Wait st \<Rightarrow> Wait st
     | Crash \<Rightarrow> Crash)"

definition start_unit :: "('c, 'w) multi_client \<Rightarrow> string \<Rightarrow> u64 \<Rightarrow> nat \<Rightarrow> ('c, 'w) dada_pwc_main_multi_t \<Rightarrow>
    (unit, ('c, 'w) dada_pwc_main_multi_t) outcome" where
  "start_unit C utc_text start i st =
     andthen (unit_header_set ''UTC_START'' utc_text i st) (\<lambda>_ st.
     andthen (unit_header_set ''OBS_OFFSET'' (decimal 0) i st) (\<lambda>_ st.
     fail_as DADA_ERROR_HARD (unit_data_call C i (ipcio_start start) st)))"

definition dada_pwc_main_multi_record_start :: "('c, 'w) multi_client \<Rightarrow> ('c, 'w) dada_pwc_main_multi_t \<Rightarrow>
    (unit, ('c, 'w) dada_pwc_main_multi_t) outcome" where
  "dada_pwc_main_multi_record_start C st =
     andthen (multi_record_start_byte C st) (\<lambda>start st.
     andthen (for_units (move_unit_header C) st) (\<lambda>_ st.
     andthen (for_units (start_unit C (mc_utc_string C (utc (mm_command st))) start) st) (\<lambda>_ st.
     if mm_header_valid st \<noteq> 0 then Done () st
     else andthen (multi_check_header C st) (\<lambda>_ st.
       if mm_header_valid st \<noteq> 0 then for_units (mark_unit_header C) st else Err DADA_ERROR_HARD st))))"

section \<open>The transfer\<close>

record multi_vars = transfer_vars +
  buffers :: "u8 list list option"
  buffers_size :: u64
  mv_error_state :: u64

definition multi_set_utc_start :: "('c, 'w) multi_client \<Rightarrow> 'v transfer_vars_scheme \<Rightarrow>
    ('c, 'w) dada_pwc_main_multi_t \<Rightarrow> ('v transfer_vars_scheme, ('c, 'w) dada_pwc_main_multi_t) outcome" where
  "multi_set_utc_start C v st =
    (if utc (mm_command st) \<le> 0 then Crash
     else if utc_start_set v then Done v st
     else
       andthen (for_units (unit_header_set ''UTC_START'' (mc_utc_string C (utc (mm_command st)))) st) (\<lambda>_ st.
       andthen (if pwc_state (mm_pwc st) = dada_pwc_recording then multi_mark_if_valid C st else Done () st)
         (\<lambda>_. Done (v\<lparr>utc_start_set := True\<rparr>))))"

definition multi_take_command :: "('c, 'w) multi_client \<Rightarrow> 'v transfer_vars_scheme \<Rightarrow>
    ('c, 'w) dada_pwc_main_multi_t \<Rightarrow> ('v transfer_vars_scheme, ('c, 'w) dada_pwc_main_multi_t) outcome" where
  "multi_take_command C v st =
     andthen (multi_control_call C (\<lambda>p. Done (dada_pwc_command_check p) p) st) (\<lambda>pending st.
     if \<not> pending then Done v st
     else andthen (multi_control_call C dada_pwc_command_get st) (\<lambda>c st.
       let st = st\<lparr>mm_command := c\<rparr>
       in if code c = dada_pwc_set_utc_start then multi_set_utc_start C v st
          else if code c \<in> {dada_pwc_record_stop, dada_pwc_record_start, dada_pwc_stop}
          then Done (schedule False (byte_count c) v) st
          else Err DADA_ERROR_HARD st))"

definition multi_transfer_start :: "('c, 'w) dada_pwc_main_multi_t \<Rightarrow>
    (transfer_vars, ('c, 'w) dada_pwc_main_multi_t) outcome" where
  "multi_transfer_start st =
    (let n = byte_count (mm_command st)
     in case unit_header_text 0 st of
          None \<Rightarrow> Crash
        | Some t \<Rightarrow>
            (case ascii_header_get t ''UTC_START'' scanf_s of
               (k, Some u) \<Rightarrow>
                 Done \<lparr>total_bytes_written = 0, transit_byte = n, bytes_to_write = n,
                       utc_start_set = (u \<noteq> ''UNKNOWN''), buf_bytes = 0\<rparr> st
             | (k, None) \<Rightarrow> Err DADA_ERROR_HARD st))"

text \<open>\<open>ipcio_write (buffers[i] + from, n)\<close>.\<close>

definition unit_write :: "('c, 'w) multi_client \<Rightarrow> u8 list list option \<Rightarrow> u64 \<Rightarrow> u64 \<Rightarrow> nat \<Rightarrow>
    ('c, 'w) dada_pwc_main_multi_t \<Rightarrow> (nat, ('c, 'w) dada_pwc_main_multi_t) outcome" where
  "unit_write C bs from n i st =
    (case bs of
       None \<Rightarrow> Crash
     | Some ds \<Rightarrow>
         if length ds \<le> i \<or> (n \<noteq> 0 \<and> length (ds ! i) < unat from + unat n) then Crash
         else unit_data_call C i (ipcio_write (take (unat n) (drop (unat from) (ds ! i)))) st)"

definition unit_space_left :: "('c, 'w) multi_client \<Rightarrow> nat \<Rightarrow> ('c, 'w) dada_pwc_main_multi_t \<Rightarrow>
    (u64, ('c, 'w) dada_pwc_main_multi_t) outcome" where
  "unit_space_left C i = unit_data_call C i (\<lambda>s. case ipcio_space_left s of
     None \<Rightarrow> Crash | Some n \<Rightarrow> Done (of_int n) s)"

definition write_unit_piece :: "('c, 'w) multi_client \<Rightarrow> 'v multi_vars_scheme \<Rightarrow> nat \<Rightarrow>
    ('c, 'w) dada_pwc_main_multi_t \<Rightarrow> (unit, ('c, 'w) dada_pwc_main_multi_t) outcome" where
  "write_unit_piece C v i st =
     andthen (if utc_start_set v then Done (buf_bytes v) st else unit_space_left C i st) (\<lambda>space st.
     if space < buf_bytes v then Err DADA_ERROR_FATAL st
     else andthen (fail_as DADA_ERROR_FATAL (unit_write C (buffers v) 0 (buf_bytes v) i st)) (\<lambda>k st.
       if k < unat (buf_bytes v) then Err DADA_ERROR_FATAL st else Done () st))"

definition multi_no_bytes :: "('c, 'w) multi_client \<Rightarrow> 'v multi_vars_scheme \<Rightarrow> ('c, 'w) dada_pwc_main_multi_t \<Rightarrow>
    ('v multi_vars_scheme, ('c, 'w) dada_pwc_main_multi_t) outcome" where
  "multi_no_bytes C v st =
     andthen (if mc_error_function C \<noteq> None then multi_call (mc_error_function C) st else Done 2 st) (\<lambda>e st.
     let v = v\<lparr>mv_error_state := of_int e\<rparr>
     in if mv_error_state v = 2 then
          andthen (for_units (\<lambda>i st. ignore (unit_write C (buffers v) 0 1 i st)) st) (\<lambda>_. Err DADA_ERROR_SOFT)
        else Done v st)"

definition multi_header_now_valid :: "('c, 'w) multi_client \<Rightarrow> ('c, 'w) dada_pwc_main_multi_t \<Rightarrow>
    (unit, ('c, 'w) dada_pwc_main_multi_t) outcome" where
  "multi_header_now_valid C st =
    (if mm_header_valid st = 0 \<and> pwc_state (mm_pwc st) = dada_pwc_recording then
       andthen (multi_call (mc_header_valid_function C) st) (\<lambda>valid st.
         let st = st\<lparr>mm_header_valid := valid\<rparr>
         in if valid \<noteq> 0 then for_units (mark_unit_header C) st else Done () st)
     else Done () st)"

text \<open>Whether data are written depends on the first unit.\<close>

definition multi_copy_piece :: "('c, 'w) multi_client \<Rightarrow> 'v multi_vars_scheme \<Rightarrow> ('c, 'w) dada_pwc_main_multi_t \<Rightarrow>
    ('v multi_vars_scheme, ('c, 'w) dada_pwc_main_multi_t) outcome" where
  "multi_copy_piece C v st =
    (if buffers v = None then Err DADA_ERROR_HARD st
     else
       andthen (multi_header_now_valid C st) (\<lambda>_ st.
       let size = buffers_size v;
           n = (if transit_byte v \<noteq> 0 \<and> size > bytes_to_write v then bytes_to_write v else size);
           v = v\<lparr>buf_bytes := n\<rparr>
       in case unit_at 0 st of
            None \<Rightarrow> Crash
          | Some u \<Rightarrow>
              andthen (if wu_data_block u = None then Done () st else for_units (write_unit_piece C v) st) (\<lambda>_.
              Done (v\<lparr>total_bytes_written := total_bytes_written v + n,
                      bytes_to_write := (if bytes_to_write v \<noteq> 0 then bytes_to_write v - n else 0)\<rparr>))))"

definition fetch_buffers :: "('c, 'w) multi_client \<Rightarrow> 'v multi_vars_scheme \<Rightarrow> ('c, 'w) dada_pwc_main_multi_t \<Rightarrow>
    ('v multi_vars_scheme, ('c, 'w) dada_pwc_main_multi_t) outcome" where
  "fetch_buffers C v st =
     andthen (multi_call (mc_buffer_function C) st) (\<lambda>(bs, size) st.
     let v = v\<lparr>buffers := bs, buffers_size := size,
               mv_error_state := (if size \<noteq> 0 then 0 else mv_error_state v)\<rparr>
     in andthen (if size = 0 then multi_no_bytes C v st else Done v st) (\<lambda>v. multi_copy_piece C v))"

definition multi_change_state :: "('c, 'w) multi_client \<Rightarrow> u64 \<Rightarrow> ('c, 'w) dada_pwc_main_multi_t \<Rightarrow>
    (bool, ('c, 'w) dada_pwc_main_multi_t) outcome" where
  "multi_change_state C sofar st =
    (case code (mm_command st) of
       dada_pwc_record_stop \<Rightarrow>
         andthen
           (for_units (\<lambda>i st.
              if Option.bind (unit_at i st) wu_data_block = None then Done () st
              else fail_as DADA_ERROR_FATAL (unit_data_call C i ipcio_stop st)) st) (\<lambda>_ st.
         andthen (ignore (multi_set_state C dada_pwc_clocking 0 st)) (\<lambda>_. Done True))
     | dada_pwc_record_start \<Rightarrow>
         andthen (fail_as DADA_ERROR_HARD (dada_pwc_main_multi_record_start C st)) (\<lambda>_ st.
         andthen (ignore (multi_set_state C dada_pwc_recording 0 st)) (\<lambda>_. Done True))
     | dada_pwc_stop \<Rightarrow> Done False st
     | dada_pwc_set_utc_start \<Rightarrow> if sofar \<noteq> 0 then Err DADA_ERROR_HARD st else Done True st
     | dada_pwc_clock \<Rightarrow> if sofar \<noteq> 0 then Err DADA_ERROR_HARD st else Done True st
     | dada_pwc_start \<Rightarrow> if sofar \<noteq> 0 then Err DADA_ERROR_HARD st else Done True st
     | _ \<Rightarrow> Err DADA_ERROR_HARD st)"

text \<open>
  The rest of the buffers is written, but the number of bytes in the tests and in the count is that of the piece before;
  that a write fails is not noticed.
\<close>

definition write_unit_rest :: "('c, 'w) multi_client \<Rightarrow> 'v multi_vars_scheme \<Rightarrow> nat \<Rightarrow>
    ('c, 'w) dada_pwc_main_multi_t \<Rightarrow> (unit, ('c, 'w) dada_pwc_main_multi_t) outcome" where
  "write_unit_rest C v i st =
     andthen (if utc_start_set v then Done (buf_bytes v) st else unit_space_left C i st) (\<lambda>space st.
     if space < buf_bytes v then Err DADA_ERROR_FATAL st
     else
       andthen (unsigned_count
         (unit_write C (buffers v) (buf_bytes v) (buffers_size v - buf_bytes v) i st)) (\<lambda>k st.
       if k < unat (buf_bytes v) then Err DADA_ERROR_FATAL st else Done () st))"

definition multi_write_rest :: "('c, 'w) multi_client \<Rightarrow> 'v multi_vars_scheme \<Rightarrow> ('c, 'w) dada_pwc_main_multi_t \<Rightarrow>
    ('v multi_vars_scheme, ('c, 'w) dada_pwc_main_multi_t) outcome" where
  "multi_write_rest C v st =
    (case unit_at 0 st of
       None \<Rightarrow> Crash
     | Some u \<Rightarrow>
         if buf_bytes v = 0 \<or> wu_data_block u = None then Done v st
         else andthen (for_units (write_unit_rest C v) st) (\<lambda>_.
           Done (v\<lparr>total_bytes_written := total_bytes_written v + buf_bytes v\<rparr>)))"

definition multi_transit :: "('c, 'w) multi_client \<Rightarrow> 'v multi_vars_scheme \<Rightarrow> ('c, 'w) dada_pwc_main_multi_t \<Rightarrow>
    (bool \<times> 'v multi_vars_scheme, ('c, 'w) dada_pwc_main_multi_t) outcome" where
  "multi_transit C v st =
    (if transit_byte v \<noteq> total_bytes_written v then Done (True, v) st
     else
       let v = v\<lparr>transit_byte := 0\<rparr>
       in andthen (multi_change_state C (total_bytes_written v) st) (\<lambda>go st.
          if \<not> go then Done (False, v) st
          else andthen (multi_write_rest C v st) (\<lambda>v. Done (True, v))))"

definition multi_turn :: "('c, 'w) multi_client \<Rightarrow> 'v multi_vars_scheme \<Rightarrow> ('c, 'w) dada_pwc_main_multi_t \<Rightarrow>
    (bool \<times> 'v multi_vars_scheme, ('c, 'w) dada_pwc_main_multi_t) outcome" where
  "multi_turn C v st =
     andthen (multi_take_command C v st) (\<lambda>v st.
     andthen (if transit_byte v = 0 \<or> bytes_to_write v \<noteq> 0 then fetch_buffers C v st else Done v st)
       (\<lambda>v. multi_transit C v))"

fun multi_loop :: "('c, 'w) multi_client \<Rightarrow> nat \<Rightarrow> 'v multi_vars_scheme \<Rightarrow> ('c, 'w) dada_pwc_main_multi_t \<Rightarrow>
    (unit, ('c, 'w) dada_pwc_main_multi_t) outcome" where
  "multi_loop C 0 v st = Wait st"
| "multi_loop C (Suc n) v st =
     andthen (multi_quit_asked C st) (\<lambda>quit st.
     if quit \<or> mv_error_state v > 1 then Done () st
     else andthen (multi_turn C v st) (\<lambda>(go, v) st. if go then multi_loop C n v st else Done () st))"

definition dada_pwc_main_multi_transfer_data :: "('c, 'w) multi_client \<Rightarrow> nat \<Rightarrow> ('c, 'w) dada_pwc_main_multi_t \<Rightarrow>
    (unit, ('c, 'w) dada_pwc_main_multi_t) outcome" where
  "dada_pwc_main_multi_transfer_data C n st =
     andthen (multi_transfer_start st) (\<lambda>v.
       multi_loop C n (transfer_vars.extend v (multi_vars.fields None 0 0)))"

section \<open>Stopping, errors, and the main loop\<close>

definition dada_pwc_main_multi_stop_transfer :: "('c, 'w) multi_client \<Rightarrow> ('c, 'w) dada_pwc_main_multi_t \<Rightarrow>
    (unit, ('c, 'w) dada_pwc_main_multi_t) outcome" where
  "dada_pwc_main_multi_stop_transfer C st =
     andthen (multi_call (mc_stop_function C) (st\<lparr>mm_header_valid := 0\<rparr>)) (\<lambda>res st.
     if res < 0 then Err DADA_ERROR_HARD st
     else
       andthen
         (for_units (\<lambda>i st.
            if Option.bind (unit_at i st) wu_data_block = None then Done () st
            else fail_as DADA_ERROR_FATAL (unit_data_call C i ipcio_close st)) st) (\<lambda>_ st.
       if pwc_state (mm_pwc st) \<notin> error_states then ignore (multi_set_state C dada_pwc_idle 0 st)
       else Done () st))"

definition dada_pwc_main_multi_process_error :: "('c, 'w) multi_client \<Rightarrow> int \<Rightarrow> ('c, 'w) dada_pwc_main_multi_t \<Rightarrow>
    (unit, ('c, 'w) dada_pwc_main_multi_t) outcome" where
  "dada_pwc_main_multi_process_error C rval st =
     ignore (multi_set_state C (error_state_for rval (pwc_state (mm_pwc st))) 0 st)"

definition multi_process_error_if :: "('c, 'w) multi_client \<Rightarrow> int \<Rightarrow> ('c, 'w) dada_pwc_main_multi_t \<Rightarrow>
    (unit, ('c, 'w) dada_pwc_main_multi_t) outcome" where
  "multi_process_error_if C rval st =
    (if rval < 0 then dada_pwc_main_multi_process_error C rval st else Done () st)"

definition multi_run_transfer :: "('c, 'w) multi_client \<Rightarrow> nat \<Rightarrow> ('c, 'w) dada_pwc_main_multi_t \<Rightarrow>
    (int, ('c, 'w) dada_pwc_main_multi_t) outcome" where
  "multi_run_transfer C n st =
     andthen (rval_of (dada_pwc_main_multi_start_transfer C st)) (\<lambda>rval st.
     andthen
       (if rval < 0 then dada_pwc_main_multi_process_error C rval st
        else andthen (rval_of (dada_pwc_main_multi_transfer_data C n st)) (multi_process_error_if C)) (\<lambda>_ st.
     andthen (rval_of (dada_pwc_main_multi_stop_transfer C st)) (\<lambda>rval st.
     andthen (multi_process_error_if C rval st) (\<lambda>_. Done rval))))"

fun multi_main_loop :: "('c, 'w) multi_client \<Rightarrow> nat \<Rightarrow> int \<Rightarrow> ('c, 'w) dada_pwc_main_multi_t \<Rightarrow>
    (int, ('c, 'w) dada_pwc_main_multi_t) outcome" where
  "multi_main_loop C 0 rval st = Wait st"
| "multi_main_loop C (Suc n) rval st =
     andthen (multi_quit_asked C st) (\<lambda>quit st.
     if quit then Done rval st
     else
       andthen (rval_of (dada_pwc_main_multi_prepare C n st)) (\<lambda>rval st.
       andthen (multi_quit_asked C st) (\<lambda>quit st.
       if quit then Done rval st
       else
         andthen
           (if rval < 0
            then andthen (dada_pwc_main_multi_process_error C rval st) (\<lambda>_. Done rval)
            else multi_run_transfer C n st) (\<lambda>rval st.
         multi_main_loop C n rval
           (if pwc_state (mm_pwc st) = dada_pwc_fatal_error
            then st\<lparr>mm_pwc := (mm_pwc st)\<lparr>pwc_quit := True\<rparr>\<rparr> else st)))))"

definition dada_pwc_main_multi :: "('c, 'w) multi_client \<Rightarrow> nat \<Rightarrow> ('c, 'w) dada_pwc_main_multi_t \<Rightarrow>
    (int, ('c, 'w) dada_pwc_main_multi_t) outcome" where
  "dada_pwc_main_multi C n st =
    (if mc_start_function C = None \<or> mc_buffer_function C = None \<or> mc_stop_function C = None then Err (-1) st
     else multi_main_loop C n 0 st)"

end
