(* ===== verification/Pwc_Recording.thy ===== *)
theory Pwc_Recording
  imports Pwc_Transfer Ipcio_Waits
begin

text \<open>
  What the primary write client records. While readers read, in any interleaving, and no further
  command arrives, the copying loop puts the bytes of the buffers into the data block up to the byte at which
  the state is to change, and not one more. The locale \<open>recorder\<close> is the contract of the client's
  environment: the processes that share the ring, and the instrument.
\<close>

section \<open>The setting\<close>

text \<open>The readers of the data block are the world; the system of Ipcio_System is in the client's state.\<close>

type_synonym readers = "(nat \<Rightarrow> ipcio) \<times> (nat \<Rightarrow> bool)"

definition ring_system :: "('c, readers) dada_pwc_main_t \<Rightarrow> unit ipcio_ext sys option" where
  "ring_system st = map_option (\<lambda>h. \<lparr>wr = h, rd = fst (world st), rg = data_ring st, holds = snd (world st)\<rparr>)
     (pwcm_data_block st)"

text \<open>
  The contract of the other processes: what they do to the data block is what readers do, any number of
  calls of any of them. \<open>quiet\<close>: no control command arrives.
\<close>

definition readers_act :: "('c, readers) client \<Rightarrow> bool" where
  "readers_act C \<longleftrightarrow> (\<forall>st s. ring_system st = Some s \<longrightarrow>
     (\<exists>es s'. ring_system (meanwhile C st) = Some s' \<and> run io_step s es s' \<and> list_all reader_event es))"

definition quiet :: "('c, 'w) client \<Rightarrow> bool" where
  "quiet C \<longleftrightarrow> (\<forall>st. pwcm_pwc (meanwhile C st) = pwcm_pwc st)"

text \<open>
  The contract of the buffer function: it changes nothing but its own context, and returns \<open>n\<close> bytes
  of the memory \<open>d\<close>, at least one. It may look at the control connection, for the data rate.
\<close>

type_synonym 'c instrument = "dada_pwc \<Rightarrow> 'c \<Rightarrow> u8 list \<times> nat \<times> 'c"

definition productive :: "'c instrument \<Rightarrow> dada_pwc \<Rightarrow> bool" where
  "productive fill p \<longleftrightarrow> (\<forall>c d n c'. fill p c = (d, n, c') \<longrightarrow> 0 < n \<and> n \<le> length d \<and> n < 2 ^ 63)"

definition delivers :: "('c, 'w) client \<Rightarrow> 'c instrument \<Rightarrow> bool" where
  "delivers C fill \<longleftrightarrow> (\<exists>g. buffer_function C = Some g \<and> (\<forall>st d n c.
     productive fill (pwcm_pwc st) \<longrightarrow> fill (pwcm_pwc st) (pwcm_context st) = (d, n, c) \<longrightarrow>
     g st = ((Some d, int n), st\<lparr>pwcm_context := c\<rparr>)))"

text \<open>The bytes of the next \<open>k\<close> buffers.\<close>

fun produced :: "'c instrument \<Rightarrow> dada_pwc \<Rightarrow> nat \<Rightarrow> 'c \<Rightarrow> u8 list" where
  "produced fill p 0 c = []"
| "produced fill p (Suc k) c = (let (d, n, c') = fill p c in take n d @ produced fill p k c')"

section \<open>Recording\<close>

text \<open>From \<open>st\<close> to \<open>st'\<close> the writer added the bytes \<open>d\<close> to the transfer in progress.\<close>

definition records :: "('c, readers) dada_pwc_main_t \<Rightarrow> u8 list \<Rightarrow> ('c, readers) dada_pwc_main_t \<Rightarrow> bool" where
  "records st d st' \<longleftrightarrow> (\<exists>s es s'. ring_system st = Some s \<and> ring_system st' = Some s' \<and> run io_step s es s' \<and>
     bytes_of es = d \<and> Finished \<notin> set es \<and>
     unat (w_buf_next (data_ring st')) \<le> unat (w_buf_next (data_ring st)) + length d)"

text \<open>The data block is a ring in use, open for writing.\<close>

definition in_use :: "u64 \<Rightarrow> nat \<Rightarrow> ('c, readers) dada_pwc_main_t \<Rightarrow> bool" where
  "in_use nb n st \<longleftrightarrow> unat nb \<le> 32767 \<and> (\<exists>s. ring_system st = Some s \<and> io_shape nb n s)"

lemma ring_system_rg: "ring_system st = Some s \<Longrightarrow> rg s = data_ring st"
  by (auto simp: ring_system_def)

lemma records_refl: "in_use nb n st \<Longrightarrow> records st [] st"
  by (auto simp: in_use_def records_def intro!: exI [of _ "[]"] run.run_Nil)

lemma records_trans: "records st d st' \<Longrightarrow> records st' e st'' \<Longrightarrow> records st (d @ e) st''"
  by (fastforce simp: records_def dest: run_append)

lemma records_in_use: "records st d st' \<Longrightarrow> in_use nb n st \<Longrightarrow> in_use nb n st'"
  by (auto simp: records_def in_use_def dest: io_const.run_inv)

lemma records_written:
  "records st d st' \<Longrightarrow> ring_system st = Some s \<Longrightarrow> io_reachable key nb bz n es s \<Longrightarrow>
    \<exists>fs s'. ring_system st' = Some s' \<and> io_reachable key nb bz n (es @ fs) s' \<and>
      written (es @ fs) = add_bytes d (written es)"
  unfolding records_def io_reachable_def using written_bytes run_append by fastforce

text \<open>What a call on the data block may change.\<close>

definition same_client :: "('c, 'w) dada_pwc_main_t \<Rightarrow> ('c, 'w) dada_pwc_main_t \<Rightarrow> bool" where
  "same_client st st' \<longleftrightarrow> pwcm_pwc st' = pwcm_pwc st \<and> pwcm_command st' = pwcm_command st \<and>
     pwcm_header_valid st' = pwcm_header_valid st \<and> pwcm_data_block st' \<noteq> None"

locale recorder =
  fixes C :: "('c, readers) client" and fill :: "'c instrument"
  assumes acts: "readers_act C" and quiet: "quiet C" and delivers: "delivers C fill"
begin

lemma meanwhile_records:
  assumes "in_use nb n st"
  shows "records st [] (meanwhile C st)"
proof -
  from assms obtain s where s: "ring_system st = Some s" "io_shape nb n s" by (auto simp: in_use_def)
  with acts obtain es s' where t: "ring_system (meanwhile C st) = Some s'" "run io_step s es s'"
    "list_all reader_event es" unfolding readers_act_def by blast
  then show ?thesis
    using s reader_events_bytes [of es] reader_run_writer [OF t(2) s(2) t(3)]
      ring_system_rg [OF s(1)] ring_system_rg [OF t(1)]
    by (auto simp: records_def intro!: exI [of _ es])
qed

lemma meanwhile_same [simp]:
  "pwcm_pwc (meanwhile C st) = pwcm_pwc st" "pwcm_command (meanwhile C st) = pwcm_command st"
  "pwcm_header_valid (meanwhile C st) = pwcm_header_valid st"
  "pwcm_context (meanwhile C st) = pwcm_context st" "pwcm_data_block (meanwhile C st) = pwcm_data_block st"
  using quiet by (auto simp: quiet_def meanwhile_def split: prod.splits)

lemma look:
  "control_call C (\<lambda>p. Done (f p) p) st = Done (f (pwcm_pwc st)) (meanwhile C st)"
  using quiet by (simp add: control_call_def quiet_def)

lemma write_records:
  assumes u: "in_use nb n st" and N: "unat (w_buf_next (data_ring st)) + length d < 2 ^ 64 - 1"
  shows "sleeps_only (\<lambda>st'. slow_reader (data_ring st')) (data_call C (ipcio_write d) st) \<and>
    (\<forall>k st'. data_call C (ipcio_write d) st = Done k st' \<longrightarrow>
       k = length d \<and> records st d st' \<and> same_client st st' \<and> pwcm_context st' = pwcm_context st)"
proof -
  let ?st = "meanwhile C st"
  have r: "records st [] ?st" by (rule meanwhile_records [OF u])
  from records_in_use [OF r u] obtain s where s: "ring_system ?st = Some s" "io_shape nb n s" and nb: "unat nb \<le> 32767"
    by (auto simp: in_use_def)
  then obtain h where h: "pwcm_data_block ?st = Some h" "wr s = h" "rg s = data_ring ?st"
    by (auto simp: ring_system_def)
  have N': "unat (w_buf_next (rg s)) + length d < 2 ^ 64 - 1"
  proof -
    have "unat (w_buf_next (data_ring ?st)) \<le> unat (w_buf_next (data_ring st))"
      using r by (auto simp: records_def)
    then show ?thesis using N h(3) by simp
  qed
  have e: "data_call C (ipcio_write d) st = map_outcome id (\<lambda>(h, r). ?st\<lparr>pwcm_data_block := Some h, data_ring := r\<rparr>)
      (ipcio_write d (wr s, rg s))"
    using h by (simp add: data_call_def Let_def)
  have 1: "sleeps_only (\<lambda>st'. slow_reader (data_ring st')) (data_call C (ipcio_write d) st)"
    using write_slow [OF s(2) nb N'] unfolding e by (cases "ipcio_write d (wr s, rg s)") (auto split: prod.splits)
  have 2: "k = length d \<and> records st d st' \<and> same_client st st' \<and> pwcm_context st' = pwcm_context st"
    if d: "data_call C (ipcio_write d) st = Done k st'" for k st'
  proof -
    from d obtain h' r' where w: "ipcio_write d (wr s, rg s) = Done k (h', r')"
      and st': "st' = ?st\<lparr>pwcm_data_block := Some h', data_ring := r'\<rparr>"
      unfolding e by (auto simp: map_outcome_Done)
    note W = write_step [OF s(2) N' w]
    have "ring_system st' = Some (s\<lparr>wr := h', rg := r'\<rparr>)"
      using s(1) h by (auto simp: ring_system_def st')
    moreover have "run io_step s [Wrote d] (s\<lparr>wr := h', rg := r'\<rparr>)"
      by (rule run_Cons [where t = "s\<lparr>wr := h', rg := r'\<rparr>"]) (rule W(2), rule run.run_Nil)
    ultimately have "records ?st d st'"
      using s(1) W(3) h(3) by (auto simp: records_def st' intro!: exI [of _ "[Wrote d]"])
    with r W(1) show ?thesis
      using records_trans by (fastforce simp: same_client_def st')
  qed
  from 1 2 show ?thesis by blast
qed

end

text \<open>The loop is on its way to the transit byte \<open>N\<close>.\<close>

definition going :: "u64 \<Rightarrow> 'v copy_vars_scheme \<Rightarrow> ('c, readers) dada_pwc_main_t \<Rightarrow> bool" where
  "going N v st \<longleftrightarrow> transit_byte v = N \<and> total_bytes_written v < N \<and> bytes_to_write v = N - total_bytes_written v \<and>
     utc_start_set v \<and> error_state v \<le> 1 \<and> pwcm_header_valid st \<noteq> 0 \<and> pwcm_data_block st \<noteq> None \<and>
     unat (w_buf_next (data_ring st)) + unat (N - total_bytes_written v) < 2 ^ 64 - 1"

context recorder
begin

text \<open>A turn that fetches a buffer records all of it, or as much as is left to the transit byte.\<close>

lemma fetch_records:
  assumes u: "in_use nb n st" and g: "going N v st" and p: "productive fill (pwcm_pwc st)"
    and f: "fill (pwcm_pwc st) (pwcm_context st) = (d, m, c)"
    and k_def: "k = min m (unat (N - total_bytes_written v))"
  shows "sleeps_only (\<lambda>st'. slow_reader (data_ring st')) (fetch_buffer C v st) \<and>
    (\<forall>r st'. fetch_buffer C v st = Done r st' \<longrightarrow> (\<exists>v'. r = (True, v') \<and>
       records st (take k d) st' \<and> same_client st st' \<and> pwcm_context st' = c \<and>
       total_bytes_written v' = total_bytes_written v + of_nat k \<and>
       transit_byte v' = N \<and> bytes_to_write v' = N - total_bytes_written v' \<and>
       utc_start_set v' \<and> error_state v' \<le> 1))"
proof -
  from p f have m: "0 < m" "m \<le> length d" "m < 2 ^ 63" by (auto simp: productive_def)
  let ?st = "st\<lparr>pwcm_context := c\<rparr>"
  let ?left = "N - total_bytes_written v"
  from g have less: "total_bytes_written v < N" and b: "bytes_to_write v = ?left" "transit_byte v = N"
    by (simp_all add: going_def)
  have N0: "N \<noteq> 0" using less by auto
  have left0: "?left \<noteq> 0" using less by auto
  have m64: "unat (of_nat m :: u64) = m" using m(3) by simp
  define w where "w = (if (of_nat m :: u64) > ?left then ?left else of_nat m)"
  have kw: "unat w = k"
    unfolding k_def w_def using m64 by (auto simp: word_less_nat_alt)
  have k0: "0 < k" "k \<le> length d" unfolding k_def using m left0 by (auto simp: unat_gt_0)
  have wk: "w = of_nat k" by (simp flip: kw)
  have w0: "w \<noteq> 0" using kw k0 by auto
  define v1 where "v1 = v\<lparr>buffer_ptr := Some (d, 0), buffer_size := int m, error_state := 0\<rparr>"
  have call: "call (buffer_function C) st = Done (Some d, int m) ?st"
    using delivers f p by (auto simp: delivers_def call_def)
  have u': "in_use nb n ?st" using u by (simp add: in_use_def ring_system_def)
  have rec: "records st e st'" if "records ?st e st'" for e st'
    using that by (simp add: records_def ring_system_def)
  have valid: "header_now_valid C ?st = Done () ?st"
    using g by (simp add: header_now_valid_def going_def)
  have db: "pwcm_data_block ?st \<noteq> None" using g by (simp add: going_def)
  have piece: "copy_piece C v1 ?st = andthen (write_piece C True (Some (d, 0)) w ?st) (\<lambda>_.
      Done (v1\<lparr>buf_bytes := w, total_bytes_written := total_bytes_written v + w, bytes_to_write := ?left - w\<rparr>))"
    using b left0 g valid db N0 by (auto simp: copy_piece_def v1_def w_def going_def Let_def)
  have wd: "write_data C (Some (d, 0)) w ?st = data_call C (ipcio_write (take k d)) ?st"
    using k0 kw w0 by (simp add: write_data_def)
  have lk: "length (take k d) = k" using k0 by simp
  have kl: "k \<le> unat ?left" by (simp add: k_def)
  have N: "unat (w_buf_next (data_ring ?st)) + length (take k d) < 2 ^ 64 - 1"
    using g kl lk by (simp add: going_def)
  note W = write_records [OF u' N]
  have fetch: "fetch_buffer C v st = andthen (copy_piece C v1 ?st) (\<lambda>v. Done (True, v))"
    using m(1) call g by (simp add: fetch_buffer_def v1_def Let_def)
  have wp: "write_piece C True (Some (d, 0)) w ?st =
      andthen (fail_as DADA_ERROR_FATAL (data_call C (ipcio_write (take k d)) ?st)) (\<lambda>j st.
        if j < k then Err DADA_ERROR_FATAL st else Done () st)"
    by (simp add: write_piece_def wd kw)
  show ?thesis
  proof (intro conjI allI impI)
    show "sleeps_only (\<lambda>st'. slow_reader (data_ring st')) (fetch_buffer C v st)"
      unfolding fetch piece wp using W by (auto simp: k0 intro!: sleeps_only_andthen)
  next
    fix r st' assume "fetch_buffer C v st = Done r st'"
    then obtain j where j: "data_call C (ipcio_write (take k d)) ?st = Done j st'"
      and r: "r = (True, v1\<lparr>buf_bytes := w, total_bytes_written := total_bytes_written v + w, bytes_to_write := ?left - w\<rparr>)"
      unfolding fetch piece wp by (auto simp: outcome_simps split: if_splits)
    show "\<exists>v'. r = (True, v') \<and> records st (take k d) st' \<and> same_client st st' \<and> pwcm_context st' = c \<and>
       total_bytes_written v' = total_bytes_written v + of_nat k \<and>
       transit_byte v' = N \<and> bytes_to_write v' = N - total_bytes_written v' \<and> utc_start_set v' \<and> error_state v' \<le> 1"
      using W j rec g by (auto simp: r v1_def wk b going_def same_client_def)
  qed
qed

end

definition undisturbed :: "('c, 'w) dada_pwc_main_t \<Rightarrow> bool" where
  "undisturbed st \<longleftrightarrow> code (command (pwcm_pwc st)) = dada_pwc_no_command \<and> \<not> pwc_quit (pwcm_pwc st)"

text \<open>A turn after the commands were looked at, and the turns that follow.\<close>

definition rest_of_turn :: "('c, 'w) client \<Rightarrow> nat \<Rightarrow> 'v copy_vars_scheme \<Rightarrow> ('c, 'w) dada_pwc_main_t \<Rightarrow>
    (unit, ('c, 'w) dada_pwc_main_t) outcome" where
  "rest_of_turn C f v st = andthen (fetch_buffer C v st) (\<lambda>(go, v) st.
     if \<not> go then Done () st
     else andthen (copy_transit C v st) (\<lambda>(go, v) st. if go then copy_loop C f v st else Done () st))"

context recorder
begin

lemma turn_after_command:
  assumes "\<not> pwc_quit (pwcm_pwc st)" "error_state v \<le> 1" "transit_byte v' = 0 \<or> bytes_to_write v' \<noteq> 0"
    "take_command C True v (meanwhile C st) = Done v' st'"
  shows "copy_loop C (Suc f) v st = rest_of_turn C f v' st'"
proof -
  have "quit_asked C st = Done False (meanwhile C st)"
    using assms(1) look [of pwc_quit] by (simp add: quit_asked_def)
  with assms(2-4) show ?thesis
    by (auto simp: copy_turn_def rest_of_turn_def andthen_assoc intro!: andthen_cong)
qed

lemma turn_undisturbed:
  assumes g: "going N v st" and q: "undisturbed st"
  shows "copy_loop C (Suc f) v st = rest_of_turn C f v (meanwhile C (meanwhile C st))"
proof (rule turn_after_command)
  show "take_command C True v (meanwhile C st) = Done v (meanwhile C (meanwhile C st))"
    using q look [of dada_pwc_command_check] by (simp add: take_command_def undisturbed_def dada_pwc_command_check_def)
qed (use g q in \<open>auto simp: going_def undisturbed_def\<close>)

text \<open>One turn on the way to the transit byte: it sleeps, or records what it fetched.\<close>

lemma turn_records:
  fixes v :: "'v copy_vars_scheme"
  assumes u: "in_use nb n st" and g: "going N v st" and p: "productive fill (pwcm_pwc st)"
    and f: "fill (pwcm_pwc st) (pwcm_context st) = (d, m, c)"
    and left: "left = unat (N - total_bytes_written v)" and k: "k = min m left"
  shows "(\<exists>st'. rest_of_turn C f v st = Wait st' \<and> slow_reader (data_ring st')) \<or>
    (\<exists>(v' :: 'v copy_vars_scheme) st'. records st (take k d) st' \<and> same_client st st' \<and> pwcm_context st' = c \<and>
       unat (total_bytes_written v') + (left - k) = unat N \<and> transit_byte v' = N \<and>
       (k < left \<longrightarrow> going N v' st') \<and>
       rest_of_turn C f v st = andthen (copy_transit C v' st') (\<lambda>(go, v) st.
         if go then copy_loop C f v st else Done () st))"
proof -
  note F = fetch_records [OF u g p f k [unfolded left]]
  show ?thesis
  proof (cases "fetch_buffer C v st")
    case (Done r st')
    then obtain v' :: "'v copy_vars_scheme" where r: "r = (True, v')" and rec: "records st (take k d) st'"
      and same: "same_client st st'" and c: "pwcm_context st' = c"
      and tot: "total_bytes_written v' = total_bytes_written v + of_nat k"
      and v': "transit_byte v' = N" "bytes_to_write v' = N - total_bytes_written v'" "utc_start_set v'"
        "error_state v' \<le> 1"
      using conjunct2 [OF F] by blast
    have tl: "total_bytes_written v < N" using g by (simp add: going_def)
    then have leftN: "left = unat N - unat (total_bytes_written v)" "unat (total_bytes_written v) < unat N"
      by (simp_all add: left unat_sub [OF less_imp_le] word_less_nat_alt)
    have "m \<le> length d" using p f unfolding productive_def by blast
    then have kl: "k \<le> left" "k \<le> length d" by (simp_all add: k)
    have ut: "unat (total_bytes_written v') = unat (total_bytes_written v) + k"
      unfolding tot using leftN kl unat_u64_bound [of N] by (intro unat_add_of_nat) simp
    have "going N v' st'" if "k < left"
    proof -
      have lt: "total_bytes_written v' < N" using that ut leftN by (simp add: word_less_nat_alt)
      then have "unat (N - total_bytes_written v') = left - k"
        using ut leftN by (simp add: unat_sub [OF less_imp_le])
      moreover have "unat (w_buf_next (data_ring st')) \<le> unat (w_buf_next (data_ring st)) + k"
        using rec kl by (auto simp: records_def)
      ultimately show ?thesis
        using g same v' lt kl by (auto simp: going_def same_client_def left)
    qed
    then show ?thesis
      using rec same c ut leftN kl v' Done r
      by (intro disjI2 exI [of _ v'] exI [of _ st']) (simp add: rest_of_turn_def)
  qed (use conjunct1 [OF F] in \<open>auto simp: rest_of_turn_def\<close>)
qed

text \<open>
  All turns up to the transit byte: enough turns reach it, unless the client sleeps for a slow
  reader, and then exactly the bytes up to it were recorded.
\<close>

lemma reaches_transit:
  fixes v :: "'v copy_vars_scheme"
  assumes "in_use nb n st" "going N v st" "productive fill (pwcm_pwc st)" "undisturbed st"
    "left = unat (N - total_bytes_written v)"
  shows "(\<exists>st'. rest_of_turn C f v st = Wait st' \<and> (slow_reader (data_ring st') \<or> Suc f < left)) \<or>
    (\<exists>k (v1 :: 'v copy_vars_scheme) st1 m. left \<le> length (produced fill (pwcm_pwc st) k (pwcm_context st)) \<and>
      records st (take left (produced fill (pwcm_pwc st) k (pwcm_context st))) st1 \<and> same_client st st1 \<and>
      total_bytes_written v1 = N \<and> transit_byte v1 = N \<and>
      rest_of_turn C f v st =
        andthen (copy_transit C v1 st1) (\<lambda>(go, v) st. if go then copy_loop C m v st else Done () st))"
    (is "?sleeps f v st left \<or> ?reaches f v st left")
  using assms
proof (induction f arbitrary: v st left rule: less_induct)
  case (less f)
  note u = less.prems(1) and g = less.prems(2) and p = less.prems(3) and q = less.prems(4) and left = less.prems(5)
  let ?p = "pwcm_pwc st" and ?c = "pwcm_context st"
  obtain d m c where f: "fill ?p ?c = (d, m, c)" by (cases "fill ?p ?c")
  from p f have m: "0 < m" "m \<le> length d" by (auto simp: productive_def)
  define k where "k = min m left"
  consider (slow) st' where "rest_of_turn C f v st = Wait st'" "slow_reader (data_ring st')"
    | (turn) v' :: "'v copy_vars_scheme" and st' where "records st (take k d) st'" "same_client st st'"
      "pwcm_context st' = c" "unat (total_bytes_written v') + (left - k) = unat N" "transit_byte v' = N"
      "k < left \<longrightarrow> going N v' st'"
      "rest_of_turn C f v st = andthen (copy_transit C v' st') (\<lambda>(go, v) st.
         if go then copy_loop C f v st else Done () st)"
    using turn_records [OF u g p f left k_def, of f] by blast
  then show ?case
  proof cases
    case slow
    then show ?thesis by blast
  next
    case (turn v' st')
    have st: "pwcm_pwc st' = ?p" using turn(2) by (simp add: same_client_def)
    show ?thesis
    proof (cases "left \<le> m")
      case True
      then have "total_bytes_written v' = N"
        using turn(4) by (intro unsigned_word_eqI) (simp add: k_def)
      moreover have "left \<le> length (produced fill ?p (Suc 0) ?c)" "take left (produced fill ?p (Suc 0) ?c) = take k d"
        using True m f by (simp_all add: k_def)
      ultimately have "?reaches f v st left"
        using turn by (intro exI [of _ "Suc 0"] exI [of _ v'] exI [of _ st'] exI [of _ f])
          (simp del: produced.simps)
      then show ?thesis ..
    next
      case False
      then have km: "k = m" and g2: "going N v' st'" using turn(6) by (simp_all add: k_def)
      have lt: "total_bytes_written v' < N" using g2 by (simp add: going_def)
      have left': "unat (N - total_bytes_written v') = left - m"
        using turn(4) km unat_sub [OF less_imp_le [OF lt]] by simp
      have "copy_transit C v' st' = Done (True, v') st'"
        using lt turn(5) by (auto simp: copy_transit_def transit_now_def)
      then have loop: "rest_of_turn C f v st = copy_loop C f v' st'" using turn(7) by simp
      show ?thesis
      proof (cases f)
        case 0
        then show ?thesis using loop False m(1) by simp
      next
        case (Suc e)
        let ?st = "meanwhile C (meanwhile C st')"
        have u1: "in_use nb n st'" by (rule records_in_use [OF turn(1) u])
        note r1 = meanwhile_records [OF u1]
        have r2: "records st' [] ?st"
          using records_trans [OF r1 meanwhile_records [OF records_in_use [OF r1 u1]]] by simp
        have "unat (w_buf_next (data_ring ?st)) \<le> unat (w_buf_next (data_ring st'))"
          using r2 by (auto simp: records_def)
        then have g3: "going N v' ?st" using g2 by (simp add: going_def)
        have q3: "undisturbed st'" using q st by (simp add: undisturbed_def)
        have loop: "rest_of_turn C f v st = rest_of_turn C e v' ?st"
          using loop turn_undisturbed [OF g2 q3] by (simp add: Suc)
        have "?sleeps e v' ?st (left - m) \<or> ?reaches e v' ?st (left - m)"
          using less.IH [OF _ records_in_use [OF r2 u1] g3] p q st left' Suc
          by (simp add: undisturbed_def)
        then show ?thesis
        proof
          assume "?sleeps e v' ?st (left - m)"
          then show ?thesis using loop m(1) Suc by auto
        next
          assume "?reaches e v' ?st (left - m)"
          then obtain j st1 i and v1 :: "'v copy_vars_scheme" where R:
            "left - m \<le> length (produced fill ?p j c)"
            "records ?st (take (left - m) (produced fill ?p j c)) st1" "same_client ?st st1"
            "total_bytes_written v1 = N" "transit_byte v1 = N"
            "rest_of_turn C e v' ?st = andthen (copy_transit C v1 st1)
               (\<lambda>(go, v) st. if go then copy_loop C i v st else Done () st)"
            using turn(3) by (auto simp: st)
          have "take left (produced fill ?p (Suc j) ?c) = take k d @ take (left - m) (produced fill ?p j c)"
            using f m(2) False by (simp add: km)
          then have "records st (take left (produced fill ?p (Suc j) ?c)) st1"
            using records_trans [OF turn(1) records_trans [OF r2 R(2)]] by simp
          moreover have "left \<le> length (produced fill ?p (Suc j) ?c)" using R(1) f m(2) by simp
          moreover have "same_client st st1" using turn(2) R(3) by (simp add: same_client_def)
          ultimately have "?reaches f v st left"
            using R(4-6) loop by (intro exI [of _ "Suc j"] exI [of _ v1] exI [of _ st1] exI [of _ i])
              (simp del: produced.simps)
          then show ?thesis ..
        qed
      qed
    qed
  qed
qed

end

section \<open>Reaching the transit byte\<close>

text \<open>The mailbox after the client took the command.\<close>

definition answered :: "dada_pwc \<Rightarrow> dada_pwc" where
  "answered p = p\<lparr>command := (command p)\<lparr>code := dada_pwc_no_command, byte_count := 0\<rparr>\<rparr>"

text \<open>The client is in the middle of a transfer.\<close>

definition transferring :: "'v copy_vars_scheme \<Rightarrow> ('c, 'w) dada_pwc_main_t \<Rightarrow> bool" where
  "transferring v st \<longleftrightarrow> utc_start_set v \<and> error_state v \<le> 1 \<and> pwcm_header_valid st \<noteq> 0 \<and>
     pwcm_data_block st \<noteq> None \<and> \<not> pwc_quit (pwcm_pwc st)"

context recorder
begin

lemma two_calls: "in_use nb n st \<Longrightarrow> records st [] (meanwhile C (meanwhile C st))"
  using records_trans [OF meanwhile_records meanwhile_records [OF records_in_use [OF meanwhile_records]], of nb n st nb n]
  by simp

lemma take_stop:
  assumes "code (command (pwcm_pwc st)) = dada_pwc_stop" "byte_count (command (pwcm_pwc st)) = N"
    "total_bytes_written v < N"
  shows "take_command C True v st =
    Done (v\<lparr>transit_byte := N, bytes_to_write := N - total_bytes_written v\<rparr>)
      ((meanwhile C (meanwhile C st))\<lparr>pwcm_pwc := answered (pwcm_pwc st), pwcm_command := command (pwcm_pwc st)\<rparr>)"
proof -
  have "control_call C dada_pwc_command_get (meanwhile C st) =
    Done (command (pwcm_pwc st)) ((meanwhile C (meanwhile C st))\<lparr>pwcm_pwc := answered (pwcm_pwc st)\<rparr>)"
    using assms(1) by (simp add: control_call_def dada_pwc_command_get_def answered_def Let_def)
  then show ?thesis
    using assms look [of dada_pwc_command_check]
    by (simp add: take_command_def dada_pwc_command_check_def schedule_def Let_def)
qed

lemma records_other [simp]:
  "records st d (st'\<lparr>pwcm_pwc := p, pwcm_command := c\<rparr>) = records st d st'"
  by (simp add: records_def ring_system_def)

lemma stop_records:
  fixes v :: "'v copy_vars_scheme"
  assumes u: "in_use nb n st" and t: "transferring v st" and p: "productive fill (answered (pwcm_pwc st))"
    and c: "code (command (pwcm_pwc st)) = dada_pwc_stop" "byte_count (command (pwcm_pwc st)) = N"
    and x: "xfer_pending_function C = None" and less: "total_bytes_written v < N"
    and left: "left = unat (N - total_bytes_written v)"
    and room: "unat (w_buf_next (data_ring st)) + left < 2 ^ 64 - 1"
  shows "(\<exists>st'. copy_loop C f v st = Wait st' \<and> (slow_reader (data_ring st') \<or> f < left)) \<or>
    (\<exists>k st'. copy_loop C f v st = Done () st' \<and>
      left \<le> length (produced fill (answered (pwcm_pwc st)) k (pwcm_context st)) \<and>
      records st (take left (produced fill (answered (pwcm_pwc st)) k (pwcm_context st))) st')"
proof (cases f)
  case 0
  have "0 < left" using less by (auto simp: left unat_gt_0)
  then show ?thesis using 0 by simp
next
  case (Suc e)
  let ?p = "answered (pwcm_pwc st)"
  let ?v = "v\<lparr>transit_byte := N, bytes_to_write := N - total_bytes_written v\<rparr>"
  define st1 where "st1 = (meanwhile C (meanwhile C (meanwhile C st)))
    \<lparr>pwcm_pwc := ?p, pwcm_command := command (pwcm_pwc st)\<rparr>"
  have r: "records st [] st1"
    using records_trans [OF meanwhile_records [OF u] two_calls [OF records_in_use [OF meanwhile_records [OF u] u]]]
    by (simp add: st1_def)
  have "unat (w_buf_next (data_ring st1)) \<le> unat (w_buf_next (data_ring st))"
    using r by (auto simp: records_def)
  then have g: "going N ?v st1" using t less room by (simp add: going_def transferring_def st1_def left)
  have s1: "pwcm_pwc st1 = ?p" "pwcm_context st1 = pwcm_context st" by (simp_all add: st1_def)
  have q: "undisturbed st1" using t by (simp add: undisturbed_def s1 answered_def transferring_def)
  have "copy_loop C f v st = rest_of_turn C e ?v st1"
    unfolding Suc using t less
    by (intro turn_after_command) (auto simp: transferring_def take_stop [OF _ _ less] c st1_def)
  moreover from reaches_transit [OF records_in_use [OF r u] g, of left e] p q
  have "(\<exists>st'. rest_of_turn C e ?v st1 = Wait st' \<and> (slow_reader (data_ring st') \<or> Suc e < left)) \<or>
    (\<exists>k (v1 :: 'v copy_vars_scheme) st2 m. left \<le> length (produced fill ?p k (pwcm_context st)) \<and>
      records st1 (take left (produced fill ?p k (pwcm_context st))) st2 \<and> same_client st1 st2 \<and>
      total_bytes_written v1 = N \<and> transit_byte v1 = N \<and>
      rest_of_turn C e ?v st1 =
        andthen (copy_transit C v1 st2) (\<lambda>(go, v) st. if go then copy_loop C m v st else Done () st))"
    by (simp add: s1 left)
  moreover have "copy_transit C v1 st2 = Done (False, v1) st2"
    if "same_client st1 st2" "total_bytes_written v1 = N" "transit_byte v1 = N" for v1 :: "'v copy_vars_scheme" and st2
  proof -
    have "N \<noteq> 0" using less by auto
    moreover have "code (pwcm_command st2) = dada_pwc_stop" using that(1) c by (simp add: same_client_def st1_def)
    ultimately show ?thesis using that x by (simp add: copy_transit_def transit_now_def change_state_def)
  qed
  ultimately show ?thesis using Suc records_trans [OF r] by fastforce
qed

lemma start_records:
  assumes u: "in_use nb n st" and q: "undisturbed st" and p: "productive fill (pwcm_pwc st)"
    and h: "pwcm_header_valid st \<noteq> 0" "pwcm_data_block st \<noteq> None" "header_text st = Some hdr"
      "ascii_header_get hdr ''UTC_START'' scanf_s = (j, Some start_time)" "start_time \<noteq> ''UNKNOWN''"
    and c: "code (pwcm_command st) = dada_pwc_start" "byte_count (pwcm_command st) = N" "N \<noteq> 0"
    and x: "new_xfer_function C = None" and room: "unat (w_buf_next (data_ring st)) + unat N < 2 ^ 64 - 1"
  shows "(\<exists>st'. dada_pwc_main_transfer_data C f st = Wait st' \<and> (slow_reader (data_ring st') \<or> f < unat N)) \<or>
    (\<exists>k st'. dada_pwc_main_transfer_data C f st = Err DADA_ERROR_HARD st' \<and>
      unat N \<le> length (produced fill (pwcm_pwc st) k (pwcm_context st)) \<and>
      records st (take (unat N) (produced fill (pwcm_pwc st) k (pwcm_context st))) st')"
proof -
  let ?v = "transfer_vars.extend \<lparr>total_bytes_written = 0, transit_byte = N, bytes_to_write = N,
    utc_start_set = True, buf_bytes = 0\<rparr> (copy_vars.fields None 0 0)"
  have eq: "dada_pwc_main_transfer_data C f st = copy_loop C f ?v st"
    using h c x by (simp add: dada_pwc_main_transfer_data_def transfer_start_def Let_def)
  have v: "total_bytes_written ?v = 0" "transit_byte ?v = N" "bytes_to_write ?v = N" "utc_start_set ?v"
    "error_state ?v = 0"
    by (simp_all add: transfer_vars.defs copy_vars.defs)
  have g0: "going N ?v st" using v h c room by (simp add: going_def word_gt_0)
  show ?thesis
  proof (cases f)
    case 0
    then show ?thesis using c eq by (simp add: unat_gt_0)
  next
    case (Suc e)
    let ?st = "meanwhile C (meanwhile C st)"
    note r = two_calls [OF u]
    have "unat (w_buf_next (data_ring ?st)) \<le> unat (w_buf_next (data_ring st))"
      using r by (auto simp: records_def)
    then have g: "going N ?v ?st" using g0 by (simp add: going_def)
    have "copy_loop C f ?v st = rest_of_turn C e ?v ?st"
      unfolding Suc by (rule turn_undisturbed [OF g0 q])
    moreover from reaches_transit [OF records_in_use [OF r u] g, of "unat N" e] p q v
    have "(\<exists>st'. rest_of_turn C e ?v ?st = Wait st' \<and> (slow_reader (data_ring st') \<or> Suc e < unat N)) \<or>
      (\<exists>k (v1 :: copy_vars) st2 m. unat N \<le> length (produced fill (pwcm_pwc st) k (pwcm_context st)) \<and>
        records ?st (take (unat N) (produced fill (pwcm_pwc st) k (pwcm_context st))) st2 \<and> same_client ?st st2 \<and>
        total_bytes_written v1 = N \<and> transit_byte v1 = N \<and>
        rest_of_turn C e ?v ?st =
          andthen (copy_transit C v1 st2) (\<lambda>(go, v) st. if go then copy_loop C m v st else Done () st))"
      by (simp add: undisturbed_def)
    moreover have "copy_transit C v1 st2 = Err DADA_ERROR_HARD st2"
      if "same_client ?st st2" "total_bytes_written v1 = N" "transit_byte v1 = N" for v1 :: copy_vars and st2
    proof -
      have "code (pwcm_command st2) = dada_pwc_start" using that(1) c by (simp add: same_client_def)
      then show ?thesis using that c by (simp add: copy_transit_def transit_now_def change_state_def)
    qed
    ultimately show ?thesis unfolding eq using Suc records_trans [OF r] by fastforce
  qed
qed

end

end
