(* ===== verification/Multi_Recording.thy ===== *)
theory Multi_Recording
  imports Pwc_Main_Multi Pwc_Recording
begin

text \<open>
  What a primary write client with several units records: up to the byte of a stop, every unit gets the same number of
  bytes, each from its own buffers. A unit is looked at as the data block of a client of Pwc_Recording.
\<close>

section \<open>Units\<close>

type_synonym 'c multi_state = "('c, nat \<Rightarrow> readers) dada_pwc_main_multi_t"

definition unit_view :: "nat \<Rightarrow> 'c multi_state \<Rightarrow> ('c, readers) dada_pwc_main_t" where
  "unit_view i st = \<lparr>pwcm_pwc = mm_pwc st, pwcm_data_block = Option.bind (unit_at i st) wu_data_block,
     pwcm_header_block = None, pwcm_context = mm_context st, pwcm_command = mm_command st, pwcm_header = None,
     pwcm_header_size = 0, pwcm_header_valid = mm_header_valid st, data_ring = data_rings st i,
     header_ring = header_rings st i, world = mm_world st i\<rparr>"

definition multi_readers_act :: "('c, nat \<Rightarrow> readers) multi_client \<Rightarrow> bool" where
  "multi_readers_act C \<longleftrightarrow> (\<forall>st i s. ring_system (unit_view i st) = Some s \<longrightarrow>
     (\<exists>es s'. ring_system (unit_view i (multi_meanwhile C st)) = Some s' \<and> run io_step s es s' \<and>
        list_all reader_event es))"

definition multi_quiet :: "('c, 'w) multi_client \<Rightarrow> bool" where
  "multi_quiet C \<longleftrightarrow> (\<forall>st. mm_pwc (multi_meanwhile C st) = mm_pwc st)"

text \<open>The buffer function gives a buffer to each unit, with \<open>n\<close> bytes of data, at least one.\<close>

type_synonym 'c multi_instrument = "dada_pwc \<Rightarrow> 'c \<Rightarrow> u8 list list \<times> nat \<times> 'c"

definition multi_productive :: "'c multi_instrument \<Rightarrow> nat \<Rightarrow> dada_pwc \<Rightarrow> bool" where
  "multi_productive fill u p \<longleftrightarrow> (\<forall>c bs n c'. fill p c = (bs, n, c') \<longrightarrow>
     0 < n \<and> n < 2 ^ 64 \<and> u \<le> length bs \<and> (\<forall>i < u. n \<le> length (bs ! i)))"

definition multi_delivers :: "('c, 'w) multi_client \<Rightarrow> 'c multi_instrument \<Rightarrow> bool" where
  "multi_delivers C fill \<longleftrightarrow> (\<exists>g. mc_buffer_function C = Some g \<and> (\<forall>st bs n c.
     fill (mm_pwc st) (mm_context st) = (bs, n, c) \<longrightarrow> g st = ((Some bs, of_nat n), st\<lparr>mm_context := c\<rparr>)))"

text \<open>The bytes of the next \<open>k\<close> buffers of unit \<open>i\<close>.\<close>

fun multi_produced :: "'c multi_instrument \<Rightarrow> dada_pwc \<Rightarrow> nat \<Rightarrow> 'c \<Rightarrow> nat \<Rightarrow> u8 list" where
  "multi_produced fill p 0 c i = []"
| "multi_produced fill p (Suc k) c i =
    (let (bs, n, c') = fill p c in take n (bs ! i) @ multi_produced fill p k c' i)"

definition units_in_use :: "(nat \<Rightarrow> u64) \<Rightarrow> (nat \<Rightarrow> nat) \<Rightarrow> 'c multi_state \<Rightarrow> bool" where
  "units_in_use nb n st \<longleftrightarrow> (\<forall>i < length (hdus st). in_use (nb i) (n i) (unit_view i st))"

definition units_record :: "'c multi_state \<Rightarrow> (nat \<Rightarrow> u8 list) \<Rightarrow> 'c multi_state \<Rightarrow> bool" where
  "units_record st d st' \<longleftrightarrow> length (hdus st') = length (hdus st) \<and>
     (\<forall>i < length (hdus st). records (unit_view i st) (d i) (unit_view i st'))"

definition same_multi :: "'c multi_state \<Rightarrow> 'c multi_state \<Rightarrow> bool" where
  "same_multi st st' \<longleftrightarrow> mm_pwc st' = mm_pwc st \<and> mm_command st' = mm_command st \<and>
     mm_header_valid st' = mm_header_valid st \<and> mm_context st' = mm_context st"

text \<open>Space for \<open>k\<close> more blocks in the life of each ring.\<close>

definition room :: "nat \<Rightarrow> 'c multi_state \<Rightarrow> bool" where
  "room k st \<longleftrightarrow> (\<forall>i < length (hdus st). unat (w_buf_next (data_rings st i)) + k < 2 ^ 64 - 1)"

definition slow_unit :: "'c multi_state \<Rightarrow> bool" where
  "slow_unit st \<longleftrightarrow> (\<exists>i < length (hdus st). slow_reader (data_rings st i))"

lemma units_record_trans:
  "units_record st d st' \<Longrightarrow> units_record st' e st'' \<Longrightarrow> units_record st (\<lambda>i. d i @ e i) st''"
  using records_trans unfolding units_record_def by fastforce

lemma units_record_cong:
  "units_record st d st' \<Longrightarrow> (\<And>i. i < length (hdus st) \<Longrightarrow> d i = e i) \<Longrightarrow> units_record st e st'"
  by (simp add: units_record_def)

lemma units_record_in_use: "units_record st d st' \<Longrightarrow> units_in_use nb n st \<Longrightarrow> units_in_use nb n st'"
  using records_in_use unfolding units_record_def units_in_use_def by fastforce

lemma units_record_room:
  assumes "units_record st d st'" "room k st" "\<And>i. i < length (hdus st) \<Longrightarrow> length (d i) + k' \<le> k"
  shows "room k' st'"
  unfolding room_def
proof (intro allI impI)
  fix i assume i: "i < length (hdus st')"
  with assms(1) have "unat (w_buf_next (data_rings st' i)) \<le> unat (w_buf_next (data_rings st i)) + length (d i)"
    by (auto simp: units_record_def records_def unit_view_def)
  moreover have "i < length (hdus st)" using assms(1) i by (simp add: units_record_def)
  ultimately show "unat (w_buf_next (data_rings st' i)) + k' < 2 ^ 64 - 1"
    using assms(2) assms(3) [of i] unfolding room_def by fastforce
qed

lemma same_multi_trans: "same_multi st st' \<Longrightarrow> same_multi st' st'' \<Longrightarrow> same_multi st st''"
  by (simp add: same_multi_def)

section \<open>Calls\<close>

lemma hdus_meanwhile [simp]: "hdus (multi_meanwhile C st) = hdus st"
  by (simp add: multi_meanwhile_def split: prod.splits)

lemma multi_meanwhile_same: "multi_quiet C \<Longrightarrow> same_multi st (multi_meanwhile C st)"
  by (auto simp: same_multi_def multi_quiet_def multi_meanwhile_def split: prod.splits)

lemma meanwhile_records_units:
  assumes "multi_readers_act C" "units_in_use nb n st"
  shows "units_record st (\<lambda>i. []) (multi_meanwhile C st)"
  unfolding units_record_def
proof (intro conjI allI impI)
  fix i assume "i < length (hdus st)"
  with assms(2) obtain s where s: "ring_system (unit_view i st) = Some s" "io_shape (nb i) (n i) s"
    by (auto simp: units_in_use_def in_use_def)
  with assms(1) obtain es s' where t: "ring_system (unit_view i (multi_meanwhile C st)) = Some s'"
    "run io_step s es s'" "list_all reader_event es" unfolding multi_readers_act_def by blast
  then show "records (unit_view i st) [] (unit_view i (multi_meanwhile C st))"
    using s reader_events_bytes [of es] reader_run_writer [OF t(2) s(2) t(3)]
      ring_system_rg [OF s(1)] ring_system_rg [OF t(1)]
    by (auto simp: records_def intro!: exI [of _ es])
qed simp

lemma view_after_call:
  assumes "unit_at i st = Some u"
  shows "unit_view j (set_unit i (u\<lparr>wu_data_block := Some h\<rparr>) (st\<lparr>data_rings := (data_rings st)(i := r)\<rparr>)) =
    (if j = i then (unit_view i st)\<lparr>pwcm_data_block := Some h, data_ring := r\<rparr> else unit_view j st)"
  using assms by (auto simp: unit_view_def set_unit_def unit_at_def split: if_splits)

lemma unit_write_records:
  assumes C: "multi_readers_act C" "multi_quiet C" and u: "units_in_use nb n st" and i: "i < length (hdus st)"
    and N: "unat (w_buf_next (data_rings st i)) + length d < 2 ^ 64 - 1"
  shows "sleeps_only slow_unit (unit_data_call C i (ipcio_write d) st) \<and>
    (\<forall>k st'. unit_data_call C i (ipcio_write d) st = Done k st' \<longrightarrow>
       k = length d \<and> units_record st ((\<lambda>j. [])(i := d)) st' \<and> same_multi st st')"
proof -
  let ?st = "multi_meanwhile C st"
  have r: "units_record st (\<lambda>j. []) ?st" by (rule meanwhile_records_units [OF C(1) u])
  have i': "i < length (hdus ?st)" using i by simp
  from units_record_in_use [OF r u] i' have "in_use (nb i) (n i) (unit_view i ?st)"
    unfolding units_in_use_def by blast
  then obtain s where s: "ring_system (unit_view i ?st) = Some s" "io_shape (nb i) (n i) s"
    and nb: "unat (nb i) \<le> 32767"
    by (auto simp: in_use_def)
  obtain h v where v: "unit_at i ?st = Some v" "wu_data_block v = Some h" and w: "wr s = h" "rg s = data_rings ?st i"
    using s(1) i by (auto simp: ring_system_def unit_view_def unit_at_def)
  have N': "unat (w_buf_next (rg s)) + length d < 2 ^ 64 - 1"
  proof -
    have "unat (w_buf_next (data_rings ?st i)) \<le> unat (w_buf_next (data_rings st i))"
      using r i by (auto simp: units_record_def records_def unit_view_def)
    then show ?thesis using N w(2) by simp
  qed
  let ?upd = "\<lambda>h r. set_unit i (v\<lparr>wu_data_block := Some h\<rparr>) (?st\<lparr>data_rings := (data_rings ?st)(i := r)\<rparr>)"
  have e: "unit_data_call C i (ipcio_write d) st = map_outcome id (\<lambda>(h, r). ?upd h r) (ipcio_write d (wr s, rg s))"
    using v w by (simp add: unit_data_call_def Let_def)
  have 1: "sleeps_only slow_unit (unit_data_call C i (ipcio_write d) st)"
    using write_slow [OF s(2) nb N'] i unfolding e
    by (cases "ipcio_write d (wr s, rg s)") (auto simp: slow_unit_def set_unit_def split: prod.splits)
  have 2: "k = length d \<and> units_record st ((\<lambda>j. [])(i := d)) st' \<and> same_multi st st'"
    if k: "unit_data_call C i (ipcio_write d) st = Done k st'" for k st'
  proof -
    from k obtain h' r' where x: "ipcio_write d (wr s, rg s) = Done k (h', r')" and st': "st' = ?upd h' r'"
      unfolding e by (auto simp: map_outcome_Done)
    note W = write_step [OF s(2) N' x]
    have view: "unit_view i st' = (unit_view i ?st)\<lparr>pwcm_data_block := Some h', data_ring := r'\<rparr>"
      using view_after_call [OF v(1)] by (simp add: st')
    have view_j: "unit_view j st' = unit_view j ?st" if "j \<noteq> i" for j
      using view_after_call [OF v(1)] that by (simp add: st')
    have len: "length (hdus st') = length (hdus ?st)" by (simp add: st' set_unit_def)
    have "ring_system (unit_view i st') = Some (s\<lparr>wr := h', rg := r'\<rparr>)"
      using s(1) by (auto simp: ring_system_def view)
    moreover have "run io_step s [Wrote d] (s\<lparr>wr := h', rg := r'\<rparr>)"
      by (rule run_Cons [where t = "s\<lparr>wr := h', rg := r'\<rparr>"]) (rule W(2), rule run.run_Nil)
    ultimately have "records (unit_view i ?st) d (unit_view i st')"
      using s(1) W(3) w(2) view by (auto simp: records_def unit_view_def intro!: exI [of _ "[Wrote d]"])
    moreover have "records (unit_view j ?st) [] (unit_view j st')" if "j < length (hdus st)" "j \<noteq> i" for j
      using units_record_in_use [OF r u] that view_j records_refl unfolding units_in_use_def by fastforce
    ultimately have "units_record ?st ((\<lambda>j. [])(i := d)) st'"
      using len by (auto simp: units_record_def)
    from units_record_trans [OF r this] have "units_record st ((\<lambda>j. [])(i := d)) st'"
      by (rule units_record_cong) auto
    moreover have "same_multi st st'"
      using multi_meanwhile_same [OF C(2), of st] by (auto simp: same_multi_def st' set_unit_def)
    ultimately show ?thesis using W(1) by simp
  qed
  from 1 2 show ?thesis by blast
qed

section \<open>A piece of every unit\<close>

lemma write_unit_piece_eq:
  assumes "utc_start_set v" "buffers v = Some bs" "i < length bs" "unat (buf_bytes v) \<le> length (bs ! i)"
  shows "write_unit_piece C v i st =
    andthen (fail_as DADA_ERROR_FATAL (unit_data_call C i (ipcio_write (take (unat (buf_bytes v)) (bs ! i))) st))
      (\<lambda>k st. if k < unat (buf_bytes v) then Err DADA_ERROR_FATAL st else Done () st)"
  using assms by (simp add: write_unit_piece_def unit_write_def)

lemma pieces_recorded:
  assumes C: "multi_readers_act C" "multi_quiet C"
    and v: "utc_start_set v" "buffers v = Some bs" "unat (buf_bytes v) = k"
    and b: "\<And>j. j < length (hdus st) \<Longrightarrow> j < length bs \<and> k \<le> length (bs ! j)"
  shows "units_in_use nb n st \<Longrightarrow> i + m = length (hdus st) \<Longrightarrow>
    (\<And>j. i \<le> j \<Longrightarrow> j < i + m \<Longrightarrow> unat (w_buf_next (data_rings st j)) + k < 2 ^ 64 - 1) \<Longrightarrow>
    sleeps_only slow_unit (for_loop i m (write_unit_piece C v) st) \<and>
    (\<forall>x st'. for_loop i m (write_unit_piece C v) st = Done x st' \<longrightarrow>
       units_record st (\<lambda>j. if i \<le> j then take k (bs ! j) else []) st' \<and> same_multi st st')"
  using b
proof (induction m arbitrary: i st)
  case 0
  then show ?case
    by (auto simp: units_record_def units_in_use_def same_multi_def intro!: records_refl)
next
  case (Suc m)
  let ?d = "take k (bs ! i)"
  have i: "i < length (hdus st)" using Suc.prems(2) by simp
  from Suc.prems(4) [OF i] have bi: "i < length bs" "k \<le> length (bs ! i)" by simp_all
  have lk: "length ?d = k" using bi by simp
  from Suc.prems(3) [of i] have N: "unat (w_buf_next (data_rings st i)) + length ?d < 2 ^ 64 - 1" using lk by simp
  note W = unit_write_records [OF C Suc.prems(1) i N]
  have eq: "write_unit_piece C v i st = andthen (fail_as DADA_ERROR_FATAL (unit_data_call C i (ipcio_write ?d) st))
      (\<lambda>j st. if j < k then Err DADA_ERROR_FATAL st else Done () st)"
    using write_unit_piece_eq [OF v(1,2) bi(1)] bi(2) v(3) by simp
  show ?case
  proof (cases "unit_data_call C i (ipcio_write ?d) st")
    case (Done j st1)
    with W lk have j: "j = k" and r: "units_record st ((\<lambda>j. [])(i := ?d)) st1" and s: "same_multi st st1" by simp_all
    have len: "length (hdus st1) = length (hdus st)" using r by (simp add: units_record_def)
    have N1: "unat (w_buf_next (data_rings st1 a)) + k < 2 ^ 64 - 1" if "Suc i \<le> a" "a < Suc i + m" for a
    proof -
      have "a < length (hdus st)" "a \<noteq> i" using that Suc.prems(2) by simp_all
      with r have "unat (w_buf_next (data_rings st1 a)) \<le> unat (w_buf_next (data_rings st a))"
        by (fastforce simp: units_record_def records_def unit_view_def)
      moreover have "unat (w_buf_next (data_rings st a)) + k < 2 ^ 64 - 1" using Suc.prems(3) [of a] that by simp
      ultimately show ?thesis by simp
    qed
    have IH: "sleeps_only slow_unit (for_loop (Suc i) m (write_unit_piece C v) st1) \<and>
      (\<forall>x st'. for_loop (Suc i) m (write_unit_piece C v) st1 = Done x st' \<longrightarrow>
         units_record st1 (\<lambda>j. if Suc i \<le> j then take k (bs ! j) else []) st' \<and> same_multi st1 st')"
      by (rule Suc.IH [OF units_record_in_use [OF r Suc.prems(1)]])
        (use Suc.prems(2,4) N1 len in simp_all)
    have eq2: "for_loop i (Suc m) (write_unit_piece C v) st = for_loop (Suc i) m (write_unit_piece C v) st1"
      using Done j by (simp add: eq)
    have "units_record st (\<lambda>j. if i \<le> j then take k (bs ! j) else []) st'"
      if "units_record st1 (\<lambda>j. if Suc i \<le> j then take k (bs ! j) else []) st'" for st'
      by (rule units_record_cong [OF units_record_trans [OF r that]]) (auto simp: not_less_eq_eq)
    then show ?thesis unfolding eq2 using IH same_multi_trans [OF s] by blast
  qed (use W eq in auto)
qed

text \<open>The loop is on its way to the transit byte \<open>N\<close>.\<close>

definition multi_going :: "u64 \<Rightarrow> 'v multi_vars_scheme \<Rightarrow> 'c multi_state \<Rightarrow> bool" where
  "multi_going N v st \<longleftrightarrow> transit_byte v = N \<and> total_bytes_written v < N \<and>
     bytes_to_write v = N - total_bytes_written v \<and> utc_start_set v \<and> mv_error_state v \<le> 1 \<and>
     mm_header_valid st \<noteq> 0 \<and> 0 < length (hdus st) \<and> room (unat (N - total_bytes_written v)) st"

lemma fetch_records_units:
  fixes v :: "'v multi_vars_scheme"
  assumes C: "multi_readers_act C" "multi_quiet C" "multi_delivers C fill"
    and u: "units_in_use nb n st" and g: "multi_going N v st"
    and p: "multi_productive fill (length (hdus st)) (mm_pwc st)"
    and f: "fill (mm_pwc st) (mm_context st) = (bs, m, c)"
    and k_def: "k = min m (unat (N - total_bytes_written v))"
  shows "sleeps_only slow_unit (fetch_buffers C v st) \<and>
    (\<forall>v' st'. fetch_buffers C v st = Done v' st' \<longrightarrow>
       units_record st (\<lambda>i. take k (bs ! i)) st' \<and> mm_pwc st' = mm_pwc st \<and> mm_command st' = mm_command st \<and>
       mm_header_valid st' \<noteq> 0 \<and> mm_context st' = c \<and>
       total_bytes_written v' = total_bytes_written v + of_nat k \<and> transit_byte v' = N \<and>
       bytes_to_write v' = N - total_bytes_written v' \<and> utc_start_set v' \<and> mv_error_state v' \<le> 1)"
proof -
  from p f have m: "0 < m" "m < 2 ^ 64" "length (hdus st) \<le> length bs" "\<And>i. i < length (hdus st) \<Longrightarrow> m \<le> length (bs ! i)"
    unfolding multi_productive_def by blast+
  let ?st = "st\<lparr>mm_context := c\<rparr>" and ?left = "N - total_bytes_written v"
  from g have less: "total_bytes_written v < N" and b: "bytes_to_write v = ?left" "transit_byte v = N"
    by (simp_all add: multi_going_def)
  have left0: "?left \<noteq> 0" "N \<noteq> 0" using less by auto
  have m64: "unat (of_nat m :: u64) = m" using m(2) by simp
  define w where "w = (if (of_nat m :: u64) > ?left then ?left else of_nat m)"
  have kw: "unat w = k" unfolding k_def w_def using m64 by (auto simp: word_less_nat_alt)
  have wk: "w = of_nat k" by (simp flip: kw)
  define v1 where "v1 = v\<lparr>buffers := Some bs, buffers_size := of_nat m, mv_error_state := 0, buf_bytes := w\<rparr>"
  have call: "multi_call (mc_buffer_function C) st = Done (Some bs, of_nat m) ?st"
    using C(3) f by (auto simp: multi_delivers_def multi_call_def)
  have m0: "(of_nat m :: u64) \<noteq> 0" using m64 m(1) by auto
  have view: "unit_view i ?st = (unit_view i st)\<lparr>pwcm_context := c\<rparr>" for i
    by (simp add: unit_view_def unit_at_def)
  have u': "units_in_use nb n ?st"
    using u by (simp add: units_in_use_def view in_use_def ring_system_def)
  have rec: "units_record st e st'" if "units_record ?st e st'" for e st'
    using that by (simp add: units_record_def view records_def ring_system_def)
  obtain u0 where u0: "unit_at 0 ?st = Some u0" "wu_data_block u0 \<noteq> None"
    using u g by (auto simp: units_in_use_def in_use_def ring_system_def unit_view_def unit_at_def multi_going_def)
  have eq: "fetch_buffers C v st = andthen (for_units (write_unit_piece C v1) ?st) (\<lambda>_.
      Done (v1\<lparr>total_bytes_written := total_bytes_written v + w, bytes_to_write := ?left - w\<rparr>))"
    using call m0 b left0 g u0
    by (auto simp: fetch_buffers_def multi_copy_piece_def multi_header_now_valid_def multi_going_def v1_def w_def Let_def)
  have kl: "k \<le> unat ?left" "k \<le> m" by (simp_all add: k_def)
  have N: "unat (w_buf_next (data_rings ?st j)) + k < 2 ^ 64 - 1" if "j < length (hdus st)" for j
    using g that kl unfolding multi_going_def room_def by fastforce
  have "j < length bs \<and> k \<le> length (bs ! j)" if "j < length (hdus ?st)" for j
    using that m(3) m(4) [of j] kl by simp
  from pieces_recorded [OF C(1,2), of v1 bs k ?st, OF _ _ _ this u', of 0 "length (hdus st)"] g kw N
  have W: "sleeps_only slow_unit (for_units (write_unit_piece C v1) ?st)"
    "\<And>x st'. for_units (write_unit_piece C v1) ?st = Done x st' \<Longrightarrow>
       units_record ?st (\<lambda>j. take k (bs ! j)) st' \<and> same_multi ?st st'"
    by (simp_all add: for_units_def v1_def multi_going_def)
  show ?thesis
  proof (intro conjI allI impI)
    show "sleeps_only slow_unit (fetch_buffers C v st)"
      unfolding eq using W(1) by (auto intro!: sleeps_only_andthen)
  qed (use W(2) rec g in \<open>auto simp: eq outcome_simps v1_def wk b same_multi_def multi_going_def\<close>)
qed

section \<open>The loop\<close>

definition multi_undisturbed :: "'c multi_state \<Rightarrow> bool" where
  "multi_undisturbed st \<longleftrightarrow> code (command (mm_pwc st)) = dada_pwc_no_command \<and> \<not> pwc_quit (mm_pwc st)"

definition rest_of_multi_turn :: "('c, 'w) multi_client \<Rightarrow> nat \<Rightarrow> 'v multi_vars_scheme \<Rightarrow>
    ('c, 'w) dada_pwc_main_multi_t \<Rightarrow> (unit, ('c, 'w) dada_pwc_main_multi_t) outcome" where
  "rest_of_multi_turn C f v st = andthen (fetch_buffers C v st) (\<lambda>v st.
     andthen (multi_transit C v st) (\<lambda>(go, v) st. if go then multi_loop C f v st else Done () st))"

lemma multi_look:
  assumes "multi_quiet C"
  shows "multi_control_call C (\<lambda>p. Done (f p) p) st = Done (f (mm_pwc st)) (multi_meanwhile C st)"
  using assms by (simp add: multi_control_call_def multi_quiet_def)

lemma multi_turn_after_command:
  assumes q: "multi_quiet C" and v: "\<not> pwc_quit (mm_pwc st)" "mv_error_state v \<le> 1"
    "transit_byte v' = 0 \<or> bytes_to_write v' \<noteq> 0" "multi_take_command C v (multi_meanwhile C st) = Done v' st'"
  shows "multi_loop C (Suc f) v st = rest_of_multi_turn C f v' st'"
proof -
  have "multi_quit_asked C st = Done False (multi_meanwhile C st)"
    using v(1) multi_look [OF q, of pwc_quit] by (simp add: multi_quit_asked_def)
  with v(2-4) show ?thesis
    by (auto simp: multi_turn_def rest_of_multi_turn_def andthen_assoc intro!: andthen_cong)
qed

lemma multi_turn_undisturbed:
  assumes C: "multi_quiet C" and g: "multi_going N v st" and q: "multi_undisturbed st"
  shows "multi_loop C (Suc f) v st = rest_of_multi_turn C f v (multi_meanwhile C (multi_meanwhile C st))"
proof (rule multi_turn_after_command [OF C])
  have "mm_pwc (multi_meanwhile C st) = mm_pwc st" using C by (simp add: multi_quiet_def)
  then show "multi_take_command C v (multi_meanwhile C st) = Done v (multi_meanwhile C (multi_meanwhile C st))"
    using q multi_look [OF C, of dada_pwc_command_check]
    by (simp add: multi_take_command_def multi_undisturbed_def dada_pwc_command_check_def)
qed (use g q in \<open>auto simp: multi_going_def multi_undisturbed_def\<close>)

lemma two_meanwhiles:
  assumes "multi_readers_act C" "multi_quiet C" "units_in_use nb n st"
  shows "units_record st (\<lambda>i. []) (multi_meanwhile C (multi_meanwhile C st))"
    "same_multi st (multi_meanwhile C (multi_meanwhile C st))"
proof -
  note r = meanwhile_records_units [OF assms(1,3)]
  show "units_record st (\<lambda>i. []) (multi_meanwhile C (multi_meanwhile C st))"
    using units_record_trans [OF r meanwhile_records_units [OF assms(1) units_record_in_use [OF r assms(3)]]] by simp
qed (rule same_multi_trans [OF multi_meanwhile_same multi_meanwhile_same], fact+)

text \<open>
  All turns up to the transit byte: enough turns reach it, unless the client sleeps for a slow reader of a unit, and
  then exactly the bytes up to it were recorded in every unit.
\<close>

lemma multi_reaches_transit:
  fixes v :: "'v multi_vars_scheme"
  assumes C: "multi_readers_act C" "multi_quiet C" "multi_delivers C fill"
  shows "units_in_use nb n st \<Longrightarrow> multi_going N v st \<Longrightarrow> multi_productive fill (length (hdus st)) (mm_pwc st) \<Longrightarrow>
    multi_undisturbed st \<Longrightarrow> left = unat (N - total_bytes_written v) \<Longrightarrow>
    (\<exists>st'. rest_of_multi_turn C f v st = Wait st' \<and> (slow_unit st' \<or> Suc f < left)) \<or>
    (\<exists>k (v1 :: 'v multi_vars_scheme) st1 m.
      (\<forall>i < length (hdus st). left \<le> length (multi_produced fill (mm_pwc st) k (mm_context st) i)) \<and>
      units_record st (\<lambda>i. take left (multi_produced fill (mm_pwc st) k (mm_context st) i)) st1 \<and>
      mm_pwc st1 = mm_pwc st \<and> mm_command st1 = mm_command st \<and>
      total_bytes_written v1 = N \<and> transit_byte v1 = N \<and>
      rest_of_multi_turn C f v st =
        andthen (multi_transit C v1 st1) (\<lambda>(go, v) st. if go then multi_loop C m v st else Done () st))"
    (is "_ \<Longrightarrow> _ \<Longrightarrow> _ \<Longrightarrow> _ \<Longrightarrow> _ \<Longrightarrow> ?sleeps f v st left \<or> ?reaches f v st left")
proof (induction f arbitrary: v st left rule: less_induct)
  case (less f)
  note u = less.prems(1) and g = less.prems(2) and p = less.prems(3) and q = less.prems(4) and left = less.prems(5)
  let ?p = "mm_pwc st" and ?c = "mm_context st" and ?u = "length (hdus st)"
  obtain bs m c where f: "fill ?p ?c = (bs, m, c)" by (cases "fill ?p ?c")
  from p f have m: "0 < m" "\<And>i. i < ?u \<Longrightarrow> m \<le> length (bs ! i)" unfolding multi_productive_def by blast+
  define k where "k = min m left"
  note F = fetch_records_units [OF C u g p f k_def [unfolded left]]
  have tl: "total_bytes_written v < N" using g by (simp add: multi_going_def)
  then have leftN: "left = unat N - unat (total_bytes_written v)" "unat (total_bytes_written v) < unat N"
    by (simp_all add: left unat_sub [OF less_imp_le] word_less_nat_alt)
  have kl: "k \<le> left" "k \<le> m" by (simp_all add: k_def)
  show ?case
  proof (cases "fetch_buffers C v st")
    case (Done v' st')
    note F = conjunct2 [OF F, rule_format, OF Done]
    then have rec: "units_record st (\<lambda>i. take k (bs ! i)) st'" and pw: "mm_pwc st' = ?p" "mm_command st' = mm_command st"
      and c: "mm_context st' = c" and tot: "total_bytes_written v' = total_bytes_written v + of_nat k"
      and v': "transit_byte v' = N" by blast+
    have len: "length (hdus st') = ?u" using rec by (simp add: units_record_def)
    have ut: "unat (total_bytes_written v') = unat (total_bytes_written v) + k"
      unfolding tot using leftN kl unat_u64_bound [of N] by (intro unat_add_of_nat) simp
    have eq: "rest_of_multi_turn C f v st = andthen (multi_transit C v' st') (\<lambda>(go, v) st.
        if go then multi_loop C f v st else Done () st)"
      by (simp add: rest_of_multi_turn_def Done)
    show ?thesis
    proof (cases "left \<le> m")
      case True
      then have "total_bytes_written v' = N" using ut leftN by (intro unsigned_word_eqI) (simp add: k_def)
      moreover have "left \<le> length (multi_produced fill ?p (Suc 0) ?c i)" if "i < ?u" for i
        using True f m(2) [OF that] by simp
      moreover have "units_record st (\<lambda>i. take left (multi_produced fill ?p (Suc 0) ?c i)) st'"
        by (rule units_record_cong [OF rec]) (use True f in \<open>simp add: k_def min_def\<close>)
      ultimately have "?reaches f v st left"
        using eq v' pw by (intro exI [of _ "Suc 0"] exI [of _ v'] exI [of _ st'] exI [of _ f])
          (simp del: multi_produced.simps)
      then show ?thesis ..
    next
      case False
      then have km: "k = m" by (simp add: k_def)
      have lt: "total_bytes_written v' < N" using ut leftN False km by (simp add: word_less_nat_alt)
      have left': "unat (N - total_bytes_written v') = left - m"
        using ut leftN km unat_sub [OF less_imp_le [OF lt]] by simp
      have "room (unat (N - total_bytes_written v')) st'"
        by (rule units_record_room [OF rec, of left]) (use g left left' False in \<open>auto simp: multi_going_def km\<close>)
      then have g2: "multi_going N v' st'" using F lt len g by (simp add: multi_going_def)
      have "multi_transit C v' st' = Done (True, v') st'" using lt v' by (auto simp: multi_transit_def)
      then have loop: "rest_of_multi_turn C f v st = multi_loop C f v' st'" using eq by simp
      show ?thesis
      proof (cases f)
        case 0
        then show ?thesis using loop False m(1) by simp
      next
        case (Suc e)
        let ?st = "multi_meanwhile C (multi_meanwhile C st')"
        have u1: "units_in_use nb n st'" by (rule units_record_in_use [OF rec u])
        note r2 = two_meanwhiles [OF C(1,2) u1]
        have "room (unat (N - total_bytes_written v')) ?st"
          by (rule units_record_room [OF r2(1), of "unat (N - total_bytes_written v')"])
            (use g2 in \<open>simp_all add: multi_going_def\<close>)
        then have g3: "multi_going N v' ?st" using g2 r2(2) by (simp add: multi_going_def same_multi_def)
        have q3: "multi_undisturbed st'" using q pw by (simp add: multi_undisturbed_def)
        have loop: "rest_of_multi_turn C f v st = rest_of_multi_turn C e v' ?st"
          using loop multi_turn_undisturbed [OF C(2) g2 q3] by (simp add: Suc)
        have st: "mm_pwc ?st = ?p" "mm_command ?st = mm_command st" "mm_context ?st = c" "length (hdus ?st) = ?u"
          using r2(2) pw c len by (simp_all add: same_multi_def)
        have "?sleeps e v' ?st (left - m) \<or> ?reaches e v' ?st (left - m)"
          using less.IH [OF _ units_record_in_use [OF r2(1) u1] g3] p q left' Suc
          unfolding st multi_undisturbed_def by simp
        then show ?thesis
        proof
          assume "?sleeps e v' ?st (left - m)"
          then show ?thesis using loop m(1) Suc by auto
        next
          assume "?reaches e v' ?st (left - m)"
          then obtain j st1 i and v1 :: "'v multi_vars_scheme" where R:
            "\<And>i. i < ?u \<Longrightarrow> left - m \<le> length (multi_produced fill ?p j c i)"
            "units_record ?st (\<lambda>i. take (left - m) (multi_produced fill ?p j c i)) st1"
            "mm_pwc st1 = ?p" "mm_command st1 = mm_command st" "total_bytes_written v1 = N" "transit_byte v1 = N"
            "rest_of_multi_turn C e v' ?st = andthen (multi_transit C v1 st1)
               (\<lambda>(go, v) st. if go then multi_loop C i v st else Done () st)"
            unfolding st by blast
          have "units_record st (\<lambda>i. take left (multi_produced fill ?p (Suc j) ?c i)) st1"
            by (rule units_record_cong [OF units_record_trans [OF rec units_record_trans [OF r2(1) R(2)]]])
              (use f m(2) False in \<open>simp add: km\<close>)
          moreover have "left \<le> length (multi_produced fill ?p (Suc j) ?c i)" if "i < ?u" for i
            using R(1) [OF that] f m(2) [OF that] by simp
          ultimately have "?reaches f v st left"
            using R(3-7) loop by (intro exI [of _ "Suc j"] exI [of _ v1] exI [of _ st1] exI [of _ i])
              (simp del: multi_produced.simps)
          then show ?thesis ..
        qed
      qed
    qed
  qed (use conjunct1 [OF F] in \<open>auto simp: rest_of_multi_turn_def\<close>)
qed

section \<open>A stop command\<close>

definition multi_transferring :: "'v multi_vars_scheme \<Rightarrow> 'c multi_state \<Rightarrow> bool" where
  "multi_transferring v st \<longleftrightarrow> utc_start_set v \<and> mv_error_state v \<le> 1 \<and> mm_header_valid st \<noteq> 0 \<and>
     0 < length (hdus st) \<and> \<not> pwc_quit (mm_pwc st)"

lemma multi_take_stop:
  assumes q: "multi_quiet C" and c: "code (command (mm_pwc st)) = dada_pwc_stop"
    "byte_count (command (mm_pwc st)) = N" "total_bytes_written v < N"
  shows "multi_take_command C v st =
    Done (v\<lparr>transit_byte := N, bytes_to_write := N - total_bytes_written v\<rparr>)
      ((multi_meanwhile C (multi_meanwhile C st))\<lparr>mm_pwc := answered (mm_pwc st), mm_command := command (mm_pwc st)\<rparr>)"
proof -
  have m: "mm_pwc (multi_meanwhile C st) = mm_pwc st" for st using q by (simp add: multi_quiet_def)
  have "multi_control_call C dada_pwc_command_get (multi_meanwhile C st) =
    Done (command (mm_pwc st)) ((multi_meanwhile C (multi_meanwhile C st))\<lparr>mm_pwc := answered (mm_pwc st)\<rparr>)"
    using c(1) m by (simp add: multi_control_call_def dada_pwc_command_get_def answered_def Let_def)
  then show ?thesis
    using c multi_look [OF q, of dada_pwc_command_check]
    by (simp add: multi_take_command_def dada_pwc_command_check_def schedule_def Let_def)
qed

lemma units_record_other [simp]:
  "units_record st d (st'\<lparr>mm_pwc := p, mm_command := c\<rparr>) = units_record st d st'"
  by (simp add: units_record_def records_def ring_system_def unit_view_def unit_at_def)

lemma multi_stop_records:
  fixes v :: "'v multi_vars_scheme"
  assumes C: "multi_readers_act C" "multi_quiet C" "multi_delivers C fill"
    and u: "units_in_use nb n st" and t: "multi_transferring v st"
    and p: "multi_productive fill (length (hdus st)) (answered (mm_pwc st))"
    and c: "code (command (mm_pwc st)) = dada_pwc_stop" "byte_count (command (mm_pwc st)) = N"
    and less: "total_bytes_written v < N" and left: "left = unat (N - total_bytes_written v)" and rm: "room left st"
  shows "(\<exists>st'. multi_loop C f v st = Wait st' \<and> (slow_unit st' \<or> f < left)) \<or>
    (\<exists>k st'. multi_loop C f v st = Done () st' \<and>
      (\<forall>i < length (hdus st). left \<le> length (multi_produced fill (answered (mm_pwc st)) k (mm_context st) i)) \<and>
      units_record st (\<lambda>i. take left (multi_produced fill (answered (mm_pwc st)) k (mm_context st) i)) st')"
proof (cases f)
  case 0
  have "0 < left" using less by (auto simp: left unat_gt_0)
  then show ?thesis using 0 by simp
next
  case (Suc e)
  let ?p = "answered (mm_pwc st)" and ?v = "v\<lparr>transit_byte := N, bytes_to_write := N - total_bytes_written v\<rparr>"
  define st1 where "st1 = (multi_meanwhile C (multi_meanwhile C (multi_meanwhile C st)))
    \<lparr>mm_pwc := ?p, mm_command := command (mm_pwc st)\<rparr>"
  note r1 = meanwhile_records_units [OF C(1) u]
  note r2 = two_meanwhiles [OF C(1,2) units_record_in_use [OF r1 u]]
  have r: "units_record st (\<lambda>i. []) st1"
    using units_record_trans [OF r1 r2(1)] by (simp add: st1_def)
  have s: "same_multi st (multi_meanwhile C (multi_meanwhile C (multi_meanwhile C st)))"
    by (rule same_multi_trans [OF multi_meanwhile_same [OF C(2)] r2(2)])
  have "room left st1" by (rule units_record_room [OF r rm]) simp
  then have g: "multi_going N ?v st1"
    using t less s by (simp add: multi_going_def multi_transferring_def st1_def left same_multi_def)
  have s1: "mm_pwc st1 = ?p" "mm_context st1 = mm_context st" "mm_command st1 = command (mm_pwc st)"
    "length (hdus st1) = length (hdus st)"
    using s by (simp_all add: st1_def same_multi_def)
  have q: "multi_undisturbed st1" using t by (simp add: multi_undisturbed_def s1 answered_def multi_transferring_def)
  have m: "mm_pwc (multi_meanwhile C st) = mm_pwc st" using C(2) by (simp add: multi_quiet_def)
  have eq: "multi_loop C f v st = rest_of_multi_turn C e ?v st1"
    unfolding Suc st1_def
    by (rule multi_turn_after_command [OF C(2)]) (use t less multi_take_stop [OF C(2), of "multi_meanwhile C st" N v] c m
      in \<open>auto simp: multi_transferring_def\<close>)
  from multi_reaches_transit [OF C units_record_in_use [OF r u] g, of left e] p q left
  have "(\<exists>st'. rest_of_multi_turn C e ?v st1 = Wait st' \<and> (slow_unit st' \<or> Suc e < left)) \<or>
    (\<exists>k (v1 :: 'v multi_vars_scheme) st2 m.
      (\<forall>i < length (hdus st). left \<le> length (multi_produced fill ?p k (mm_context st) i)) \<and>
      units_record st1 (\<lambda>i. take left (multi_produced fill ?p k (mm_context st) i)) st2 \<and>
      mm_command st2 = command (mm_pwc st) \<and> total_bytes_written v1 = N \<and> transit_byte v1 = N \<and>
      rest_of_multi_turn C e ?v st1 =
        andthen (multi_transit C v1 st2) (\<lambda>(go, v) st. if go then multi_loop C m v st else Done () st))"
    unfolding s1 by fastforce
  then show ?thesis
  proof (elim disjE exE conjE)
    fix k and v1 :: "'v multi_vars_scheme" and st2 m
    assume R: "\<forall>i < length (hdus st). left \<le> length (multi_produced fill ?p k (mm_context st) i)"
      "units_record st1 (\<lambda>i. take left (multi_produced fill ?p k (mm_context st) i)) st2"
      "mm_command st2 = command (mm_pwc st)" "total_bytes_written v1 = N" "transit_byte v1 = N"
      "rest_of_multi_turn C e ?v st1 =
        andthen (multi_transit C v1 st2) (\<lambda>(go, v) st. if go then multi_loop C m v st else Done () st)"
    have "multi_transit C v1 st2 = Done (False, v1\<lparr>transit_byte := 0\<rparr>) st2"
      using R(3-5) c by (simp add: multi_transit_def multi_change_state_def Let_def)
    then have "multi_loop C f v st = Done () st2" using eq R(6) by simp
    moreover have "units_record st (\<lambda>i. take left (multi_produced fill ?p k (mm_context st) i)) st2"
      using units_record_trans [OF r R(2)] by simp
    ultimately show ?thesis using R(1) by blast
  qed (simp_all only: eq, blast, use Suc in blast)
qed

section \<open>The rest of the buffers\<close>

text \<open>
  After a change between clocking and recording the rest of the buffers is written. A rest that is shorter than the
  piece before is taken for a failure: the client records it in the first unit and ends with \<open>DADA_ERROR_FATAL\<close>.
\<close>

lemma rest_ends_fatal:
  fixes v :: "'v multi_vars_scheme"
  assumes C: "multi_readers_act C" "multi_quiet C" and u: "units_in_use nb n st" "0 < length (hdus st)" "room k st"
    and v: "utc_start_set v" "buffers v = Some bs" "k = unat (buffers_size v - buf_bytes v)" "k < unat (buf_bytes v)"
    and b: "bs \<noteq> []" "unat (buf_bytes v) + k \<le> length (bs ! 0)"
  shows "case multi_write_rest C v st of
      Err e st' \<Rightarrow> e = DADA_ERROR_FATAL \<and>
        units_record st ((\<lambda>i. [])(0 := take k (drop (unat (buf_bytes v)) (bs ! 0)))) st'
    | Wait st' \<Rightarrow> slow_unit st'
    | _ \<Rightarrow> False"
proof -
  let ?d = "take k (drop (unat (buf_bytes v)) (bs ! 0))"
  have lk: "length ?d = k" using b by simp
  obtain m where m: "length (hdus st) = Suc m" using u(2) by (cases "length (hdus st)") auto
  obtain u0 where u0: "unit_at 0 st = Some u0" "wu_data_block u0 \<noteq> None"
    using u by (auto simp: units_in_use_def in_use_def ring_system_def unit_view_def unit_at_def)
  have N: "unat (w_buf_next (data_rings st 0)) + length ?d < 2 ^ 64 - 1"
    using u(2,3) lk by (simp add: room_def)
  note W = unit_write_records [OF C u(1,2) N]
  have w: "unit_write C (buffers v) (buf_bytes v) (buffers_size v - buf_bytes v) 0 st =
      unit_data_call C 0 (ipcio_write ?d) st"
    using v b by (simp add: unit_write_def)
  have "buf_bytes v \<noteq> 0" using v(4) by auto
  then have "multi_write_rest C v st = andthen (write_unit_rest C v 0 st) (\<lambda>x st.
      andthen (for_loop 1 m (write_unit_rest C v) st) (\<lambda>_. Done (v\<lparr>total_bytes_written := total_bytes_written v + buf_bytes v\<rparr>)))"
    using u0 by (auto simp: multi_write_rest_def for_units_def m andthen_assoc)
  moreover have "write_unit_rest C v 0 st = andthen (unsigned_count (unit_data_call C 0 (ipcio_write ?d) st))
      (\<lambda>j st. if j < unat (buf_bytes v) then Err DADA_ERROR_FATAL st else Done () st)"
    using v(1) w by (simp add: write_unit_rest_def)
  ultimately show ?thesis
    using W lk v(4) by (cases "unit_data_call C 0 (ipcio_write ?d) st") auto
qed

end
