(* ===== verification/Pwc_Demo.thy ===== *)
theory Pwc_Demo
  imports Pwc_Recording
begin

text \<open>
  src/apps/dada_pwc_demo.c: the repository's own primary write client, whose instrument is a buffer of one
  second of data, and a process that reads its data block. They provide the contract of \<open>recorder\<close>.
\<close>

section \<open>The callbacks\<close>

text \<open>
  The static buffer, and the clock: \<open>sleep\<close> lets time pass. \<open>fresh\<close> is what memory from \<open>realloc\<close>
  holds, the number of the bytes asked for being its argument.
\<close>

record pwc_demo =
  demo_buffer :: "u8 list"
  demo_clock :: int

definition fake_start_function :: "int \<Rightarrow> (int, pwc_demo, 'w) callback" where
  "fake_start_function t st =
    (let now = demo_clock (pwcm_context st)
     in if t > now
        then (t, st\<lparr>pwcm_context := (pwcm_context st)\<lparr>demo_clock := now + (t - now) mod 2 ^ 32\<rparr>\<rparr>)
        else (now, st))"

definition fake_buffer_function :: "(nat \<Rightarrow> u8 list) \<Rightarrow> (u8 list option \<times> int, pwc_demo, 'w) callback" where
  "fake_buffer_function fresh st =
    (let fake_buffer_size = sint (bytes_per_second (pwcm_pwc st));
         c = pwcm_context st; d = demo_buffer c;
         d = (if int (length d) < fake_buffer_size then d @ fresh (nat fake_buffer_size - length d) else d)
     in ((if d = [] then None else Some d, fake_buffer_size),
         st\<lparr>pwcm_context := c\<lparr>demo_buffer := d, demo_clock := demo_clock c + 1\<rparr>\<rparr>))"

definition fake_stop_function :: "(int, pwc_demo, 'w) callback" where
  "fake_stop_function st = (0, st)"

definition demo_client :: "(nat \<Rightarrow> u8 list) \<Rightarrow> (int \<Rightarrow> string) \<Rightarrow>
    ('w \<times> ring \<times> ring \<times> dada_pwc \<Rightarrow> 'w \<times> ring \<times> ring \<times> dada_pwc) \<Rightarrow> (pwc_demo, 'w) client" where
  "demo_client fresh strftime processes =
    \<lparr>start_function = Some fake_start_function, buffer_function = Some (fake_buffer_function fresh),
     block_function = None, stop_function = Some fake_stop_function, error_function = None,
     header_valid_function = None, xfer_pending_function = None, new_xfer_function = None,
     utc_string = strftime, others = processes\<rparr>"

section \<open>A reader\<close>

text \<open>Reader 0 reads \<open>m\<close> bytes, or acknowledges the end of a transfer; if it cannot it waits.\<close>

definition reader_turn :: "nat \<Rightarrow> readers \<times> ring \<times> ring \<times> dada_pwc \<Rightarrow> readers \<times> ring \<times> ring \<times> dada_pwc" where
  "reader_turn m = (\<lambda>((f, held), dr, hr, p).
     case io_exec (if ipcbuf_eod (f 0, dr) then Next 0 else Read 0 m)
            \<lparr>wr = IPCIO_INIT, rd = f, rg = dr, holds = held\<rparr> of
       None \<Rightarrow> ((f, held), dr, hr, p)
     | Some (e, s) \<Rightarrow> ((rd s, holds s), rg s, hr, p))"

section \<open>The contract\<close>

lemma reader_exec_wr:
  "io_exec (if b then Next i else Read i m) \<lparr>wr = h, rd = f, rg = r, holds = H\<rparr> =
    map_option (\<lambda>(e, s). (e, s\<lparr>wr := h\<rparr>))
      (io_exec (if b then Next i else Read i m) \<lparr>wr = h', rd = f, rg = r, holds = H\<rparr>)"
  by (auto split: option.splits)

lemma reader_exec_event:
  "io_exec (if b then Next i else Read i m) s = Some (e, s') \<Longrightarrow> reader_event e"
  by (auto split: if_splits option.splits)

lemma demo_readers_act: "readers_act (demo_client fresh strftime (reader_turn m))"
  unfolding readers_act_def
proof (intro allI impI)
  fix st :: "(pwc_demo, readers) dada_pwc_main_t" and s
  assume "ring_system st = Some s"
  then obtain h where h: "pwcm_data_block st = Some h"
    and s: "s = \<lparr>wr = h, rd = fst (world st), rg = data_ring st, holds = snd (world st)\<rparr>"
    by (auto simp: ring_system_def)
  obtain f H where w: "world st = (f, H)" by fastforce
  let ?C = "demo_client fresh strftime (reader_turn m)" and ?b = "ipcbuf_eod (f 0, data_ring st)"
  let ?s0 = "\<lparr>wr = IPCIO_INIT, rd = f, rg = data_ring st, holds = H\<rparr>"
  show "\<exists>es s'. ring_system (meanwhile ?C st) = Some s' \<and> run io_step s es s' \<and> list_all reader_event es"
  proof (cases "io_exec (if ?b then Next 0 else Read 0 m) ?s0")
    case None
    then have "ring_system (meanwhile ?C st) = Some s"
      using h by (simp add: meanwhile_def demo_client_def reader_turn_def w s ring_system_def del: io_exec.simps)
    then show ?thesis by (intro exI [of _ "[]"]) (auto intro: run.run_Nil)
  next
    case (Some x)
    obtain e t where x: "x = (e, t)" by fastforce
    from Some x have "io_exec (if ?b then Next 0 else Read 0 m) s = Some (e, t\<lparr>wr := h\<rparr>)"
      using reader_exec_wr [of ?b 0 m h f "data_ring st" H IPCIO_INIT] by (simp add: s w del: io_exec.simps)
    then have st: "io_step s e (t\<lparr>wr := h\<rparr>)" and ev: "reader_event e"
      using reader_exec_event by (auto simp: io_step_def simp del: io_exec.simps)
    have "ring_system (meanwhile ?C st) = Some (t\<lparr>wr := h\<rparr>)"
      using h Some x
      by (simp add: meanwhile_def demo_client_def reader_turn_def w ring_system_def del: io_exec.simps)
    moreover have "run io_step s [e] (t\<lparr>wr := h\<rparr>)"
      by (rule run_Cons [where t = "t\<lparr>wr := h\<rparr>"]) (rule st, rule run.run_Nil)
    ultimately show ?thesis using ev by (intro exI [of _ "[e]"]) auto
  qed
qed

lemma demo_quiet: "quiet (demo_client fresh strftime (reader_turn m))"
  by (auto simp: quiet_def meanwhile_def demo_client_def reader_turn_def split: prod.splits option.splits)

definition demo_fill :: "(nat \<Rightarrow> u8 list) \<Rightarrow> pwc_demo instrument" where
  "demo_fill fresh p c =
    (let n = unat (bytes_per_second p); d = demo_buffer c;
         d = (if length d < n then d @ fresh (n - length d) else d)
     in (d, n, c\<lparr>demo_buffer := d, demo_clock := demo_clock c + 1\<rparr>))"

lemma demo_delivers: "delivers (demo_client fresh strftime processes) (demo_fill fresh)"
proof -
  have "fake_buffer_function fresh st = ((Some d, int n), st\<lparr>pwcm_context := c\<rparr>)"
    if p: "productive (demo_fill fresh) (pwcm_pwc st)"
      and f: "demo_fill fresh (pwcm_pwc st) (pwcm_context st) = (d, n, c)"
    for st :: "(pwc_demo, 'a) dada_pwc_main_t" and d n c
  proof -
    let ?b = "bytes_per_second (pwcm_pwc st)"
    from p f have n: "0 < n" "n \<le> length d" "n < 2 ^ 63" unfolding productive_def by blast+
    have nb: "unat ?b = n" using f by (auto simp: demo_fill_def Let_def)
    then have sb: "sint ?b = int n" using n(3) sint_small [of ?b] by simp
    show ?thesis
      using f n(1,2) by (auto simp: fake_buffer_function_def demo_fill_def Let_def nb sb)
  qed
  then show ?thesis by (auto simp: delivers_def demo_client_def)
qed

interpretation demo: recorder "demo_client fresh strftime (reader_turn m)" "demo_fill fresh" for fresh strftime m
  by unfold_locales (rule demo_readers_act demo_quiet demo_delivers)+

end
