(* ===== verification/Main_Properties.thy ===== *)
theory Main_Properties
  imports Pwc_Demo
begin

text \<open>
  The properties of the primary write client's main loop: what a recording holds when it is stopped, how a
  recording with a duration ends, and what becomes of errors.
\<close>

section \<open>A concrete client\<close>

text \<open>
  The demo client, recording two bytes a second to a ring of two blocks of two bytes with one reader; its
  header has a start time.
\<close>

definition demo_command :: "dada_pwc_code \<Rightarrow> u64 \<Rightarrow> dada_pwc_command" where
  "demo_command c n = \<lparr>code = c, utc = 0, byte_count = n, cmd_header = None\<rparr>"

definition demo_control :: "dada_pwc_command \<Rightarrow> dada_pwc" where
  "demo_control c = \<lparr>pwc_quit = False, pwc_state = dada_pwc_recording, convert_to_bytes = True,
     bytes_per_second = 2, bits_per_sample = 8, byte_resolution = 1, utc_start = 0, command = c,
     pwc_header = [], header_size = 64\<rparr>"

definition demo_header_block :: "u8 list" where
  "demo_header_block = map of_char ''UTC_START 2024-01-01-00:00:00'' @ replicate 8 0"

definition demo_state :: "dada_pwc_command \<Rightarrow> dada_pwc_command \<Rightarrow> unit ipcio_ext sys \<Rightarrow>
    (pwc_demo, readers) dada_pwc_main_t" where
  "demo_state mail current s =
    \<lparr>pwcm_pwc = demo_control mail, pwcm_data_block = Some (wr s), pwcm_header_block = None,
     pwcm_context = \<lparr>demo_buffer = [], demo_clock = 0\<rparr>, pwcm_command = current, pwcm_header = Some 0,
     pwcm_header_size = 64, pwcm_header_valid = 1, data_ring = rg s,
     header_ring = (rg s)\<lparr>mem := (\<lambda>_. demo_header_block)\<rparr>, world = (rd s, holds s)\<rparr>"

definition demo_vars :: copy_vars where
  "demo_vars = \<lparr>total_bytes_written = 0, transit_byte = 0, bytes_to_write = 0, utc_start_set = True,
     buf_bytes = 0, buffer_ptr = None, buffer_size = 0, error_state = 0\<rparr>"

abbreviation demo_pwcm :: "(pwc_demo, readers) client" where
  "demo_pwcm \<equiv> demo_client (\<lambda>n. replicate n 7) (\<lambda>t. []) (reader_turn 2)"

abbreviation demo_bytes :: "pwc_demo instrument" where
  "demo_bytes \<equiv> demo_fill (\<lambda>n. replicate n 7)"

lemma demo_contract: "readers_act demo_pwcm" "quiet demo_pwcm" "delivers demo_pwcm demo_bytes"
  by (rule demo_readers_act demo_quiet demo_delivers)+

lemma demo_productive: "productive demo_bytes (demo_control c)" "productive demo_bytes (answered (demo_control c))"
  by (auto simp: productive_def demo_fill_def demo_control_def answered_def Let_def)

lemma demo_system: "ring_system (demo_state mail current s) = Some s"
  by (simp add: ring_system_def demo_state_def)

lemma demo_start:
  obtains s where "io_reachable 56026 2 2 1 [] s" "unat (w_buf_next (rg s)) \<le> 2"
proof -
  obtain s where s: "start_io 56026 2 2 1 = Some s" "io_rel s empty_stream (([], []), \<lambda>_. ([], []))" "nbufs (rg s) = 2"
    using start_io_rel [of 2 2 1 56026] by auto
  have "unat (w_buf_next (rg s)) \<le> 2"
    using writer_relD(6) [OF ring_relD(1), of s empty_stream] s(2,3)
    by (simp add: io_rel_def empty_stream_def)
  moreover have "io_reachable 56026 2 2 1 [] s"
    using s(1) by (auto simp: io_reachable_def intro: run.run_Nil)
  ultimately show thesis by (intro that)
qed

lemma no_bytes_written: "written [] = ([], [])"
  by (simp add: written_def)

section \<open>Recording\<close>

lemma reachable_in_use:
  assumes "io_reachable key nb bz n es s" "ring_system st = Some s" "unat nb \<le> 32767"
  shows "in_use nb n st"
  using assms io_reachable_shape by (auto simp: in_use_def)

text \<open>C34: the client is recording, \<open>total_bytes_written\<close> bytes of the transfer so far, when a stop command for byte
  \<open>N\<close> arrives. If the other processes only read, the instrument delivers, and no other command
  arrives, then \<open>dada_pwc_main_transfer_data\<close> puts exactly the next \<open>N - total_bytes_written\<close> bytes of the
  instrument into the transfer and returns 0. It makes at most a turn for each byte, and sleeps only for a
  reader that is behind by the whole ring or by eight transfers.\<close>

theorem dated_stop_exact:
  assumes "readers_act C" "quiet C" "delivers C fill" "xfer_pending_function C = None"
    and "io_reachable key nb bz n es s" "ring_system st = Some s" "unat nb \<le> 32767"
    and "transferring v st" "productive fill (answered (pwcm_pwc st))"
    and "code (command (pwcm_pwc st)) = dada_pwc_stop" "byte_count (command (pwcm_pwc st)) = N"
    and "total_bytes_written v < N" "left = unat (N - total_bytes_written v)"
    and "unat (w_buf_next (rg s)) + left < 2 ^ 64 - 1"
  shows "case copy_loop C f v st of
      Done u st' \<Rightarrow> \<exists>k fs s'. ring_system st' = Some s' \<and> io_reachable key nb bz n (es @ fs) s' \<and>
        left \<le> length (produced fill (answered (pwcm_pwc st)) k (pwcm_context st)) \<and>
        written (es @ fs) =
          add_bytes (take left (produced fill (answered (pwcm_pwc st)) k (pwcm_context st))) (written es)
    | Wait st' \<Rightarrow> slow_reader (data_ring st') \<or> f < left
    | _ \<Rightarrow> False"
proof -
  have rec: "recorder C fill" using assms(1-3) by (rule recorder.intro)
  have u: "in_use nb n st" by (rule reachable_in_use [OF assms(5-7)])
  have room: "unat (w_buf_next (data_ring st)) + left < 2 ^ 64 - 1"
    using assms(14) ring_system_rg [OF assms(6)] by simp
  from recorder.stop_records [OF rec u assms(8,9,10,11,4,12,13) room, of f]
  show ?thesis using records_written [OF _ assms(6,5)] by fastforce
qed

theorem dated_stop_exact_witness:
  "\<exists>s. case copy_loop demo_pwcm 3 demo_vars (demo_state (demo_command dada_pwc_stop 3) DADA_PWC_COMMAND_INIT s) of
      Done u st' \<Rightarrow> \<exists>fs s'. ring_system st' = Some s' \<and> io_reachable 56026 2 2 1 fs s' \<and>
        fst (written fs) = [] \<and> length (snd (written fs)) = 3
    | Wait st' \<Rightarrow> slow_reader (data_ring st')
    | _ \<Rightarrow> False"
proof -
  obtain s where s: "io_reachable 56026 2 2 1 [] s" "unat (w_buf_next (rg s)) \<le> 2" by (rule demo_start)
  let ?st = "demo_state (demo_command dada_pwc_stop 3) DADA_PWC_COMMAND_INIT s"
  have "transferring demo_vars ?st"
    by (simp add: transferring_def demo_vars_def demo_state_def demo_control_def)
  moreover have "productive demo_bytes (answered (pwcm_pwc ?st))"
    by (simp add: demo_state_def demo_productive)
  ultimately have "case copy_loop demo_pwcm 3 demo_vars ?st of
      Done u st' \<Rightarrow> \<exists>k fs s'. ring_system st' = Some s' \<and> io_reachable 56026 2 2 1 ([] @ fs) s' \<and>
        3 \<le> length (produced demo_bytes (answered (pwcm_pwc ?st)) k (pwcm_context ?st)) \<and>
        written ([] @ fs) =
          add_bytes (take 3 (produced demo_bytes (answered (pwcm_pwc ?st)) k (pwcm_context ?st))) (written [])
    | Wait st' \<Rightarrow> slow_reader (data_ring st') \<or> 3 < (3 :: nat)
    | _ \<Rightarrow> False"
    using s(2) demo_system [of "demo_command dada_pwc_stop 3" DADA_PWC_COMMAND_INIT s]
    by (intro dated_stop_exact [OF demo_contract _ s(1), where N = 3 and left = 3])
      (simp_all add: demo_client_def demo_state_def demo_control_def demo_command_def demo_vars_def)
  then show ?thesis
    using no_bytes_written by (intro exI [of _ s]) (fastforce simp: add_bytes_def split: outcome.splits)
qed

text \<open>C35: a start command may carry a duration. If a client told to record \<open>N\<close> bytes gets no other command, the
  recording has exactly \<open>N\<close> bytes when \<open>dada_pwc_main_transfer_data\<close> ends, but it ends with
  \<open>DADA_ERROR_HARD\<close>: the loop takes the end of the duration for an unexpected start command. It makes at most a turn
  for each byte and sleeps only for a slow reader.\<close>

theorem duration_ends_in_error:
  assumes "readers_act C" "quiet C" "delivers C fill" "new_xfer_function C = None"
    and "io_reachable key nb bz n es s" "ring_system st = Some s" "unat nb \<le> 32767"
    and "undisturbed st" "productive fill (pwcm_pwc st)" "pwcm_header_valid st \<noteq> 0"
    and "header_text st = Some t" "ascii_header_get t ''UTC_START'' scanf_s = (j, Some u)" "u \<noteq> ''UNKNOWN''"
    and "code (pwcm_command st) = dada_pwc_start" "byte_count (pwcm_command st) = N" "N \<noteq> 0"
    and "unat (w_buf_next (rg s)) + unat N < 2 ^ 64 - 1"
  shows "case dada_pwc_main_transfer_data C f st of
      Err e st' \<Rightarrow> e = DADA_ERROR_HARD \<and> (\<exists>k fs s'. ring_system st' = Some s' \<and>
        io_reachable key nb bz n (es @ fs) s' \<and>
        unat N \<le> length (produced fill (pwcm_pwc st) k (pwcm_context st)) \<and>
        written (es @ fs) =
          add_bytes (take (unat N) (produced fill (pwcm_pwc st) k (pwcm_context st))) (written es))
    | Wait st' \<Rightarrow> slow_reader (data_ring st') \<or> f < unat N
    | _ \<Rightarrow> False"
proof -
  have rec: "recorder C fill" using assms(1-3) by (rule recorder.intro)
  have u: "in_use nb n st" by (rule reachable_in_use [OF assms(5-7)])
  have db: "pwcm_data_block st \<noteq> None" using assms(6) by (auto simp: ring_system_def)
  have room: "unat (w_buf_next (data_ring st)) + unat N < 2 ^ 64 - 1"
    using assms(17) ring_system_rg [OF assms(6)] by simp
  from recorder.start_records [OF rec u assms(8-10) db assms(11-16,4) room, of f]
  show ?thesis using records_written [OF _ assms(6,5)] by fastforce
qed

theorem duration_ends_in_error_witness:
  "\<exists>s. case dada_pwc_main_transfer_data demo_pwcm 3
        (demo_state DADA_PWC_COMMAND_INIT (demo_command dada_pwc_start 3) s) of
      Err e st' \<Rightarrow> e = DADA_ERROR_HARD \<and> (\<exists>fs s'. ring_system st' = Some s' \<and>
        io_reachable 56026 2 2 1 fs s' \<and> fst (written fs) = [] \<and> length (snd (written fs)) = 3)
    | Wait st' \<Rightarrow> slow_reader (data_ring st')
    | _ \<Rightarrow> False"
proof -
  obtain s where s: "io_reachable 56026 2 2 1 [] s" "unat (w_buf_next (rg s)) \<le> 2" by (rule demo_start)
  let ?st = "demo_state DADA_PWC_COMMAND_INIT (demo_command dada_pwc_start 3) s"
  have h: "c_string demo_header_block = Some ''UTC_START 2024-01-01-00:00:00''"
    "ascii_header_get ''UTC_START 2024-01-01-00:00:00'' ''UTC_START'' scanf_s = (1, Some ''2024-01-01-00:00:00'')"
    "''2024-01-01-00:00:00'' \<noteq> ''UNKNOWN''"
    by code_simp+
  have "undisturbed ?st" "productive demo_bytes (pwcm_pwc ?st)"
    using demo_productive(1) by (simp_all add: undisturbed_def demo_state_def demo_control_def DADA_PWC_COMMAND_INIT_def)
  moreover have "header_text ?st = Some ''UTC_START 2024-01-01-00:00:00''"
    using h(1) by (simp add: header_text_def header_memory_def demo_state_def)
  ultimately have "case dada_pwc_main_transfer_data demo_pwcm 3 ?st of
      Err e st' \<Rightarrow> e = DADA_ERROR_HARD \<and> (\<exists>k fs s'. ring_system st' = Some s' \<and>
        io_reachable 56026 2 2 1 ([] @ fs) s' \<and>
        unat (3 :: u64) \<le> length (produced demo_bytes (pwcm_pwc ?st) k (pwcm_context ?st)) \<and>
        written ([] @ fs) =
          add_bytes (take (unat (3 :: u64)) (produced demo_bytes (pwcm_pwc ?st) k (pwcm_context ?st))) (written []))
    | Wait st' \<Rightarrow> slow_reader (data_ring st') \<or> 3 < unat (3 :: u64)
    | _ \<Rightarrow> False"
    using s(2) demo_system [of DADA_PWC_COMMAND_INIT "demo_command dada_pwc_start 3" s]
    by (intro duration_ends_in_error [OF demo_contract _ s(1) _ _ _ _ _ _ h(2,3), where N = 3])
      (simp_all add: demo_client_def demo_state_def demo_control_def demo_command_def)
  then show ?thesis
    using no_bytes_written by (intro exI [of _ s]) (fastforce simp: add_bytes_def split: outcome.splits)
qed

end
