(* ===== verification/Multi_Properties.thy ===== *)
theory Multi_Properties
  imports Multi_Recording Main_Properties
begin

text \<open>
  The properties of the primary write client with several units.
\<close>

section \<open>A concrete client\<close>

text \<open>Two units, each with a ring of two blocks of two bytes; the first gets bytes 7, the second bytes 8.\<close>

definition demo_units :: "(int \<Rightarrow> string) \<Rightarrow> (unit, nat \<Rightarrow> readers) multi_client" where
  "demo_units strftime =
    \<lparr>mc_start_function = Some (\<lambda>t st. (t, st)),
     mc_buffer_function = Some (\<lambda>st. ((Some [[7, 7], [8, 8]], 2), st)), mc_stop_function = Some (\<lambda>st. (0, st)),
     mc_error_function = None, mc_header_valid_function = None, mc_utc_string = strftime, mc_others = (\<lambda>x. x)\<rparr>"

definition demo_unit_bytes :: "unit multi_instrument" where
  "demo_unit_bytes p c = ([[7, 7], [8, 8]], 2, c)"

definition demo_units_state :: "dada_pwc_command \<Rightarrow> unit ipcio_ext sys \<Rightarrow> unit multi_state" where
  "demo_units_state mail s =
    \<lparr>mm_pwc = demo_control mail,
     hdus = replicate 2 \<lparr>wu_data_block = Some (wr s), wu_header_block = None, wu_header = None, wu_header_size = 0\<rparr>,
     mm_context = (), mm_command = DADA_PWC_COMMAND_INIT, mm_header_valid = 1, utc_buffer_literal = False,
     data_rings = (\<lambda>i. rg s), header_rings = (\<lambda>i. rg s), mm_world = (\<lambda>i. (rd s, holds s))\<rparr>"

definition demo_multi_vars :: multi_vars where
  "demo_multi_vars = \<lparr>total_bytes_written = 0, transit_byte = 0, bytes_to_write = 0, utc_start_set = True,
     buf_bytes = 0, buffers = None, buffers_size = 0, mv_error_state = 0\<rparr>"

lemma demo_units_contract:
  "multi_readers_act (demo_units t)" "multi_quiet (demo_units t)" "multi_delivers (demo_units t) demo_unit_bytes"
proof -
  have [simp]: "multi_meanwhile (demo_units t) st = st" for st :: "unit multi_state"
    by (simp add: multi_meanwhile_def demo_units_def)
  show "multi_readers_act (demo_units t)"
    unfolding multi_readers_act_def by (auto intro!: exI [of _ "[]"] run.run_Nil)
  show "multi_quiet (demo_units t)" by (simp add: multi_quiet_def)
  show "multi_delivers (demo_units t) demo_unit_bytes"
    by (auto simp: multi_delivers_def demo_units_def demo_unit_bytes_def)
qed

lemma demo_units_productive: "multi_productive demo_unit_bytes 2 p"
  by (auto simp: multi_productive_def demo_unit_bytes_def less_2_cases_iff)

lemma demo_unit_view:
  assumes "i < 2"
  shows "ring_system (unit_view i (demo_units_state mail s)) = Some s"
  using assms by (simp add: ring_system_def unit_view_def unit_at_def demo_units_state_def)

lemma demo_unit_produced: "i < 2 \<Longrightarrow> k \<le> length (multi_produced demo_unit_bytes p j c i) \<Longrightarrow>
    take k (multi_produced demo_unit_bytes p j c i) = replicate k (7 + of_nat i)"
proof -
  assume i: "i < 2" and k: "k \<le> length (multi_produced demo_unit_bytes p j c i)"
  have "multi_produced demo_unit_bytes p j c i = replicate (2 * j) (7 + of_nat i)"
    using i by (induction j) (auto simp: demo_unit_bytes_def less_2_cases_iff)
  then show ?thesis using k by simp
qed

section \<open>Recording in several units\<close>

text \<open>C38: the client with several units is recording when a stop command for byte \<open>N\<close> arrives. If the other processes
  only read, the instrument delivers a buffer for each unit, and no other command arrives, then
  \<open>dada_pwc_main_multi_transfer_data\<close> stops with each unit at the same byte: the transfer in the data block of every unit
  \<open>i\<close> got exactly the next \<open>N - total_bytes_written\<close> bytes of the instrument for \<open>i\<close>. The loop makes at most a turn for
  each byte and sleeps only for a slow reader of a unit.\<close>

theorem units_stop_at_same_byte:
  assumes "multi_readers_act C" "multi_quiet C" "multi_delivers C fill"
    and "\<forall>i < length (hdus st). io_reachable (key i) (nb i) (bz i) (n i) (es i) (s i) \<and>
      ring_system (unit_view i st) = Some (s i) \<and> unat (nb i) \<le> 32767 \<and>
      unat (w_buf_next (rg (s i))) + left < 2 ^ 64 - 1"
    and "multi_transferring v st" "multi_productive fill (length (hdus st)) (answered (mm_pwc st))"
    and "code (command (mm_pwc st)) = dada_pwc_stop" "byte_count (command (mm_pwc st)) = N"
    and "total_bytes_written v < N" "left = unat (N - total_bytes_written v)"
  shows "case multi_loop C f v st of
      Done u st' \<Rightarrow> \<exists>k. \<forall>i < length (hdus st). \<exists>fs s'. ring_system (unit_view i st') = Some s' \<and>
        io_reachable (key i) (nb i) (bz i) (n i) (es i @ fs) s' \<and>
        left \<le> length (multi_produced fill (answered (mm_pwc st)) k (mm_context st) i) \<and>
        written (es i @ fs) =
          add_bytes (take left (multi_produced fill (answered (mm_pwc st)) k (mm_context st) i)) (written (es i))
    | Wait st' \<Rightarrow> slow_unit st' \<or> f < left
    | _ \<Rightarrow> False"
proof -
  have u: "units_in_use nb n st"
    using assms(4) reachable_in_use unfolding units_in_use_def by blast
  have r: "room left st"
    unfolding room_def using assms(4) ring_system_rg by (fastforce simp: unit_view_def)
  from multi_stop_records [OF assms(1-3) u assms(5-10) r, of f] show ?thesis
  proof (elim disjE exE conjE)
    fix k st'
    assume e: "multi_loop C f v st = Done () st'"
      and l: "\<forall>i < length (hdus st). left \<le> length (multi_produced fill (answered (mm_pwc st)) k (mm_context st) i)"
      and d: "units_record st (\<lambda>i. take left (multi_produced fill (answered (mm_pwc st)) k (mm_context st) i)) st'"
    have "\<exists>fs s'. ring_system (unit_view i st') = Some s' \<and> io_reachable (key i) (nb i) (bz i) (n i) (es i @ fs) s' \<and>
        written (es i @ fs) =
          add_bytes (take left (multi_produced fill (answered (mm_pwc st)) k (mm_context st) i)) (written (es i))"
      if "i < length (hdus st)" for i
      using records_written [of "unit_view i st" _ "unit_view i st'"] d assms(4) that
      unfolding units_record_def by blast
    with l show ?thesis by (auto simp: e intro!: exI [of _ k])
  qed (simp_all)
qed

theorem units_stop_at_same_byte_witness:
  "\<exists>s. case multi_loop (demo_units (\<lambda>t. [])) 3 demo_multi_vars (demo_units_state (demo_command dada_pwc_stop 3) s) of
      Done u st' \<Rightarrow> \<forall>i < 2. \<exists>fs s'. ring_system (unit_view i st') = Some s' \<and> io_reachable 56026 2 2 1 fs s' \<and>
        written fs = ([], replicate 3 (7 + of_nat i))
    | Wait st' \<Rightarrow> slow_unit st'
    | _ \<Rightarrow> False"
proof -
  obtain s where s: "io_reachable 56026 2 2 1 [] s" "unat (w_buf_next (rg s)) \<le> 2" by (rule demo_start)
  let ?st = "demo_units_state (demo_command dada_pwc_stop 3) s" and ?C = "demo_units (\<lambda>t. [])"
  have h: "length (hdus ?st) = 2" "mm_pwc ?st = demo_control (demo_command dada_pwc_stop 3)"
    by (simp_all add: demo_units_state_def)
  have c: "code (command (mm_pwc ?st)) = dada_pwc_stop" "byte_count (command (mm_pwc ?st)) = 3"
    unfolding h(2) by (simp_all add: demo_control_def demo_command_def)
  have u: "\<forall>i < length (hdus ?st). io_reachable 56026 2 2 1 [] s \<and> ring_system (unit_view i ?st) = Some s \<and>
      unat (2 :: u64) \<le> 32767 \<and> unat (w_buf_next (rg s)) + 3 < 2 ^ 64 - 1"
    using s demo_unit_view [of _ "demo_command dada_pwc_stop 3" s] by (simp add: h)
  have "multi_transferring demo_multi_vars ?st"
    by (simp add: multi_transferring_def demo_multi_vars_def demo_units_state_def demo_control_def)
  moreover have "multi_productive demo_unit_bytes (length (hdus ?st)) (answered (mm_pwc ?st))"
    unfolding h by (rule demo_units_productive)
  ultimately have "case multi_loop ?C 3 demo_multi_vars ?st of
      Done u st' \<Rightarrow> \<exists>k. \<forall>i < length (hdus ?st). \<exists>fs s'. ring_system (unit_view i st') = Some s' \<and>
        io_reachable 56026 2 2 1 ([] @ fs) s' \<and>
        3 \<le> length (multi_produced demo_unit_bytes (answered (mm_pwc ?st)) k (mm_context ?st) i) \<and>
        written ([] @ fs) =
          add_bytes (take 3 (multi_produced demo_unit_bytes (answered (mm_pwc ?st)) k (mm_context ?st) i)) (written [])
    | Wait st' \<Rightarrow> slow_unit st' \<or> 3 < (3 :: nat)
    | _ \<Rightarrow> False"
    by (intro units_stop_at_same_byte [OF demo_units_contract u _ _ c]) (simp_all add: demo_multi_vars_def)
  then show ?thesis
    unfolding h(1) using demo_unit_produced [of _ 3] no_bytes_written
    by (intro exI [of _ s]) (fastforce simp: add_bytes_def split: outcome.splits)
qed

end
