(* ===== verification/Disk_Array.thy ===== *)
theory Disk_Array
  imports Dada_Prelude "HOL-Library.AList"
begin

text \<open>
  src/disk_array.c: the disks a client writes its files to. A file goes to the first disk with enough
  space; no two disks of an array are the same device. The file system beneath is the state of
  the calls open, write, lseek, close and remove that the sources make; how much space a disk has, which
  opens the system refuses and how many bytes a write accepts are a parameter.
\<close>

section \<open>Files\<close>

text \<open>
  Files with their contents, in the order they were created, and the open descriptors, each with its file and
  position.
\<close>

record file_system =
  dir :: "(string \<times> u8 list) list"
  descriptors :: "(string \<times> nat) option list"

datatype open_flag = O_CREAT | O_TRUNC | O_EXCL | O_DIRECT

text \<open>
  The system: block size and number of blocks (\<open>statvfs\<close>), block size and free blocks (\<open>statfs\<close>), the
  device (\<open>stat\<close>); opens refused for lack of permission, memory or a directory; and what \<open>write\<close> returns
  for a number of bytes, negative for an error.
\<close>

record os =
  statvfs :: "string \<Rightarrow> (u64 \<times> u64) option"
  statfs :: "file_system \<Rightarrow> string \<Rightarrow> (u64 \<times> u64) option"
  device_of :: "string \<Rightarrow> nat option"
  refuses :: "file_system \<Rightarrow> string \<Rightarrow> bool"
  accepts :: "file_system \<Rightarrow> int \<Rightarrow> nat \<Rightarrow> int"

text \<open>A new descriptor is the lowest one that is free.\<close>

fun free_descriptor :: "'a option list \<Rightarrow> nat" where
  "free_descriptor [] = 0"
| "free_descriptor (None # ds) = 0"
| "free_descriptor (Some d # ds) = Suc (free_descriptor ds)"

definition new_descriptor :: "string \<Rightarrow> file_system \<Rightarrow> int \<times> file_system" where
  "new_descriptor path fs =
    (let n = free_descriptor (descriptors fs)
     in (int n, fs\<lparr>descriptors := take n (descriptors fs) @ Some (path, 0) # drop (Suc n) (descriptors fs)\<rparr>))"

definition descriptor :: "int \<Rightarrow> file_system \<Rightarrow> (string \<times> nat) option" where
  "descriptor fd fs =
    (if 0 \<le> fd \<and> nat fd < length (descriptors fs) then descriptors fs ! nat fd else None)"

definition fs_open :: "os \<Rightarrow> string \<Rightarrow> open_flag set \<Rightarrow> file_system \<Rightarrow> int \<times> file_system" where
  "fs_open os path flags fs =
    (if refuses os fs path then (-1, fs)
     else case map_of (dir fs) path of
            None \<Rightarrow>
              (if O_CREAT \<in> flags then new_descriptor path (fs\<lparr>dir := dir fs @ [(path, [])]\<rparr>) else (-1, fs))
          | Some d \<Rightarrow>
              (if O_CREAT \<in> flags \<and> O_EXCL \<in> flags then (-1, fs)
               else new_descriptor path
                 (if O_TRUNC \<in> flags then fs\<lparr>dir := AList.update path [] (dir fs)\<rparr> else fs)))"

definition fs_close :: "int \<Rightarrow> file_system \<Rightarrow> int \<times> file_system" where
  "fs_close fd fs =
    (case descriptor fd fs of
       None \<Rightarrow> (-1, fs)
     | Some p \<Rightarrow> (0, fs\<lparr>descriptors := (descriptors fs)[nat fd := None]\<rparr>))"

text \<open>Bytes at a position of a file; a gap behind its end is filled with zeros.\<close>

definition write_at :: "nat \<Rightarrow> u8 list \<Rightarrow> u8 list \<Rightarrow> u8 list" where
  "write_at off d c = take off (c @ replicate (off - length c) 0) @ d @ drop (off + length d) c"

definition fs_write :: "os \<Rightarrow> int \<Rightarrow> u8 list \<Rightarrow> file_system \<Rightarrow> int \<times> file_system" where
  "fs_write os fd d fs =
    (case descriptor fd fs of
       None \<Rightarrow> (-1, fs)
     | Some (path, off) \<Rightarrow>
         (let k = accepts os fs fd (length d); n = min (nat k) (length d)
          in if k < 0 then (-1, fs)
             else (int n,
               fs\<lparr>dir := (case map_of (dir fs) path of
                           None \<Rightarrow> dir fs
                         | Some c \<Rightarrow> AList.update path (write_at off (take n d) c) (dir fs)),
                  descriptors := (descriptors fs)[nat fd := Some (path, off + n)]\<rparr>)))"

definition fs_seek_end :: "int \<Rightarrow> file_system \<Rightarrow> file_system" where
  "fs_seek_end fd fs =
    (case descriptor fd fs of
       None \<Rightarrow> fs
     | Some (path, off) \<Rightarrow>
         fs\<lparr>descriptors := (descriptors fs)[nat fd := Some (path,
           case map_of (dir fs) path of None \<Rightarrow> 0 | Some c \<Rightarrow> length c)]\<rparr>)"

definition fs_remove :: "string \<Rightarrow> file_system \<Rightarrow> file_system" where
  "fs_remove path fs = fs\<lparr>dir := filter (\<lambda>(p, c). p \<noteq> path) (dir fs)\<rparr>"

section \<open>The array\<close>

record disk =
  device :: nat
  path :: string
  f_bsize :: u64

record disk_array =
  disks :: "disk list"
  space :: u64
  overwrite :: bool

definition disk_array_create :: disk_array where
  "disk_array_create = \<lparr>disks = [], space = 0, overwrite = False\<rparr>"

text \<open>A NULL array is refused; what is left of an array that was destroyed is nothing.\<close>

definition disk_array_destroy :: "disk_array option \<Rightarrow> (unit, disk_array option) outcome" where
  "disk_array_destroy a = (if a = None then Err (-1) a else Done () None)"

definition disk_array_add :: "os \<Rightarrow> string \<Rightarrow> disk_array \<Rightarrow> (unit, disk_array) outcome" where
  "disk_array_add os p a =
    (case (statvfs os p, device_of os p) of
       (Some (bsize, blocks), Some dev) \<Rightarrow>
         (if \<exists>d \<in> set (disks a). device d = dev then Err (-1) a
          else Done () (a\<lparr>disks := disks a @ [\<lparr>device = dev, path = p, f_bsize = bsize\<rparr>],
                          space := space a + blocks * bsize\<rparr>))
     | _ \<Rightarrow> Err (-1) a)"

definition disk_array_set_overwrite :: "bool \<Rightarrow> disk_array \<Rightarrow> disk_array" where
  "disk_array_set_overwrite v a = a\<lparr>overwrite := v\<rparr>"

definition disk_array_get_total :: "disk_array \<Rightarrow> u64" where
  "disk_array_get_total a = space a"

definition get_available :: "os \<Rightarrow> file_system \<Rightarrow> string \<Rightarrow> u64" where
  "get_available os fs p = (case statfs os fs p of None \<Rightarrow> 0 | Some (bsize, bfree) \<Rightarrow> bfree * bsize)"

definition disk_array_get_available :: "os \<Rightarrow> file_system \<Rightarrow> disk_array \<Rightarrow> u64" where
  "disk_array_get_available os fs a = foldl (\<lambda>sum d. sum + get_available os fs (path d)) 0 (disks a)"

text \<open>
  The name becomes the full name, in a buffer of \<open>FILENAME_MAX\<close> characters; the result is also the block size of
  the disk, if a disk has enough space.
\<close>

definition FILENAME_MAX :: nat where
  "FILENAME_MAX = 4096"

fun open_first :: "os \<Rightarrow> disk list \<Rightarrow> string \<Rightarrow> u64 \<Rightarrow> open_flag set \<Rightarrow> file_system \<Rightarrow>
    (int \<times> string \<times> u64 option, file_system) outcome" where
  "open_first os [] name need flags fs = Done (-1, name, None) fs"
| "open_first os (d # ds) name need flags fs =
    (if get_available os fs (path d) > need then
       (let full = path d @ ''/'' @ name
        in if FILENAME_MAX \<le> length full then Crash
           else let (fd, fs) = fs_open os full flags fs in Done (fd, full, Some (f_bsize d)) fs)
     else open_first os ds name need flags fs)"

definition disk_array_open :: "os \<Rightarrow> disk_array \<Rightarrow> string \<Rightarrow> u64 \<Rightarrow> open_flag set \<Rightarrow> file_system \<Rightarrow>
    (int \<times> string \<times> u64 option, file_system) outcome" where
  "disk_array_open os a name need add_flags fs =
    open_first os (disks a) name need
      ({O_CREAT, O_TRUNC} \<union> add_flags \<union> (if overwrite a then {} else {O_EXCL})) fs"

definition disk_array_reopen :: "os \<Rightarrow> int \<Rightarrow> string \<Rightarrow> file_system \<Rightarrow> int \<times> file_system" where
  "disk_array_reopen os fd name fs =
    (let (r, fs) = fs_close fd fs
     in if r < 0 then (-1, fs)
        else let (fd, fs) = fs_open os name {} fs in (fd, fs_seek_end fd fs))"

section \<open>Its properties\<close>

text \<open>However disks are added to an array, with success or not, no two of its disks are the same device. A
  disk is refused exactly when the system does not know it or has it as a device of the array.\<close>

theorem devices_unique:
  "distinct (map device (disks (fold (\<lambda>p a. the (final_state (disk_array_add os p a))) ps disk_array_create))) \<and>
   (\<exists>c a'. disk_array_add os p a = Err c a') =
     (statvfs os p = None \<or> device_of os p = None \<or> the (device_of os p) \<in> device ` set (disks a))"
proof (intro conjI)
  have step: "distinct (map device (disks (the (final_state (disk_array_add os p a)))))"
    if "distinct (map device (disks a))" for p a
    using that by (auto simp: disk_array_add_def split: option.splits)
  have "distinct (map device (disks (fold (\<lambda>p a. the (final_state (disk_array_add os p a))) ps a)))"
    if "distinct (map device (disks a))" for a
    using that by (induction ps arbitrary: a) (auto intro: step)
  then show "distinct (map device (disks (fold (\<lambda>p a. the (final_state (disk_array_add os p a))) ps
      disk_array_create)))" by (simp add: disk_array_create_def)
  show "(\<exists>c a'. disk_array_add os p a = Err c a') =
     (statvfs os p = None \<or> device_of os p = None \<or> the (device_of os p) \<in> device ` set (disks a))"
    by (auto simp: disk_array_add_def split: option.splits)
qed

text \<open>A file is opened on the first disk with more space than it needs, and on no other.\<close>

lemma open_first_fit:
  "open_first os ds name need flags fs =
    (case find (\<lambda>d. get_available os fs (path d) > need) ds of
       None \<Rightarrow> Done (-1, name, None) fs
     | Some d \<Rightarrow>
         (let full = path d @ ''/'' @ name
          in if FILENAME_MAX \<le> length full then Crash
             else let (fd, fs) = fs_open os full flags fs in Done (fd, full, Some (f_bsize d)) fs))"
  by (induction ds) auto

end
