(* ===== verification/Dada_Client.thy ===== *)
theory Dada_Client
  imports Dada_Hdu
begin

text \<open>
  src/dada_client.c: the client that moves the data of one observation after another between a pair of rings
  and a target (a file, a socket, another ring) behind callback functions. A reader gets a header and
  then data from the rings and hands them to the target; a writer does the reverse.

  As in the primary write client, other processes act (\<open>processes\<close>) before each call of the client
  that looks at or changes a ring. Log, clock and \<open>quiet\<close> are left out.
\<close>

section \<open>The client\<close>

datatype direction = dada_client_undefined | dada_client_reader | dada_client_writer

text \<open>
  The header is a copy of its own or a sub-block of the header block. \<open>io_buffer\<close> is the static
  buffer of \<open>dada_client_io_loop\<close>, its length the static \<open>buffer_size\<close>. The last three fields are the rings
  and what the other processes know.
\<close>

datatype client_header = No_header | Copied "u8 list" | In_block nat

record ('c, 'w) dada_client_t =
  dc_data_block :: "ipcio option"
  dc_header_block :: "ipcbuf option"
  dc_context :: 'c
  dc_header :: client_header
  dc_header_size :: u64
  header_transfer :: bool
  direction :: direction
  fd :: int
  transfer_bytes :: u64
  optimal_bytes :: u64
  client_quit :: bool
  io_buffer :: "u8 list"
  dc_data_ring :: ring
  dc_header_ring :: ring
  dc_world :: 'w

text \<open>
  The callbacks; \<open>None\<close> is a NULL pointer. \<open>io_function\<close> is given the bytes it may use and leaves them with other
  values; \<open>io_block_function\<close> gets an address in the data block. \<open>fresh_memory\<close> is what allocated memory holds.
\<close>

type_synonym ('a, 'c, 'w) client_call =
  "('c, 'w) dada_client_t \<Rightarrow> ('a, ('c, 'w) dada_client_t) outcome"

record ('c, 'w) client_functions =
  open_function :: "(int, 'c, 'w) client_call option"
  io_function :: "(u8 list \<Rightarrow> (u8 list \<times> int, 'c, 'w) client_call) option"
  io_block_function :: "(address \<Rightarrow> u64 \<Rightarrow> u64 \<Rightarrow> (int, 'c, 'w) client_call) option"
  close_function :: "(u64 \<Rightarrow> (int, 'c, 'w) client_call) option"
  page_size :: u64
  fresh_memory :: "nat \<Rightarrow> u8 list"
  processes :: "'w \<times> ring \<times> ring \<Rightarrow> 'w \<times> ring \<times> ring"

definition dada_client_create :: "('c, 'w) dada_client_t \<Rightarrow> ('c, 'w) dada_client_t" where
  "dada_client_create junk = junk\<lparr>dc_data_block := None, dc_header_block := None,
     direction := dada_client_undefined, dc_header := No_header, dc_header_size := 0,
     header_transfer := True, fd := -1, transfer_bytes := 0, optimal_bytes := 0, client_quit := False\<rparr>"

text \<open>The header of a writer is memory that \<open>free\<close> does not know.\<close>

definition dada_client_destroy :: "('c, 'w) dada_client_t \<Rightarrow> (unit, ('c, 'w) dada_client_t) outcome" where
  "dada_client_destroy st =
    (case dc_header st of
       In_block b \<Rightarrow> Crash
     | _ \<Rightarrow> Done () (st\<lparr>dc_header := No_header\<rparr>))"

section \<open>Calls\<close>

definition others_act :: "('c, 'w) client_functions \<Rightarrow> ('c, 'w) dada_client_t \<Rightarrow> ('c, 'w) dada_client_t" where
  "others_act F st =
    (let (w, dr, hr) = processes F (dc_world st, dc_data_ring st, dc_header_ring st)
     in st\<lparr>dc_world := w, dc_data_ring := dr, dc_header_ring := hr\<rparr>)"

definition on_data_block :: "('c, 'w) client_functions \<Rightarrow> (ipcio \<times> ring \<Rightarrow> ('a, ipcio \<times> ring) outcome) \<Rightarrow>
    ('c, 'w) dada_client_t \<Rightarrow> ('a, ('c, 'w) dada_client_t) outcome" where
  "on_data_block F f st =
    (let st = others_act F st
     in case dc_data_block st of
          None \<Rightarrow> Crash
        | Some h \<Rightarrow> map_outcome id (\<lambda>(h, r). st\<lparr>dc_data_block := Some h, dc_data_ring := r\<rparr>)
            (f (h, dc_data_ring st)))"

definition on_header_block :: "('c, 'w) client_functions \<Rightarrow> (ipcbuf \<times> ring \<Rightarrow> ('a, ipcbuf \<times> ring) outcome) \<Rightarrow>
    ('c, 'w) dada_client_t \<Rightarrow> ('a, ('c, 'w) dada_client_t) outcome" where
  "on_header_block F f st =
    (let st = others_act F st
     in case dc_header_block st of
          None \<Rightarrow> Crash
        | Some h \<Rightarrow> map_outcome id (\<lambda>(h, r). st\<lparr>dc_header_block := Some h, dc_header_ring := r\<rparr>)
            (f (h, dc_header_ring st)))"

definition callback :: "('a, 'c, 'w) client_call option \<Rightarrow> ('c, 'w) dada_client_t \<Rightarrow>
    ('a, ('c, 'w) dada_client_t) outcome" where
  "callback f st = (case f of None \<Rightarrow> Crash | Some g \<Rightarrow> g st)"

definition io_call :: "('c, 'w) client_functions \<Rightarrow> u8 list \<Rightarrow> ('c, 'w) dada_client_t \<Rightarrow>
    (u8 list \<times> int, ('c, 'w) dada_client_t) outcome" where
  "io_call F d = callback (map_option (\<lambda>f. f d) (io_function F))"

definition data_ended :: "('c, 'w) client_functions \<Rightarrow> ('c, 'w) dada_client_t \<Rightarrow>
    (bool, ('c, 'w) dada_client_t) outcome" where
  "data_ended F = on_data_block F (\<lambda>s. Done (ipcbuf_eod s) s)"

section \<open>The copying loop\<close>

text \<open>How much to move in a turn: a buffer, or what is left to transfer.\<close>

definition piece_size :: "('c, 'w) dada_client_t \<Rightarrow> u64 \<Rightarrow> u64 \<Rightarrow> u64" where
  "piece_size st room sofar =
    (if transfer_bytes st = 0 then room
     else if room > transfer_bytes st - sofar then transfer_bytes st - sofar else room)"

definition io_done :: "('c, 'w) dada_client_t \<Rightarrow> u64 \<Rightarrow> bool" where
  "io_done st sofar \<longleftrightarrow> transfer_bytes st \<noteq> 0 \<and> transfer_bytes st \<le> sofar"

definition ensure_buffer :: "('c, 'w) client_functions \<Rightarrow> ('c, 'w) dada_client_t \<Rightarrow> ('c, 'w) dada_client_t" where
  "ensure_buffer F st =
    (if length (io_buffer st) = unat (optimal_bytes st) then st
     else st\<lparr>io_buffer := fresh_memory F (unat (optimal_bytes st))\<rparr>)"

text \<open>A turn gives the bytes moved, \<open>None\<close> for leaving the loop.\<close>

definition read_piece :: "('c, 'w) client_functions \<Rightarrow> u64 \<Rightarrow> ('c, 'w) dada_client_t \<Rightarrow>
    (u64 option, ('c, 'w) dada_client_t) outcome" where
  "read_piece F n st =
     andthen (data_ended F st) (\<lambda>ended st.
     if ended then Done None st
     else
       andthen (fail_as (-1) (on_data_block F (ipcio_read True (unat n)) st)) (\<lambda>(k, d) st.
       andthen (io_call F d st) (\<lambda>(d', res) st.
         let st = st\<lparr>io_buffer := d' @ drop k (io_buffer st)\<rparr>
         in Done (if res < 0 then None else Some (of_int res)) st)))"

definition write_piece_from :: "('c, 'w) client_functions \<Rightarrow> u64 \<Rightarrow> ('c, 'w) dada_client_t \<Rightarrow>
    (u64 option, ('c, 'w) dada_client_t) outcome" where
  "write_piece_from F n st =
     andthen (io_call F (take (unat n) (io_buffer st)) st) (\<lambda>(d', res) st.
       let st = st\<lparr>io_buffer := d' @ drop (unat n) (io_buffer st)\<rparr>
       in if res \<le> 0 then Done None st
          else if nat res > length (io_buffer st) then Crash
          else andthen (fail_as (-1) (on_data_block F (ipcio_write (take (nat res) (io_buffer st))) st)) (\<lambda>k.
            Done (Some (of_nat k))))"

definition io_turn :: "('c, 'w) client_functions \<Rightarrow> u64 \<Rightarrow> ('c, 'w) dada_client_t \<Rightarrow>
    (u64 option, ('c, 'w) dada_client_t) outcome" where
  "io_turn F n st =
    (case direction st of
       dada_client_undefined \<Rightarrow> Crash
     | dada_client_reader \<Rightarrow> read_piece F n st
     | dada_client_writer \<Rightarrow> write_piece_from F n st)"

text \<open>The loops are given a number of turns; \<open>Wait\<close> also means that more are needed.\<close>

fun io_loop :: "('c, 'w) client_functions \<Rightarrow> nat \<Rightarrow> u64 \<Rightarrow> ('c, 'w) dada_client_t \<Rightarrow>
    (int, ('c, 'w) dada_client_t) outcome" where
  "io_loop F 0 sofar st = Wait st"
| "io_loop F (Suc n) sofar st =
    (if io_done st sofar then Done (sint sofar) st
     else
       andthen (io_turn F (piece_size st (of_nat (length (io_buffer st))) sofar) st) (\<lambda>moved st.
       case moved of
         None \<Rightarrow> Done (sint sofar) st
       | Some k \<Rightarrow> io_loop F n (sofar + k) st))"

definition dada_client_io_loop :: "('c, 'w) client_functions \<Rightarrow> nat \<Rightarrow> ('c, 'w) dada_client_t \<Rightarrow>
    (int, ('c, 'w) dada_client_t) outcome" where
  "dada_client_io_loop F n st =
    (let st = ensure_buffer F st
     in if direction st = dada_client_undefined then Crash else io_loop F n 0 st)"

section \<open>The loop over blocks\<close>

definition operate :: "('c, 'w) client_functions \<Rightarrow> address \<Rightarrow> u64 \<Rightarrow> u64 \<Rightarrow> ('c, 'w) dada_client_t \<Rightarrow>
    (int, ('c, 'w) dada_client_t) outcome" where
  "operate F a n b st =
    (if n = 0 then Done 0 st else callback (map_option (\<lambda>f. f a n b) (io_block_function F)) st)"

text \<open>A turn gives the bytes moved and whether to go on; a failure to release a block is only noted.\<close>

definition read_block :: "('c, 'w) client_functions \<Rightarrow> ('c, 'w) dada_client_t \<Rightarrow>
    (u64 \<times> bool, ('c, 'w) dada_client_t) outcome" where
  "read_block F st =
     andthen (data_ended F st) (\<lambda>ended st.
     if ended then Done (0, False) st
     else
       andthen (fail_as (-1) (on_data_block F ipcio_open_block_read st)) (\<lambda>(a, n, b) st.
       andthen (operate F a n b st) (\<lambda>res st.
         if res < 0 then Done (0, False) st
         else andthen (ignore (on_data_block F (ipcio_close_block_read (of_int res)) st)) (\<lambda>_.
           Done (of_int res, True)))))"

definition write_block :: "('c, 'w) client_functions \<Rightarrow> u64 \<Rightarrow> u64 \<Rightarrow> ('c, 'w) dada_client_t \<Rightarrow>
    (u64 \<times> bool, ('c, 'w) dada_client_t) outcome" where
  "write_block F block_size n st =
     andthen (fail_as (-1) (on_data_block F ipcio_open_block_write st)) (\<lambda>(a, b) st.
     andthen (operate F a n b st) (\<lambda>res st.
       if res < 0 then Done (0, False) st
       else andthen (fail_as (-1) (on_data_block F (ipcio_close_block_write (of_int res)) st)) (\<lambda>_.
         Done (of_int res, \<not> of_int res < block_size))))"

fun block_io_loop :: "('c, 'w) client_functions \<Rightarrow> nat \<Rightarrow> u64 \<Rightarrow> u64 \<Rightarrow> ('c, 'w) dada_client_t \<Rightarrow>
    (int, ('c, 'w) dada_client_t) outcome" where
  "block_io_loop F 0 bz sofar st = Wait st"
| "block_io_loop F (Suc n) bz sofar st =
    (if io_done st sofar then Done (sint sofar) st
     else
       andthen
         (case direction st of
            dada_client_undefined \<Rightarrow> Crash
          | dada_client_reader \<Rightarrow> read_block F st
          | dada_client_writer \<Rightarrow> write_block F bz (piece_size st bz sofar) st) (\<lambda>(k, go) st.
       if go then block_io_loop F n bz (sofar + k) st else Done (sint (sofar + k)) st))"

definition dada_client_io_loop_block :: "('c, 'w) client_functions \<Rightarrow> nat \<Rightarrow> ('c, 'w) dada_client_t \<Rightarrow>
    (int, ('c, 'w) dada_client_t) outcome" where
  "dada_client_io_loop_block F n st =
    (if direction st = dada_client_undefined then Crash
     else andthen (on_data_block F (\<lambda>s. Done (ipcbuf_get_bufsz s) s) st) (\<lambda>bz. block_io_loop F n bz 0))"

section \<open>A transfer\<close>

text \<open>The header's memory, which a writer's target fills in place.\<close>

definition dc_header_memory :: "('c, 'w) dada_client_t \<Rightarrow> u8 list option" where
  "dc_header_memory st = (case dc_header st of
     No_header \<Rightarrow> None
   | Copied m \<Rightarrow> Some m
   | In_block b \<Rightarrow> Some (mem (dc_header_ring st) b))"

definition set_dc_header :: "u8 list \<Rightarrow> ('c, 'w) dada_client_t \<Rightarrow> ('c, 'w) dada_client_t" where
  "set_dc_header m st = (case dc_header st of
     No_header \<Rightarrow> st
   | Copied m' \<Rightarrow> st\<lparr>dc_header := Copied m\<rparr>
   | In_block b \<Rightarrow>
       st\<lparr>dc_header_ring := (dc_header_ring st)\<lparr>mem := (mem (dc_header_ring st))(b := m)\<rparr>\<rparr>)"

text \<open>The count the target returns is compared as an unsigned number.\<close>

definition transfer_header :: "('c, 'w) client_functions \<Rightarrow> ('c, 'w) dada_client_t \<Rightarrow>
    (unit, ('c, 'w) dada_client_t) outcome" where
  "transfer_header F st =
    (case dc_header_memory st of
       None \<Rightarrow> Crash
     | Some m \<Rightarrow>
         if dc_header_size st = 0 then Crash
         else if \<not> header_transfer st then Done () st
         else
           let n = dc_header_size st
           in if unat n > length m then Crash
              else andthen (io_call F (take (unat n) m) st) (\<lambda>(d, res) st.
                let st = set_dc_header (d @ drop (unat n) m) st
                in if of_int res < n then Err (-1) st else Done () st))"

definition post_header :: "('c, 'w) client_functions \<Rightarrow> ('c, 'w) dada_client_t \<Rightarrow>
    (unit, ('c, 'w) dada_client_t) outcome" where
  "post_header F st =
    (if direction st \<noteq> dada_client_writer then Done () st
     else
       andthen (fail_as (-1) (on_header_block F ipcbuf_enable_eod st)) (\<lambda>_ st.
       andthen (on_header_block F (\<lambda>s. Done (ipcbuf_get_bufsz s) s) st) (\<lambda>n st.
       fail_as (-1) (on_header_block F (ipcbuf_mark_filled n) st))))"

text \<open>The error code of a loop is a number like any other for the close function.\<close>

definition dada_client_transfer :: "('c, 'w) client_functions \<Rightarrow> nat \<Rightarrow> ('c, 'w) dada_client_t \<Rightarrow>
    (int, ('c, 'w) dada_client_t) outcome" where
  "dada_client_transfer F n st =
     andthen (callback (open_function F) st) (\<lambda>res st.
     if res < 0 then Err (-1) st
     else if client_quit st then Done 0 st
     else
       andthen (transfer_header F st) (\<lambda>_ st.
       andthen (post_header F st) (\<lambda>_ st.
       let st = (if optimal_bytes st = 0 then st\<lparr>optimal_bytes := page_size F * 128\<rparr> else st)
       in andthen (value_of (-1)
            (if io_block_function F \<noteq> None then dada_client_io_loop_block F n st
             else dada_client_io_loop F n st)) (\<lambda>moved st.
          andthen (callback (map_option (\<lambda>f. f (of_int moved)) (close_function F)) st) (\<lambda>res st.
          if res < 0 then Err (-1) st else Done moved st)))))"

section \<open>Reading\<close>

text \<open>The next header that is not empty; at the end of a transfer of headers the reader waits for the next.\<close>

fun client_header_loop :: "('c, 'w) client_functions \<Rightarrow> nat \<Rightarrow> ('c, 'w) dada_client_t \<Rightarrow>
    (read_ptr, ('c, 'w) dada_client_t) outcome" where
  "client_header_loop F 0 st = Wait st"
| "client_header_loop F (Suc n) st =
     andthen (fail_as (-3) (on_header_block F ipcbuf_get_next_read st)) (\<lambda>p st.
     if rp_bytes p \<noteq> 0 then Done p st
     else
       andthen (ignore (on_header_block F ipcbuf_mark_cleared st)) (\<lambda>_ st.
       andthen (on_header_block F (\<lambda>s. Done (ipcbuf_eod s) s) st) (\<lambda>ended st.
       if \<not> ended then Err (-1) st
       else andthen (ignore (on_header_block F ipcbuf_reset st)) (\<lambda>_. client_header_loop F n))))"

text \<open>The header is copied to memory of its own, the old one if it is large enough.\<close>

definition store_header :: "('c, 'w) client_functions \<Rightarrow> u64 \<Rightarrow> u8 list \<Rightarrow> ('c, 'w) dada_client_t \<Rightarrow>
    (unit, ('c, 'w) dada_client_t) outcome" where
  "store_header F n m st =
    (if n > dc_header_size st \<and> (case dc_header st of In_block b \<Rightarrow> True | _ \<Rightarrow> False) then Crash
     else
       let st = (if n > dc_header_size st
                 then st\<lparr>dc_header := Copied (fresh_memory F (unat n)), dc_header_size := n\<rparr> else st)
       in case dc_header_memory st of
            None \<Rightarrow> Crash
          | Some h \<Rightarrow>
              if unat n > length m \<or> unat n > length h then Crash
              else Done () (set_dc_header (take (unat n) m @ drop (unat n) h) st))"

definition get_header :: "('c, 'w) client_functions \<Rightarrow> nat \<Rightarrow> ('c, 'w) dada_client_t \<Rightarrow>
    (unit, ('c, 'w) dada_client_t) outcome" where
  "get_header F n st =
     andthen (client_header_loop F n st) (\<lambda>p st.
     andthen (on_header_block F (claimed_size p) st) (\<lambda>hdr_size st.
     andthen (on_header_block F (\<lambda>s. Done (ipcbuf_get_bufsz s) s) st) (\<lambda>room st.
     if hdr_size > room then Err (-1) st
     else
       andthen (store_header F hdr_size
         (drop (unat (rp_offset p)) (mem (dc_header_ring st) (rp_block p))) st) (\<lambda>_ st.
       ignore (on_header_block F ipcbuf_mark_cleared st)))))"

definition dc_header_text :: "('c, 'w) dada_client_t \<Rightarrow> string option" where
  "dc_header_text st = Option.bind (dc_header_memory st) c_string"

definition set_header_entry :: "string \<Rightarrow> u64 \<Rightarrow> ('c, 'w) dada_client_t \<Rightarrow>
    (unit, ('c, 'w) dada_client_t) outcome" where
  "set_header_entry key n st =
    (case (dc_header_memory st, dc_header_text st) of
       (Some m, Some t) \<Rightarrow>
         (case store_string (ascii_header_set t key (decimal (unat n))) m of
            None \<Rightarrow> Crash
          | Some m' \<Rightarrow> Done () (set_dc_header m' st))
     | _ \<Rightarrow> Crash)"

definition set_offset :: "u64 \<Rightarrow> ('c, 'w) dada_client_t \<Rightarrow> (unit, ('c, 'w) dada_client_t) outcome" where
  "set_offset = set_header_entry ''OBS_OFFSET''"

definition header_offset :: "('c, 'w) dada_client_t \<Rightarrow> (u64, ('c, 'w) dada_client_t) outcome" where
  "header_offset st = (case dc_header_text st of
     None \<Rightarrow> Crash
   | Some t \<Rightarrow>
       (case ascii_header_get t ''OBS_OFFSET'' scanf_d of
          (n, Some v) \<Rightarrow> Done (of_int v) st
        | (n, None) \<Rightarrow> Done 0 st))"

text \<open>One transfer to the target after another, until the end of the data in the ring.\<close>

fun read_transfers :: "('c, 'w) client_functions \<Rightarrow> nat \<Rightarrow> u64 \<Rightarrow> ('c, 'w) dada_client_t \<Rightarrow>
    (unit, ('c, 'w) dada_client_t) outcome" where
  "read_transfers F 0 offset st = Wait st"
| "read_transfers F (Suc n) offset st =
     andthen (data_ended F st) (\<lambda>ended st.
     if ended then Done () st
     else
       andthen (set_offset offset st) (\<lambda>_ st.
       andthen (fail_as (-1) (dada_client_transfer F n st)) (\<lambda>moved st.
       if moved < 0 then Err (-1) st else read_transfers F n (offset + of_int moved) st)))"

definition dada_client_read :: "('c, 'w) client_functions \<Rightarrow> nat \<Rightarrow> ('c, 'w) dada_client_t \<Rightarrow>
    (unit, ('c, 'w) dada_client_t) outcome" where
  "dada_client_read F n st =
     andthen (get_header F n st) (\<lambda>_ st.
     andthen (header_offset st) (\<lambda>offset st.
     andthen (read_transfers F n offset st) (\<lambda>_ st.
     ignore (on_data_block F ipcbuf_reset st))))"

section \<open>Writing, stop and close\<close>

text \<open>Without a header block the result is \<open>EXIT_FAILURE\<close>, which is 1.\<close>

definition dada_client_write :: "('c, 'w) client_functions \<Rightarrow> nat \<Rightarrow> ('c, 'w) dada_client_t \<Rightarrow>
    (int, ('c, 'w) dada_client_t) outcome" where
  "dada_client_write F n st =
     andthen (on_header_block F (\<lambda>s. Done (ipcbuf_get_bufsz s) s) st) (\<lambda>room st.
     if room = 0 then Done 0 st
     else
       (case on_header_block F ipcbuf_get_next_write st of
          Done b st \<Rightarrow>
            andthen (fail_as (-1) (dada_client_transfer F n
                (st\<lparr>dc_header := In_block b, dc_header_size := room\<rparr>))) (\<lambda>moved st.
              if moved < 0 then Err (-1) st else Done 0 st)
        | Err c st \<Rightarrow> Done 1 st
        | Wait st \<Rightarrow> Wait st
        | Crash \<Rightarrow> Crash))"

definition dada_client_stop :: "('c, 'w) client_functions \<Rightarrow> ('c, 'w) dada_client_t \<Rightarrow>
    (unit, ('c, 'w) dada_client_t) outcome" where
  "dada_client_stop F st = fail_as (-1) (on_data_block F ipcio_stop st)"

definition dada_client_close :: "('c, 'w) client_functions \<Rightarrow> ('c, 'w) dada_client_t \<Rightarrow>
    (unit, ('c, 'w) dada_client_t) outcome" where
  "dada_client_close F st = fail_as (-1) (on_data_block F ipcio_close st)"

end
