(* ===== verification/Client_Delivery.thy ===== *)
theory Client_Delivery
  imports Dada_Client Ipcio_Drained
begin

text \<open>
  What a read client hands to its target. The client is one of the readers of a ring in which the writer and the
  other readers act at any time; the target keeps what it is given in files. The contract of the target is the
  locale \<open>file_sink\<close>. Its files, put together without their headers, are the transfer as the writer wrote it.
\<close>

section \<open>The other processes\<close>

text \<open>What the client knows of the others: the writer, the other readers, and whether they hold a block.\<close>

type_synonym parties = "ipcio \<times> (nat \<Rightarrow> ipcio) \<times> (nat \<Rightarrow> bool)"

text \<open>The system of the ring in which the client is reader \<open>i\<close>.\<close>

definition client_system :: "nat \<Rightarrow> ('c, parties) dada_client_t \<Rightarrow> unit ipcio_ext sys option" where
  "client_system i st =
    (let (w, f, H) = dc_world st
     in map_option (\<lambda>h. \<lparr>wr = w, rd = f(i := h), rg = dc_data_ring st, holds = H(i := curbuf h \<noteq> None)\<rparr>)
          (dc_data_block st))"

text \<open>The client follows the ring: what happened so far is \<open>es\<close>.\<close>

definition follows :: "key_t \<Rightarrow> u64 \<Rightarrow> u64 \<Rightarrow> nat \<Rightarrow> nat \<Rightarrow> io_event list \<Rightarrow> ('c, parties) dada_client_t \<Rightarrow> bool" where
  "follows key nb bz n i es st \<longleftrightarrow>
     i < n \<and> unat nb \<le> 32767 \<and> (\<exists>s. client_system i st = Some s \<and> io_reachable key nb bz n es s)"

text \<open>Others only make calls of their own on the data block.\<close>

definition not_by :: "nat \<Rightarrow> io_event \<Rightarrow> bool" where
  "not_by i e \<longleftrightarrow> (case e of Got j d l \<Rightarrow> j \<noteq> i | Waits j \<Rightarrow> j \<noteq> i | _ \<Rightarrow> True)"

definition parties_act :: "nat \<Rightarrow> ('c, parties) client_functions \<Rightarrow> bool" where
  "parties_act i F \<longleftrightarrow> (\<forall>st s. client_system i st = Some s \<longrightarrow>
     (\<exists>es s'. client_system i (others_act F st) = Some s' \<and> run io_step s es s' \<and> list_all (not_by i) es))"

definition client_eod :: "('c, 'w) dada_client_t \<Rightarrow> bool" where
  "client_eod st \<longleftrightarrow> (\<exists>h. dc_data_block st = Some h \<and> ipcbuf_eod (h, dc_data_ring st))"

lemma read_by_others: "list_all (not_by i) fs \<Longrightarrow> read_by i (es @ fs) = read_by i es"
proof (induction fs rule: rev_induct)
  case (snoc e fs)
  then show ?case by (cases e) (auto simp: read_by_def not_by_def simp flip: append_assoc)
qed simp

lemma read_by_Got: "read_by i (es @ [Got i d l]) = ending l (add_bytes d (read_by i es))"
  by (simp add: read_by_def ending_def)

lemma reachable_run:
  "io_reachable key nb bz n es s \<Longrightarrow> run io_step s fs s' \<Longrightarrow> io_reachable key nb bz n (es @ fs) s'"
  by (auto simp: io_reachable_def intro: run_append)

lemma reachable_step:
  "io_reachable key nb bz n es s \<Longrightarrow> io_exec c s = Some (e, s') \<Longrightarrow> io_reachable key nb bz n (es @ [e]) s'"
  by (auto intro!: reachable_run run_Cons [where t = s'] run.run_Nil simp: io_step_def simp del: io_exec.simps)

text \<open>What others do changes the rings and what they know, not the client.\<close>

lemma others_act_client [simp]:
  "dc_data_block (others_act F st) = dc_data_block st" "dc_header_block (others_act F st) = dc_header_block st"
  "dc_context (others_act F st) = dc_context st" "dc_header (others_act F st) = dc_header st"
  "dc_header_size (others_act F st) = dc_header_size st" "header_transfer (others_act F st) = header_transfer st"
  "direction (others_act F st) = direction st" "fd (others_act F st) = fd st"
  "transfer_bytes (others_act F st) = transfer_bytes st" "optimal_bytes (others_act F st) = optimal_bytes st"
  "client_quit (others_act F st) = client_quit st" "io_buffer (others_act F st) = io_buffer st"
  by (simp_all add: others_act_def split: prod.splits)

lemma client_eod_others [simp]: "client_eod (others_act F st) = client_eod st"
  by (auto simp: client_eod_def ipcbuf_eod_def)

lemma others_follow:
  assumes acts: "parties_act i F" and st: "follows key nb bz n i es st"
  obtains fs where "follows key nb bz n i (es @ fs) (others_act F st)" "read_by i (es @ fs) = read_by i es"
proof -
  from st obtain s where s: "client_system i st = Some s" "io_reachable key nb bz n es s"
    and b: "i < n" "unat nb \<le> 32767" by (auto simp: follows_def)
  from acts s(1) obtain fs s' where "client_system i (others_act F st) = Some s'" "run io_step s fs s'"
    "list_all (not_by i) fs" unfolding parties_act_def by blast
  then show thesis
    using that [of fs] reachable_run [OF s(2)] b read_by_others by (auto simp: follows_def)
qed

section \<open>Calls on the data block\<close>

lemma follows_block:
  assumes "follows key nb bz n i es st"
  obtains h s where "dc_data_block st = Some h" "client_system i st = Some s" "io_reachable key nb bz n es s"
    "rd s i = h" "rg s = dc_data_ring st" "i < n_readers (rg s)"
proof -
  from assms obtain s where s: "client_system i st = Some s" "io_reachable key nb bz n es s" and i: "i < n"
    by (auto simp: follows_def)
  have "n_readers (rg s) = n" using io_reachable_shape [OF s(2)] by (simp add: io_shape_def)
  with s i that show thesis by (auto simp: client_system_def Let_def split: prod.splits)
qed

lemma on_data_block_follows:
  assumes "follows key nb bz n i es (others_act F st)"
  obtains h where "dc_data_block st = Some h" "on_data_block F f st =
    map_outcome id (\<lambda>(h, r). (others_act F st)\<lparr>dc_data_block := Some h, dc_data_ring := r\<rparr>)
      (f (h, dc_data_ring (others_act F st)))"
proof -
  from assms obtain h where "dc_data_block st = Some h" by (rule follows_block) simp
  then show thesis by (intro that [of h]) (auto simp: on_data_block_def Let_def)
qed

lemma data_ended_follows:
  assumes acts: "parties_act i F" and st: "follows key nb bz n i es st"
  obtains fs where "data_ended F st = Done (client_eod st) (others_act F st)"
    "follows key nb bz n i (es @ fs) (others_act F st)" "read_by i (es @ fs) = read_by i es"
proof -
  from others_follow [OF acts st] obtain fs where fs: "follows key nb bz n i (es @ fs) (others_act F st)"
    "read_by i (es @ fs) = read_by i es" .
  from on_data_block_follows [OF fs(1)] obtain h where "dc_data_block st = Some h"
    "data_ended F st = map_outcome id (\<lambda>(h, r). (others_act F st)\<lparr>dc_data_block := Some h, dc_data_ring := r\<rparr>)
      (Done (ipcbuf_eod (h, dc_data_ring (others_act F st))) (h, dc_data_ring (others_act F st)))"
    unfolding data_ended_def .
  then have "data_ended F st = Done (client_eod st) (others_act F st)"
    by (auto simp: client_eod_def ipcbuf_eod_def)
  with fs that show thesis by blast
qed

text \<open>A read: the bytes and the end of the transfer go into the history of the client.\<close>

lemma ipcio_read_follows:
  assumes acts: "parties_act i F" and st: "follows key nb bz n i es st" and ne: "\<not> client_eod st"
  shows "case on_data_block F (ipcio_read True m) st of
      Done (k, d) st' \<Rightarrow> \<exists>fs h r. st' = (others_act F st)\<lparr>dc_data_block := Some h, dc_data_ring := r\<rparr> \<and>
        follows key nb bz n i (es @ fs) st' \<and> k = length d \<and> length d \<le> m \<and> (length d = m \<or> client_eod st') \<and>
        read_by i (es @ fs) = ending (client_eod st') (add_bytes d (read_by i es))
    | Wait st' \<Rightarrow> drained i (dc_data_ring st')
    | _ \<Rightarrow> False"
proof -
  let ?st = "others_act F st"
  from others_follow [OF acts st] obtain fs where fs: "follows key nb bz n i (es @ fs) ?st"
    "read_by i (es @ fs) = read_by i es" .
  from on_data_block_follows [OF fs(1), of "ipcio_read True m"] obtain h where h: "dc_data_block st = Some h"
    and eq: "on_data_block F (ipcio_read True m) st =
      map_outcome id (\<lambda>(h, r). ?st\<lparr>dc_data_block := Some h, dc_data_ring := r\<rparr>)
        (ipcio_read True m (h, dc_data_ring ?st))" .
  from fs(1) obtain s where s: "client_system i ?st = Some s" "io_reachable key nb bz n (es @ fs) s"
    "rd s i = h" "rg s = dc_data_ring ?st" "i < n_readers (rg s)"
    by (rule follows_block) (use h in auto)
  have b: "i < n" "unat nb \<le> 32767" using fs(1) by (auto simp: follows_def)
  have so: "sleeps_only (\<lambda>(h, r). drained i r) (ipcio_read True m (h, dc_data_ring ?st))"
    using read_sleeps [OF io_reachable_shape [OF s(2)] b(2,1)] s(3,4) by simp
  show ?thesis
  proof (cases "ipcio_read True m (h, dc_data_ring ?st)")
    case (Done x t)
    obtain k d h' r where x: "x = (k, d)" and t: "t = (h', r)" by (cases x; cases t) auto
    let ?st' = "?st\<lparr>dc_data_block := Some h', dc_data_ring := r\<rparr>"
    have ne': "\<not> ipcbuf_eod (rd s i, rg s)" using ne h s(3) by (auto simp: client_eod_def ipcbuf_eod_def)
    have ex: "io_exec (Read i m) s = Some (Got i d (ipcbuf_eod (h', r)), set_reader i h' r s)"
      using Done s(3-5) ne' by (simp add: x t set_reader_def)
    obtain a hs where rel: "io_rel s a hs" using io_reachableD [OF s(2)] by metis
    have loop: "read_loop (read_fuel m (rd s i, rg s)) True m (rd s i, rg s) = Done (k, d) (h', r)"
      using Done s(3,4) by (auto simp: x t ipcio_read_def split: if_splits)
    have "k = length d \<and> k \<le> m \<and> (k = m \<or> ipcbuf_eod (h', r))"
      using read_loop_reads [OF _ s(5) _ ne' loop, of a] rel s(5) by (auto simp: io_rel_def split: prod.splits)
    moreover have "client_system i ?st' = Some (set_reader i h' r s)"
      using s(1) h by (auto simp: client_system_def set_reader_def Let_def split: prod.splits)
    moreover have "io_reachable key nb bz n ((es @ fs) @ [Got i d (ipcbuf_eod (h', r))]) (set_reader i h' r s)"
      by (rule reachable_step [OF s(2) ex])
    ultimately show ?thesis
      using Done eq fs(2) b read_by_Got [of i "es @ fs" d "ipcbuf_eod (h', r)"]
      by (auto simp: x t follows_def client_eod_def intro!: exI [of _ "fs @ [Got i d (ipcbuf_eod (h', r))]"])
  qed (use so eq in \<open>auto simp: sleeps_only_def split: prod.splits\<close>)
qed

section \<open>The contract of a target\<close>

text \<open>
  A target that keeps what it is given in files, in the order it opened them. \<open>ready\<close>: a file is open and
  more bytes can go to its end, \<open>idle\<close>: none is. The first argument of \<open>ready\<close> is the file descriptor.
\<close>

definition add_last :: "u8 list \<Rightarrow> u8 list list \<Rightarrow> u8 list list" where
  "add_last d fs = butlast fs @ [last fs @ d]"

lemma add_last_simps [simp]:
  "add_last e (add_last d fs) = add_last (d @ e) fs" "fs \<noteq> [] \<Longrightarrow> add_last [] fs = fs"
  "add_last d (fs @ [x]) = fs @ [x @ d]" "butlast (add_last d fs) = butlast fs"
  by (simp_all add: add_last_def)

text \<open>The parts of the client the callbacks leave alone; they may rewrite the copy of the header.\<close>

definition same_rings :: "('c, 'w) dada_client_t \<Rightarrow> ('c, 'w) dada_client_t \<Rightarrow> bool" where
  "same_rings st st' \<longleftrightarrow> dc_data_block st' = dc_data_block st \<and> dc_header_block st' = dc_header_block st \<and>
     dc_data_ring st' = dc_data_ring st \<and> dc_header_ring st' = dc_header_ring st \<and> dc_world st' = dc_world st \<and>
     direction st' = direction st \<and> client_quit st' = client_quit st \<and>
     header_transfer st' = header_transfer st \<and> dc_header_size st' = dc_header_size st \<and>
     (\<forall>m. dc_header st = Copied m \<longrightarrow> (\<exists>m'. dc_header st' = Copied m' \<and> length m' = length m))"

definition opens_files :: "('c \<Rightarrow> bool) \<Rightarrow> (int \<Rightarrow> 'c \<Rightarrow> bool) \<Rightarrow> ('c \<Rightarrow> u8 list list) \<Rightarrow>
    ('c, 'w) client_functions \<Rightarrow> bool" where
  "opens_files idle ready files F \<longleftrightarrow> (\<exists>g. open_function F = Some g \<and>
     (\<forall>st m res st'. idle (dc_context st) \<longrightarrow> dc_header st = Copied m \<longrightarrow> g st = Done res st' \<longrightarrow> 0 \<le> res \<longrightarrow>
        same_rings st st' \<and> ready (fd st') (dc_context st') \<and>
        files (dc_context st') = files (dc_context st) @ [[]] \<and> unat (optimal_bytes st') < 2 ^ 63))"

definition takes_bytes :: "(int \<Rightarrow> 'c \<Rightarrow> bool) \<Rightarrow> ('c \<Rightarrow> u8 list list) \<Rightarrow> ('c, 'w) client_functions \<Rightarrow> bool" where
  "takes_bytes ready files F \<longleftrightarrow> (\<exists>f. io_function F = Some f \<and>
     (\<forall>d st. ready (fd st) (dc_context st) \<longrightarrow>
        files (dc_context st) \<noteq> [] \<and>
        (length d < 2 ^ 64 \<longrightarrow>
           (\<exists>c. f d st = Done (d, sint (of_nat (length d) :: u64)) (st\<lparr>dc_context := c\<rparr>) \<and> ready (fd st) c \<and>
              files c = add_last d (files (dc_context st))))))"

text \<open>Closing may remove a file that got no data.\<close>

definition closes_files :: "('c \<Rightarrow> bool) \<Rightarrow> (int \<Rightarrow> 'c \<Rightarrow> bool) \<Rightarrow> ('c \<Rightarrow> u8 list list) \<Rightarrow>
    ('c, 'w) client_functions \<Rightarrow> bool" where
  "closes_files idle ready files F \<longleftrightarrow> (\<exists>g. close_function F = Some g \<and>
     (\<forall>k st. ready (fd st) (dc_context st) \<longrightarrow>
        (\<exists>res c. g k st = Done res (st\<lparr>dc_context := c\<rparr>) \<and> 0 \<le> res \<and> idle c \<and>
           (files c = files (dc_context st) \<or> k = 0 \<and> files c = butlast (files (dc_context st))))))"

definition plain_memory :: "('c, 'w) client_functions \<Rightarrow> bool" where
  "plain_memory F \<longleftrightarrow> io_block_function F = None \<and> page_size F * 128 \<noteq> 0 \<and>
     unat (page_size F * 128) < 2 ^ 63 \<and> (\<forall>n. length (fresh_memory F n) = n)"

text \<open>Allocated memory that is filled with some byte; a page has 4096 bytes.\<close>

definition fresh_bytes :: "u8 \<Rightarrow> nat \<Rightarrow> u8 list" where
  "fresh_bytes g n = replicate n g"

lemma filled_memory:
  "io_block_function F = None \<Longrightarrow> page_size F = 4096 \<Longrightarrow> fresh_memory F = fresh_bytes g \<Longrightarrow> plain_memory F"
  by (simp add: plain_memory_def fresh_bytes_def)

locale file_sink =
  fixes F :: "('c, parties) client_functions" and i :: nat
    and idle :: "'c \<Rightarrow> bool" and ready :: "int \<Rightarrow> 'c \<Rightarrow> bool" and files :: "'c \<Rightarrow> u8 list list"
  assumes acts: "parties_act i F" and opens: "opens_files idle ready files F"
    and takes: "takes_bytes ready files F" and closes: "closes_files idle ready files F"
    and memory: "plain_memory F"

text \<open>
  \<open>moved b R d b' R'\<close>: a reader that had read \<open>R\<close>, \<open>b\<close> saying whether it was told of the end of the transfer,
  has read the bytes \<open>d\<close>.
\<close>

definition moved :: "bool \<Rightarrow> history \<Rightarrow> u8 list \<Rightarrow> bool \<Rightarrow> history \<Rightarrow> bool" where
  "moved b R d b' R' \<longleftrightarrow> (if b then d = [] \<and> b' \<and> R' = R else R' = ending b' (add_bytes d R))"

lemma moved_trans: "moved b R d b1 R1 \<Longrightarrow> moved b1 R1 e b' R' \<Longrightarrow> moved b R (d @ e) b' R'"
  by (auto simp: moved_def ending_def split: if_splits)

lemma moved_refl: "moved b R [] b R"
  by (simp add: moved_def ending_def)

text \<open>What the loops keep of the client.\<close>

definition same_client :: "('c, 'w) dada_client_t \<Rightarrow> ('c, 'w) dada_client_t \<Rightarrow> bool" where
  "same_client st st' \<longleftrightarrow> dc_header_block st' = dc_header_block st \<and> direction st' = direction st \<and>
     client_quit st' = client_quit st \<and> header_transfer st' = header_transfer st \<and>
     dc_header_size st' = dc_header_size st \<and> dc_header st' = dc_header st \<and> fd st' = fd st \<and>
     transfer_bytes st' = transfer_bytes st \<and> optimal_bytes st' = optimal_bytes st \<and>
     length (io_buffer st') = length (io_buffer st)"

lemma same_client_refl [simp]: "same_client st st"
  by (simp add: same_client_def)

lemma same_client_trans: "same_client st st1 \<Longrightarrow> same_client st1 st' \<Longrightarrow> same_client st st'"
  by (simp add: same_client_def)

lemma same_client_others [simp]: "same_client st (others_act F st)"
  by (simp add: same_client_def)

lemma follows_cong:
  "dc_data_block st' = dc_data_block st \<Longrightarrow> dc_data_ring st' = dc_data_ring st \<Longrightarrow> dc_world st' = dc_world st \<Longrightarrow>
    follows key nb bz n i es st' = follows key nb bz n i es st \<and> client_eod st' = client_eod st"
  by (simp add: follows_def client_system_def client_eod_def)

text \<open>\<open>d\<close> was moved to the open file, and the history of the ring went from \<open>es\<close> to \<open>es'\<close>.\<close>

definition transferred :: "(int \<Rightarrow> 'c \<Rightarrow> bool) \<Rightarrow> ('c \<Rightarrow> u8 list list) \<Rightarrow> nat \<Rightarrow> io_event list \<Rightarrow> ('c, 'w) dada_client_t \<Rightarrow>
    u8 list \<Rightarrow> io_event list \<Rightarrow> ('c, 'w) dada_client_t \<Rightarrow> bool" where
  "transferred ready files i es st d es' st' \<longleftrightarrow> same_client st st' \<and> prefix es es' \<and>
     ready (fd st') (dc_context st') \<and> files (dc_context st') = add_last d (files (dc_context st)) \<and>
     moved (client_eod st) (read_by i es) d (client_eod st') (read_by i es')"

lemma transferred_trans:
  "transferred ready files i es st d es1 st1 \<Longrightarrow> transferred ready files i es1 st1 e es' st' \<Longrightarrow>
    transferred ready files i es st (d @ e) es' st'"
  by (auto simp: transferred_def intro: moved_trans same_client_trans prefix_order.trans)

lemma piece_size_bounds:
  assumes "\<not> io_done st sofar" "unat room = length b" "b \<noteq> []" "transfer_bytes st = 0 \<or> sofar \<le> transfer_bytes st"
  shows "unat (piece_size st room sofar) \<le> length b" "0 < unat (piece_size st room sofar)"
    "transfer_bytes st = 0 \<or> unat sofar + unat (piece_size st room sofar) \<le> unat (transfer_bytes st)"
proof -
  have "transfer_bytes st = 0 \<or> sofar < transfer_bytes st" using assms(1) by (auto simp: io_done_def)
  then have "transfer_bytes st = 0 \<or> unat sofar < unat (transfer_bytes st) \<and>
      unat (transfer_bytes st - sofar) = unat (transfer_bytes st) - unat sofar"
    by (auto simp: unat_sub word_less_nat_alt word_le_nat_alt)
  with assms(2,3) show "unat (piece_size st room sofar) \<le> length b" "0 < unat (piece_size st room sofar)"
    "transfer_bytes st = 0 \<or> unat sofar + unat (piece_size st room sofar) \<le> unat (transfer_bytes st)"
    by (auto simp: piece_size_def word_less_nat_alt)
qed

context file_sink
begin

lemma read_piece_takes:
  assumes st: "follows key nb bz n i es st" and r: "ready (fd st) (dc_context st)"
    and m: "unat m \<le> length (io_buffer st)" and small: "length (io_buffer st) < 2 ^ 63"
  shows "case read_piece F m st of
      Done None st' \<Rightarrow> client_eod st \<and> st' = others_act F st \<and>
        (\<exists>es'. follows key nb bz n i es' st' \<and> transferred ready files i es st [] es' st')
    | Done (Some k) st' \<Rightarrow> \<exists>d es'. \<not> client_eod st \<and> k = of_nat (length d) \<and> length d \<le> unat m \<and>
        (length d = unat m \<or> client_eod st') \<and> follows key nb bz n i es' st' \<and> transferred ready files i es st d es' st'
    | Wait st' \<Rightarrow> drained i (dc_data_ring st')
    | _ \<Rightarrow> False"
proof -
  from takes obtain f where f: "io_function F = Some f"
    and T0: "\<And>st :: ('c, parties) dada_client_t. ready (fd st) (dc_context st) \<Longrightarrow> files (dc_context st) \<noteq> []"
    and T: "\<And>d st. ready (fd st) (dc_context st) \<Longrightarrow> length d < 2 ^ 64 \<Longrightarrow>
        \<exists>c. f d st = Done (d, sint (of_nat (length d) :: u64)) (st\<lparr>dc_context := c\<rparr>) \<and> ready (fd st) c \<and>
           files c = add_last d (files (dc_context st))"
    unfolding takes_bytes_def by (elim exE conjE) (rule that, assumption, blast+)
  let ?st = "others_act F st"
  from data_ended_follows [OF acts st] obtain fs where e: "data_ended F st = Done (client_eod st) ?st"
    and fs: "follows key nb bz n i (es @ fs) ?st" "read_by i (es @ fs) = read_by i es" .
  show ?thesis
  proof (cases "client_eod st")
    case True
    with e fs r T0 [OF r] show ?thesis
      by (auto simp: read_piece_def transferred_def moved_def intro!: exI [of _ "es @ fs"])
  next
    case False
    have ne: "\<not> client_eod ?st" using False by simp
    note R = ipcio_read_follows [OF acts fs(1) ne, of "unat m"]
    show ?thesis
    proof (cases "on_data_block F (ipcio_read True (unat m)) ?st")
      case (Done x st1)
      obtain k d where x: "x = (k, d)" by fastforce
      from R Done x obtain gs h r' where
        st1: "st1 = (others_act F ?st)\<lparr>dc_data_block := Some h, dc_data_ring := r'\<rparr>"
        and f1: "follows key nb bz n i ((es @ fs) @ gs) st1" and k: "k = length d" "length d \<le> unat m"
        "length d = unat m \<or> client_eod st1"
        and h1: "read_by i ((es @ fs) @ gs) = ending (client_eod st1) (add_bytes d (read_by i (es @ fs)))"
        by auto
      have "ready (fd st1) (dc_context st1)" "dc_context st1 = dc_context st" using r by (simp_all add: st1)
      moreover have len: "length d < 2 ^ 63" using k(2) m small by simp
      ultimately obtain c where c: "f d st1 = Done (d, sint (of_nat (length d) :: u64)) (st1\<lparr>dc_context := c\<rparr>)"
        "ready (fd st1) c" "files c = add_last d (files (dc_context st))"
        using T [of st1 d] by auto
      have pos: "sint (of_nat (length d) :: u64) = int (length d)"
        using len sint_small [of "of_nat (length d) :: u64"] by simp
      let ?st2 = "st1\<lparr>dc_context := c, io_buffer := d @ drop k (io_buffer st1)\<rparr>"
      have "read_piece F m st = Done (Some (of_nat (length d))) ?st2"
        using e False Done x c(1) by (simp add: read_piece_def io_call_def callback_def f pos)
      moreover have "follows key nb bz n i (es @ fs @ gs) ?st2" "client_eod ?st2 = client_eod st1"
        using f1 follows_cong [of ?st2 st1] by simp_all
      moreover have "same_client st ?st2" using k m by (simp add: same_client_def st1)
      ultimately show ?thesis
        using k c False h1 fs(2)
        by (auto simp: transferred_def moved_def intro!: exI [of _ d] exI [of _ "es @ fs @ gs"])
    qed (use R e False in \<open>auto simp: read_piece_def\<close>)
  qed
qed

lemma io_loop_takes:
  assumes "follows key nb bz n i es st" "ready (fd st) (dc_context st)" "direction st = dada_client_reader"
    "io_buffer st \<noteq> []" "length (io_buffer st) < 2 ^ 63"
    "transfer_bytes st = 0 \<or> sofar \<le> transfer_bytes st"
  shows "case io_loop F f sofar st of
      Done x st' \<Rightarrow> \<exists>d es'. follows key nb bz n i es' st' \<and> transferred ready files i es st d es' st' \<and>
        x = sint (sofar + of_nat (length d)) \<and> (client_eod st' \<or> io_done st (sofar + of_nat (length d))) \<and>
        (transfer_bytes st = 0 \<or> unat sofar + length d \<le> unat (transfer_bytes st))
    | Wait st' \<Rightarrow> drained i (dc_data_ring st') \<or> (\<exists>d es'. follows key nb bz n i es' st' \<and>
        transferred ready files i es st d es' st' \<and> f \<le> length d + of_bool (\<not> client_eod st))
    | _ \<Rightarrow> False"
  using assms
proof (induction f arbitrary: es st sofar)
  case 0
  have "transferred ready files i es st [] es st"
    using takes 0 by (auto simp: transferred_def takes_bytes_def intro: moved_refl)
  with 0 show ?case by auto
next
  case (Suc f)
  have none: "transferred ready files i es st [] es st"
    using takes Suc.prems by (auto simp: transferred_def takes_bytes_def intro: moved_refl)
  let ?room = "of_nat (length (io_buffer st)) :: u64"
  let ?m = "piece_size st ?room sofar"
  have room: "unat ?room = length (io_buffer st)" using Suc.prems(5) by simp
  show ?case
  proof (cases "io_done st sofar")
    case True
    with none Suc.prems show ?thesis
      by (auto simp: word_le_nat_alt intro!: exI [of _ "[]"] exI [of _ es])
  next
    case False
    note m = piece_size_bounds [OF False room Suc.prems(4,6)]
    note P = read_piece_takes [OF Suc.prems(1,2) m(1) Suc.prems(5)]
    show ?thesis
    proof (cases "read_piece F ?m st")
      case (Done x st1)
      show ?thesis
      proof (cases x)
        case None
        with Done P obtain es' where "client_eod st" "follows key nb bz n i es' st1" "st1 = others_act F st"
          "transferred ready files i es st [] es' st1" by auto
        with False Done None Suc.prems show ?thesis
          by (auto simp: io_turn_def word_le_nat_alt intro!: exI [of _ "[]"] exI [of _ es'])
      next
        case (Some k)
        with Done P obtain d es1 where d: "\<not> client_eod st" "k = of_nat (length d)" "length d \<le> unat ?m"
          "length d = unat ?m \<or> client_eod st1" and s1: "follows key nb bz n i es1 st1"
          "transferred ready files i es st d es1 st1" by auto
        have sc: "same_client st st1" and r1: "ready (fd st1) (dc_context st1)" using s1(2) by (simp_all add: transferred_def)
        let ?so = "sofar + of_nat (length d)"
        have so: "transfer_bytes st = 0 \<or> unat ?so = unat sofar + length d \<and> unat ?so \<le> unat (transfer_bytes st)"
          using m(3) d(3) unat_u64_bound [of "transfer_bytes st"] by (auto simp: unat_add_of_nat)
        have IH: "case io_loop F f ?so st1 of
            Done x st' \<Rightarrow> \<exists>d es'. follows key nb bz n i es' st' \<and> transferred ready files i es1 st1 d es' st' \<and>
              x = sint (?so + of_nat (length d)) \<and> (client_eod st' \<or> io_done st1 (?so + of_nat (length d))) \<and>
              (transfer_bytes st1 = 0 \<or> unat ?so + length d \<le> unat (transfer_bytes st1))
          | Wait st' \<Rightarrow> drained i (dc_data_ring st') \<or> (\<exists>d es'. follows key nb bz n i es' st' \<and>
              transferred ready files i es1 st1 d es' st' \<and> f \<le> length d + of_bool (\<not> client_eod st1))
          | _ \<Rightarrow> False"
          using sc Suc.prems(3-5) so by (intro Suc.IH [OF s1(1) r1]) (auto simp: same_client_def word_le_nat_alt)
        have eq: "io_loop F (Suc f) sofar st = io_loop F f ?so st1"
          using False Done Some Suc.prems(3) by (simp add: io_turn_def d)
        show ?thesis
        proof (cases "io_loop F f ?so st1")
          case (Done x st')
          with IH obtain e es' where e: "follows key nb bz n i es' st'" "transferred ready files i es1 st1 e es' st'"
            "x = sint (?so + of_nat (length e))" "client_eod st' \<or> io_done st1 (?so + of_nat (length e))"
            "transfer_bytes st1 = 0 \<or> unat ?so + length e \<le> unat (transfer_bytes st1)" by auto
          have "io_done st1 (?so + of_nat (length e)) = io_done st (sofar + of_nat (length (d @ e)))"
            using sc by (simp add: io_done_def same_client_def add.assoc)
          then show ?thesis
            using e so sc Done eq transferred_trans [OF s1(2) e(2)]
            by (auto simp: same_client_def add.assoc intro!: exI [of _ "d @ e"] exI [of _ es'])
        next
          case (Wait st')
          with IH consider "drained i (dc_data_ring st')" | e es' where "follows key nb bz n i es' st'"
            "transferred ready files i es1 st1 e es' st'" "f \<le> length e + of_bool (\<not> client_eod st1)" by auto
          then show ?thesis
          proof cases
            case 2
            then have "f \<le> length (d @ e)"
              using d m(2) by (cases "client_eod st1") auto
            with 2(1) transferred_trans [OF s1(2) 2(2)] show ?thesis
              by (simp add: eq Wait d(1) del: io_loop.simps length_append) blast
          qed (use Wait eq in auto)
        qed (use IH in auto)
      qed
    qed (use P False Suc.prems(3) in \<open>auto simp: io_turn_def\<close>)
  qed
qed

end

section \<open>A file\<close>

text \<open>What a file starts with.\<close>

definition header_part :: "('c, 'w) dada_client_t \<Rightarrow> u8 list" where
  "header_part st = (case dc_header st of
     Copied m \<Rightarrow> if header_transfer st then take (unat (dc_header_size st)) m else []
   | _ \<Rightarrow> [])"

definition with_header :: "('c, 'w) dada_client_t \<Rightarrow> bool" where
  "with_header st \<longleftrightarrow> dc_header_size st \<noteq> 0 \<and> (\<exists>m. dc_header st = Copied m \<and> unat (dc_header_size st) \<le> length m)"

text \<open>A client between two files, which is reader \<open>i\<close> of the ring.\<close>

definition between_files :: "('c \<Rightarrow> bool) \<Rightarrow> ('c, 'w) dada_client_t \<Rightarrow> bool" where
  "between_files idle st \<longleftrightarrow> idle (dc_context st) \<and> direction st = dada_client_reader \<and> \<not> client_quit st \<and> with_header st"

context file_sink
begin

lemma transfer_header_takes:
  assumes r: "ready (fd st) (dc_context st)" and h: "with_header st"
  obtains c where "transfer_header F st = Done () (st\<lparr>dc_context := c\<rparr>)" "ready (fd st) c"
    "files c = add_last (header_part st) (files (dc_context st))"
proof -
  from h obtain m where m: "dc_header st = Copied m" "unat (dc_header_size st) \<le> length m" "dc_header_size st \<noteq> 0"
    by (auto simp: with_header_def)
  from takes obtain f where f: "io_function F = Some f" and T: "files (dc_context st) \<noteq> []"
    "\<And>d. length d < 2 ^ 64 \<Longrightarrow>
         \<exists>c. f d st = Done (d, sint (of_nat (length d) :: u64)) (st\<lparr>dc_context := c\<rparr>) \<and> ready (fd st) c \<and>
           files c = add_last d (files (dc_context st))"
    using r unfolding takes_bytes_def by blast
  let ?d = "take (unat (dc_header_size st)) m"
  have len: "length ?d < 2 ^ 64" using m(2) unat_u64_bound [of "dc_header_size st"] by simp
  from T(2) [OF len] obtain c where
    c: "f ?d st = Done (?d, sint (of_nat (length ?d) :: u64)) (st\<lparr>dc_context := c\<rparr>)" "ready (fd st) c"
    "files c = add_last ?d (files (dc_context st))" by blast
  show thesis
  proof (cases "header_transfer st")
    case True
    have "transfer_header F st = Done () (st\<lparr>dc_context := c\<rparr>)"
      using m c(1) True by (simp add: transfer_header_def dc_header_memory_def io_call_def callback_def f set_dc_header_def)
    then show thesis using that [of c] c True m by (simp add: header_part_def)
  next
    case False
    have "transfer_header F st = Done () (st\<lparr>dc_context := dc_context st\<rparr>)"
      using m False by (simp add: transfer_header_def dc_header_memory_def)
    then show thesis using that [of "dc_context st"] r False m T(1) by (simp add: header_part_def)
  qed
qed

lemma io_loop_from_start:
  assumes st: "follows key nb bz n i es st" and r: "ready (fd st) (dc_context st)"
    and dr: "direction st = dada_client_reader" and b: "optimal_bytes st \<noteq> 0" "unat (optimal_bytes st) < 2 ^ 63"
  obtains b where "dada_client_io_loop F f st = io_loop F f 0 (st\<lparr>io_buffer := b\<rparr>)" "b \<noteq> []" "length b < 2 ^ 63"
proof -
  have "unat (optimal_bytes st) \<noteq> 0" using b(1) by (metis unat_eq_zero)
  moreover have "ensure_buffer F st = st\<lparr>io_buffer := io_buffer (ensure_buffer F st)\<rparr>"
    "length (io_buffer (ensure_buffer F st)) = unat (optimal_bytes st)"
    using memory by (auto simp: ensure_buffer_def plain_memory_def)
  moreover have "direction (ensure_buffer F st) = dada_client_reader" using dr by (simp add: ensure_buffer_def)
  moreover from calculation have "io_buffer (ensure_buffer F st) \<noteq> []" by (metis list.size(3))
  ultimately show thesis
    using that [of "io_buffer (ensure_buffer F st)"] b(2)
    by (auto simp: dada_client_io_loop_def Let_def)
qed

text \<open>One file, when it could be opened.\<close>

lemma transfer_takes:
  assumes st: "follows key nb bz n i es st" "between_files idle st"
    and g: "open_function F = Some g" "g st = Done res st1" "0 \<le> res"
  shows "case dada_client_transfer F f st of
      Done x st' \<Rightarrow> \<exists>d es'. follows key nb bz n i es' st' \<and> prefix es es' \<and> between_files idle st' \<and>
        moved (client_eod st) (read_by i es) d (client_eod st') (read_by i es') \<and>
        x = sint (of_nat (length d) :: u64) \<and> header_part st' = header_part st1 \<and>
        (if transfer_bytes st1 = 0 then client_eod st'
         else length d \<le> unat (transfer_bytes st1) \<and> (client_eod st' \<or> length d = unat (transfer_bytes st1))) \<and>
        (length d < 2 ^ 64 \<longrightarrow> files (dc_context st') = files (dc_context st) @ [header_part st1 @ d] \<or>
           d = [] \<and> files (dc_context st') = files (dc_context st))
    | Wait st' \<Rightarrow> drained i (dc_data_ring st') \<or> (\<exists>d es'. follows key nb bz n i es' st' \<and> prefix es es' \<and>
        moved (client_eod st) (read_by i es) d (client_eod st') (read_by i es') \<and>
        files (dc_context st') = files (dc_context st) @ [header_part st1 @ d] \<and> f \<le> length d + 1)
    | _ \<Rightarrow> False"
proof -
  have B: "idle (dc_context st)" "direction st = dada_client_reader" "\<not> client_quit st" "with_header st"
    using st(2) by (simp_all add: between_files_def)
  from B(4) obtain mem where "dc_header st = Copied mem" by (auto simp: with_header_def)
  with opens g B(1) have sr: "same_rings st st1" and r1: "ready (fd st1) (dc_context st1)"
    and f1: "files (dc_context st1) = files (dc_context st) @ [[]]" and o1: "unat (optimal_bytes st1) < 2 ^ 63"
    unfolding opens_files_def by fastforce+
  have fol: "follows key nb bz n i es st1" "client_eod st1 = client_eod st"
    using sr st(1) follows_cong [of st1 st] by (simp_all add: same_rings_def)
  have 1: "direction st1 = dada_client_reader" "\<not> client_quit st1" "with_header st1"
    using sr B by (auto simp: same_rings_def with_header_def)
  obtain c where c: "transfer_header F st1 = Done () (st1\<lparr>dc_context := c\<rparr>)" "ready (fd st1) c"
    "files c = files (dc_context st) @ [header_part st1]"
    by (rule transfer_header_takes [OF r1 1(3)]) (simp add: f1)
  define st2 where "st2 = (if optimal_bytes st1 = 0 then st1\<lparr>dc_context := c, optimal_bytes := page_size F * 128\<rparr>
    else st1\<lparr>dc_context := c\<rparr>)"
  have o2: "unat (optimal_bytes st2) < 2 ^ 63" using o1 memory by (simp add: st2_def plain_memory_def)
  have st2: "direction st2 = dada_client_reader" "optimal_bytes st2 \<noteq> 0" "ready (fd st2) (dc_context st2)"
    "dc_context st2 = c" "transfer_bytes st2 = transfer_bytes st1" "with_header st2" "\<not> client_quit st2"
    "header_part st2 = header_part st1"
    using 1 c memory by (auto simp: st2_def plain_memory_def with_header_def header_part_def)
  have fol2: "follows key nb bz n i es st2" "client_eod st2 = client_eod st"
    using fol follows_cong [of st2 st1] by (simp_all add: st2_def)
  obtain b where b: "dada_client_io_loop F f st2 = io_loop F f 0 (st2\<lparr>io_buffer := b\<rparr>)" "b \<noteq> []" "length b < 2 ^ 63"
    by (rule io_loop_from_start [OF fol2(1) st2(3,1,2) o2])
  let ?st3 = "st2\<lparr>io_buffer := b\<rparr>"
  have L: "case io_loop F f 0 ?st3 of
      Done x st' \<Rightarrow> \<exists>d es'. follows key nb bz n i es' st' \<and> transferred ready files i es ?st3 d es' st' \<and>
        x = sint (0 + of_nat (length d) :: u64) \<and> (client_eod st' \<or> io_done ?st3 (0 + of_nat (length d))) \<and>
        (transfer_bytes ?st3 = 0 \<or> unat (0 :: u64) + length d \<le> unat (transfer_bytes ?st3))
    | Wait st' \<Rightarrow> drained i (dc_data_ring st') \<or> (\<exists>d es'. follows key nb bz n i es' st' \<and>
        transferred ready files i es ?st3 d es' st' \<and> f \<le> length d + of_bool (\<not> client_eod ?st3))
    | _ \<Rightarrow> False"
    using fol2(1) follows_cong [of ?st3 st2] st2 b by (intro io_loop_takes) simp_all
  have e3: "client_eod ?st3 = client_eod st" using fol2(2) follows_cong [of ?st3 st2] by simp
  from closes obtain k where k: "close_function F = Some k"
    and K: "\<And>n st. ready (fd st) (dc_context st) \<Longrightarrow> \<exists>res c. k n st = Done res (st\<lparr>dc_context := c\<rparr>) \<and> 0 \<le> res \<and> idle c \<and>
           (files c = files (dc_context st) \<or> n = 0 \<and> files c = butlast (files (dc_context st)))"
    unfolding closes_files_def by blast
  have T: "dada_client_transfer F f st = andthen (value_of (-1) (io_loop F f 0 ?st3)) (\<lambda>moved st.
      andthen (k (of_int moved) st) (\<lambda>res st. if res < 0 then Err (-1) st else Done moved st))"
    using g c(1) 1 B memory b(1)
    by (simp add: dada_client_transfer_def callback_def post_header_def plain_memory_def k st2_def)
  show ?thesis
  proof (cases "io_loop F f 0 ?st3")
    case (Done x st4)
    with L obtain d es' where d: "follows key nb bz n i es' st4" "transferred ready files i es ?st3 d es' st4"
      "x = sint (of_nat (length d) :: u64)" "client_eod st4 \<or> io_done ?st3 (of_nat (length d))"
      "transfer_bytes st1 = 0 \<or> length d \<le> unat (transfer_bytes st1)" using st2(5) by auto
    from d(2) have t: "same_client ?st3 st4" "prefix es es'" "ready (fd st4) (dc_context st4)"
      "files (dc_context st4) = files (dc_context st) @ [header_part st1 @ d]"
      "moved (client_eod st) (read_by i es) d (client_eod st4) (read_by i es')"
      using c(3) st2(4) e3 unfolding transferred_def by auto
    from K [OF t(3), of "of_int x"] obtain res c' where
      c': "k (of_int x) st4 = Done res (st4\<lparr>dc_context := c'\<rparr>)" "0 \<le> res" "idle c'"
      "files c' = files (dc_context st4) \<or> (of_int x :: u64) = 0 \<and> files c' = butlast (files (dc_context st4))"
      by blast
    let ?st' = "st4\<lparr>dc_context := c'\<rparr>"
    have x0: "(of_int x :: u64) = of_nat (length d)" by (simp add: d(3))
    have "follows key nb bz n i es' ?st'" "client_eod ?st' = client_eod st4"
      using d(1) follows_cong [of ?st' st4] by simp_all
    moreover have "between_files idle ?st'" "header_part ?st' = header_part st1"
      using c'(3) t(1) st2 by (auto simp: between_files_def same_client_def with_header_def header_part_def)
    moreover have "if transfer_bytes st1 = 0 then client_eod st4
         else length d \<le> unat (transfer_bytes st1) \<and> (client_eod st4 \<or> length d = unat (transfer_bytes st1))"
      using d(4,5) st2(5) unat_u64_bound [of "transfer_bytes st1"]
      by (auto simp: io_done_def word_le_nat_alt)
    moreover have "length d < 2 ^ 64 \<longrightarrow> files c' = files (dc_context st) @ [header_part st1 @ d] \<or>
           d = [] \<and> files c' = files (dc_context st)"
      using c'(4) t(4) x0 of_nat_u64_inj [of "length d" 0] by auto
    ultimately show ?thesis
      using T Done c'(1,2) d(3) t(2,5) by (simp add: x0 del: io_loop.simps) (intro exI [of _ d], auto)
  next
    case (Wait st4)
    with L consider "drained i (dc_data_ring st4)" | d es' where "follows key nb bz n i es' st4"
      "transferred ready files i es ?st3 d es' st4" "f \<le> length d + of_bool (\<not> client_eod ?st3)" by auto
    then show ?thesis
    proof cases
      case 2
      then have "files (dc_context st4) = files (dc_context st) @ [header_part st1 @ d]" "f \<le> length d + 1"
        "prefix es es'" "moved (client_eod st) (read_by i es) d (client_eod st4) (read_by i es')"
        using c(3) st2(4) e3 by (auto simp: transferred_def)
      with 2(1) T Wait show ?thesis by (simp del: io_loop.simps) blast
    qed (use T Wait in auto)
  qed (use L in auto)
qed

end

section \<open>All files of a transfer\<close>

lemma store_string_length: "store_string s m = Some m' \<Longrightarrow> length m' = length m"
  by (auto simp: store_string_def split: if_splits)

context file_sink
begin

lemma set_offset_between:
  assumes "set_offset k st = Done () st'" "between_files idle st"
  shows "between_files idle st'" "dc_context st' = dc_context st"
    "follows key nb bz n i es st' = follows key nb bz n i es st" "client_eod st' = client_eod st"
proof -
  from assms(2) obtain m where m: "dc_header st = Copied m" by (auto simp: between_files_def with_header_def)
  with assms(1) obtain m' where "st' = st\<lparr>dc_header := Copied m'\<rparr>" "length m' = length m"
    by (auto simp: set_offset_def set_header_entry_def dc_header_memory_def set_dc_header_def store_string_length split: option.splits)
  with assms(2) m show "between_files idle st'" "dc_context st' = dc_context st"
    "follows key nb bz n i es st' = follows key nb bz n i es st" "client_eod st' = client_eod st"
    using follows_cong [of st' st] by (auto simp: between_files_def with_header_def)
qed

lemma transfer_opened:
  assumes "dada_client_transfer F f st = Done x st'"
  obtains g res st1 where "open_function F = Some g" "g st = Done res st1" "0 \<le> res"
proof -
  from opens obtain g where g: "open_function F = Some g" unfolding opens_files_def by blast
  with assms show thesis
    using that [OF g] by (cases "g st") (auto simp: dada_client_transfer_def callback_def split: if_splits)
qed

lemma read_transfers_takes:
  assumes "follows key nb bz n i es st" "between_files idle st" "read_transfers F f offset st = Done () st'"
  shows "\<exists>parts es'. follows key nb bz n i es' st' \<and> prefix es es' \<and> between_files idle st' \<and> client_eod st' \<and>
    moved (client_eod st) (read_by i es) (concat (map snd parts)) True (read_by i es') \<and>
    (length (concat (map snd parts)) < 2 ^ 64 \<longrightarrow>
       files (dc_context st') = files (dc_context st) @ map (\<lambda>(h, d). h @ d) parts)"
  using assms
proof (induction f arbitrary: offset st es)
  case (Suc f)
  from data_ended_follows [OF acts Suc.prems(1)] obtain fs where
    e: "data_ended F st = Done (client_eod st) (others_act F st)" and
    fol: "follows key nb bz n i (es @ fs) (others_act F st)" and h: "read_by i (es @ fs) = read_by i es" .
  have bf: "between_files idle (others_act F st)"
    using Suc.prems(2) by (simp add: between_files_def with_header_def)
  show ?case
  proof (cases "client_eod st")
    case True
    with e Suc.prems(3) have "st' = others_act F st" by simp
    with fol h bf True show ?thesis by (intro exI [of _ "[]"] exI [of _ "es @ fs"]) (simp add: moved_def)
  next
    case False
    from False e Suc.prems(3) obtain st1 x st2 where so: "set_offset offset (others_act F st) = Done () st1"
      and t: "dada_client_transfer F f st1 = Done x st2" and rest: "read_transfers F f (offset + of_int x) st2 = Done () st'"
      by (auto simp: outcome_simps split: if_splits)
    note S = set_offset_between [OF so bf]
    from transfer_opened [OF t] obtain g res sto where g: "open_function F = Some g" "g st1 = Done res sto" "0 \<le> res" .
    have "follows key nb bz n i (es @ fs) st1" using S(3) fol by simp
    from transfer_takes [OF this S(1) g, of f] t obtain d es1 where
      d: "follows key nb bz n i es1 st2" "prefix (es @ fs) es1" "between_files idle st2"
      "moved (client_eod st) (read_by i es) d (client_eod st2) (read_by i es1)"
      "length d < 2 ^ 64 \<longrightarrow> files (dc_context st2) = files (dc_context st) @ [header_part sto @ d] \<or>
           d = [] \<and> files (dc_context st2) = files (dc_context st)"
      using S(2,4) h by auto
    from Suc.IH [OF d(1,3) rest] obtain parts es' where
      p: "follows key nb bz n i es' st'" "prefix es1 es'" "between_files idle st'" "client_eod st'"
      "moved (client_eod st2) (read_by i es1) (concat (map snd parts)) True (read_by i es')"
      "length (concat (map snd parts)) < 2 ^ 64 \<longrightarrow>
        files (dc_context st') = files (dc_context st2) @ map (\<lambda>(h, d). h @ d) parts" by blast
    define ps where "ps = (if d = [] \<and> files (dc_context st2) = files (dc_context st) then parts
      else (header_part sto, d) # parts)"
    have ps: "concat (map snd ps) = d @ concat (map snd parts)" by (simp add: ps_def)
    have "prefix es es'" using d(2) p(2) by (metis prefix_order.trans prefixI)
    moreover have "length (concat (map snd ps)) < 2 ^ 64 \<Longrightarrow>
        files (dc_context st') = files (dc_context st) @ map (\<lambda>(h, d). h @ d) ps"
      using d(5) p(6) unfolding ps by (auto simp: ps_def)
    ultimately show ?thesis
      using p moved_trans [OF d(4) p(5)] by (intro exI [of _ ps] exI [of _ es']) (simp add: ps)
  qed
qed simp

end

text \<open>What a reader that was told of the end of a transfer has read of it is what the writer wrote.\<close>

lemma ended_transfer:
  assumes st: "follows key nb bz n i es' st" and m: "moved False (read_by i es) d True (read_by i es')"
  shows "length (fst (read_by i es)) < length (fst (written es'))"
    "fst (written es') ! length (fst (read_by i es)) = snd (read_by i es) @ d"
proof -
  from st obtain s where r: "io_reachable key nb bz n es' s" by (auto simp: follows_def)
  obtain ts c where R: "read_by i es = (ts, c)" by fastforce
  have e: "fst (read_by i es') = ts @ [c @ d]" using m by (simp add: moved_def ending_def complete_def R add_bytes_def)
  have "behind (read_by i es') (written es')" using io_reachableD [OF r] by blast
  then have "prefix (ts @ [c @ d]) (fst (written es'))" using e by (simp add: behind_def)
  then show "length (fst (read_by i es)) < length (fst (written es'))"
    "fst (written es') ! length (fst (read_by i es)) = snd (read_by i es) @ d"
    by (auto simp: R prefix_def nth_append)
qed

end
