(* ===== verification/Client_Read.thy ===== *)
theory Client_Read
  imports Client_Delivery
begin

text \<open>
  \<open>dada_client_read\<close> as a whole: the calls on the header block before the transfer and the
  acknowledgement of its end do not disturb what the client reads of the data block.
\<close>

section \<open>A whole transfer\<close>

text \<open>What the calls on the header block keep.\<close>

definition header_call :: "(io_event list \<Rightarrow> ('c, 'w) dada_client_t \<Rightarrow> bool) \<Rightarrow> nat \<Rightarrow> io_event list \<Rightarrow>
    ('c, 'w) dada_client_t \<Rightarrow> io_event list \<Rightarrow> ('c, 'w) dada_client_t \<Rightarrow> bool" where
  "header_call at i es st es' st' \<longleftrightarrow> at es' st' \<and> prefix es es' \<and> read_by i es' = read_by i es \<and>
     client_eod st' = client_eod st \<and> dc_context st' = dc_context st \<and> direction st' = direction st \<and>
     client_quit st' = client_quit st \<and> dc_header st' = dc_header st \<and> dc_header_size st' = dc_header_size st"

lemma header_call_refl: "at es st \<Longrightarrow> header_call at i es st es st"
  by (simp add: header_call_def)

lemma header_call_trans:
  "header_call at i es st es1 st1 \<Longrightarrow> header_call at i es1 st1 es' st' \<Longrightarrow> header_call at i es st es' st'"
  by (auto simp: header_call_def intro: prefix_order.trans)

lemma final_map [simp]: "final_state (map_outcome f g out) = map_option g (final_state out)"
  by (cases out) auto

lemma on_header_block_call:
  assumes acts: "parties_act i F" and st: "follows key nb bz n i es st"
    and f: "final_state (on_header_block F f st) = Some st'"
  obtains es' where "header_call (follows key nb bz n i) i es st es' st'"
proof -
  from others_follow [OF acts st] obtain fs where fs: "follows key nb bz n i (es @ fs) (others_act F st)"
    "read_by i (es @ fs) = read_by i es" .
  from f obtain h r where st': "st' = (others_act F st)\<lparr>dc_header_block := Some h, dc_header_ring := r\<rparr>"
    by (auto simp: on_header_block_def Let_def split: option.splits)
  have "follows key nb bz n i (es @ fs) st'" "client_eod st' = client_eod st"
    using fs(1) follows_cong [of st' "others_act F st"] by (simp_all add: st')
  with fs(2) show thesis by (intro that [of "es @ fs"]) (simp add: header_call_def st')
qed

lemma header_call_step:
  assumes "parties_act i F" "header_call (follows key nb bz n i) i es st es1 st1"
    "final_state (on_header_block F f st1) = Some st'"
  obtains es' where "header_call (follows key nb bz n i) i es st es' st'"
  using on_header_block_call [OF assms(1) _ assms(3)] assms(2) header_call_trans [OF assms(2)]
  by (metis header_call_def)

lemma ignore_Done: "ignore out = Done u st' \<Longrightarrow> final_state out = Some st'"
  by (cases out) auto

lemma Done_final: "out = Done x st' \<Longrightarrow> final_state out = Some st'"
  by simp

lemma client_header_loop_calls:
  assumes "parties_act i F" "header_call (follows key nb bz n i) i es st es1 st1"
    and "client_header_loop F f st1 = Done p st'"
  shows "\<exists>es'. header_call (follows key nb bz n i) i es st es' st'"
  using assms(2,3)
proof (induction f arbitrary: es1 st1)
  case (Suc f)
  from Suc.prems(2) obtain q st2 where 1: "on_header_block F ipcbuf_get_next_read st1 = Done q st2"
    and rest: "(if rp_bytes q \<noteq> 0 then Done q st2 else
      andthen (ignore (on_header_block F ipcbuf_mark_cleared st2)) (\<lambda>_ st.
       andthen (on_header_block F (\<lambda>s. Done (ipcbuf_eod s) s) st) (\<lambda>ended st.
       if \<not> ended then Err (-1) st
       else andthen (ignore (on_header_block F ipcbuf_reset st)) (\<lambda>_. client_header_loop F f)))) = Done p st'"
    by (auto simp: outcome_simps)
  obtain es2 where s2: "header_call (follows key nb bz n i) i es st es2 st2"
    by (rule header_call_step [OF assms(1) Suc.prems(1) Done_final [OF 1]])
  show ?case
  proof (cases "rp_bytes q = 0")
    case True
    with rest obtain e st3 st4 st5 where 3: "ignore (on_header_block F ipcbuf_mark_cleared st2) = Done () st3"
      and 4: "on_header_block F (\<lambda>s. Done (ipcbuf_eod s) s) st3 = Done e st4"
      and 5: "ignore (on_header_block F ipcbuf_reset st4) = Done () st5"
      and l: "client_header_loop F f st5 = Done p st'"
      by (auto simp: outcome_simps split: if_splits)
    obtain es3 where s3: "header_call (follows key nb bz n i) i es st es3 st3"
      by (rule header_call_step [OF assms(1) s2 ignore_Done [OF 3]])
    obtain es4 where s4: "header_call (follows key nb bz n i) i es st es4 st4"
      by (rule header_call_step [OF assms(1) s3 Done_final [OF 4]])
    obtain es5 where s5: "header_call (follows key nb bz n i) i es st es5 st5"
      by (rule header_call_step [OF assms(1) s4 ignore_Done [OF 5]])
    show ?thesis by (rule Suc.IH [OF s5 l])
  qed (use rest s2 in auto)
qed simp

text \<open>The client has no header yet, or one of its own that is large enough.\<close>

definition own_header :: "('c, 'w) dada_client_t \<Rightarrow> bool" where
  "own_header st \<longleftrightarrow> dc_header st = No_header \<and> dc_header_size st = 0 \<or>
     (\<exists>m. dc_header st = Copied m \<and> unat (dc_header_size st) \<le> length m)"

lemma get_header_keeps:
  assumes acts: "parties_act i F" and mem: "\<And>n. length (fresh_memory F n) = n"
    and st: "follows key nb bz n i es st" "own_header st" and g: "get_header F f st = Done () st'"
  obtains es' m where "follows key nb bz n i es' st'" "prefix es es'" "read_by i es' = read_by i es"
    "client_eod st' = client_eod st" "dc_context st' = dc_context st" "direction st' = direction st"
    "client_quit st' = client_quit st" "dc_header st' = Copied m" "unat (dc_header_size st') \<le> length m"
proof -
  from g obtain p hs room st1 st2 st3 st4 where 1: "client_header_loop F f st = Done p st1"
    and 2: "on_header_block F (claimed_size p) st1 = Done hs st2"
    and 3: "on_header_block F (\<lambda>s. Done (ipcbuf_get_bufsz s) s) st2 = Done room st3"
    and 4: "store_header F hs (drop (unat (rp_offset p)) (mem (dc_header_ring st3) (rp_block p))) st3 = Done () st4"
    and 5: "ignore (on_header_block F ipcbuf_mark_cleared st4) = Done () st'"
    by (auto simp: get_header_def outcome_simps split: if_splits)
  obtain es1 where s1: "header_call (follows key nb bz n i) i es st es1 st1"
    using client_header_loop_calls [OF acts header_call_refl [where at = "follows key nb bz n i", OF st(1)] 1] by blast
  obtain es2 where s2: "header_call (follows key nb bz n i) i es st es2 st2"
    by (rule header_call_step [OF acts s1 Done_final [OF 2]])
  obtain es3 where s3: "header_call (follows key nb bz n i) i es st es3 st3"
    by (rule header_call_step [OF acts s2 Done_final [OF 3]])
  have o: "own_header st3" using st(2) s3 by (simp add: own_header_def header_call_def)
  from 4 o have st4: "st4 = st3\<lparr>dc_header := dc_header st4, dc_header_size := dc_header_size st4\<rparr>"
    and "\<exists>m. dc_header st4 = Copied m \<and> unat (dc_header_size st4) \<le> length m"
    by (auto simp: store_header_def own_header_def dc_header_memory_def set_dc_header_def mem Let_def
        split: if_splits)
  then obtain m where m: "dc_header st4 = Copied m" "unat (dc_header_size st4) \<le> length m" by blast
  have k4: "dc_data_block st4 = dc_data_block st3" "dc_data_ring st4 = dc_data_ring st3" "dc_world st4 = dc_world st3"
    "dc_context st4 = dc_context st3" "direction st4 = direction st3" "client_quit st4 = client_quit st3"
    by (subst st4, simp)+
  then have f4: "follows key nb bz n i es3 st4" "client_eod st4 = client_eod st3"
    using s3 follows_cong [of st4 st3] by (simp_all add: header_call_def)
  obtain es' where s5: "header_call (follows key nb bz n i) i es3 st4 es' st'"
    by (rule on_header_block_call [OF acts f4(1) ignore_Done [OF 5]])
  show thesis
    using s3 s5 f4 m k4 by (intro that [of es' m]) (auto simp: header_call_def intro: prefix_order.trans)
qed

text \<open>The end of the transfer is acknowledged, for the next.\<close>

lemma reset_follows:
  assumes acts: "parties_act i F" and st: "follows key nb bz n i es st" and e: "client_eod st"
    and f: "ignore (on_data_block F ipcbuf_reset st) = Done u st'"
  shows "\<exists>es'. follows key nb bz n i es' st' \<and> prefix es es' \<and> read_by i es' = read_by i es \<and> \<not> client_eod st' \<and>
    dc_context st' = dc_context st \<and> direction st' = direction st \<and> client_quit st' = client_quit st \<and>
    dc_header st' = dc_header st \<and> dc_header_size st' = dc_header_size st"
proof -
  let ?st = "others_act F st"
  from others_follow [OF acts st] obtain fs where fs: "follows key nb bz n i (es @ fs) ?st"
    "read_by i (es @ fs) = read_by i es" .
  from on_data_block_follows [OF fs(1), of ipcbuf_reset] obtain h where h: "dc_data_block st = Some h"
    and eq: "on_data_block F ipcbuf_reset st =
      map_outcome id (\<lambda>(h, r). ?st\<lparr>dc_data_block := Some h, dc_data_ring := r\<rparr>)
        (ipcbuf_reset (h, dc_data_ring ?st))" .
  from fs(1) obtain s where s: "client_system i ?st = Some s" "io_reachable key nb bz n (es @ fs) s"
    "rd s i = h" "rg s = dc_data_ring ?st" "i < n_readers (rg s)"
    by (rule follows_block) (use h in auto)
  obtain a hs where "io_rel s a hs" using io_reachableD [OF s(2)] by metis
  then have "ring_rel s a" by (auto simp: io_rel_def split: prod.splits)
  from ring_relD(8) [OF this s(5)] have "state h \<in> {IPCBUF_READER, IPCBUF_READING, IPCBUF_RSTOP}"
    using s(3) by (simp add: reader_rel_def)
  then have hs: "state h = IPCBUF_RSTOP" using e h by (auto simp: client_eod_def ipcbuf_eod_def)
  obtain h' r' where r: "ipcbuf_reset (h, dc_data_ring ?st) = Done () (h', r')" "state h' = IPCBUF_READER"
    "curbuf h' = curbuf h"
    by (simp add: ipcbuf_reset_def hs ipcbuf_eod_def ipcbuf_is_writer_def)
  have ex: "io_exec (Next i) s = Some (Waits i, s\<lparr>rd := (rd s)(i := h'), rg := r'\<rparr>)"
    using s(3-5) hs r(1) by (simp add: ipcbuf_eod_def)
  let ?st' = "?st\<lparr>dc_data_block := Some h', dc_data_ring := r'\<rparr>"
  have st': "st' = ?st'" using f eq r(1) by simp
  have "client_system i ?st' = Some (s\<lparr>rd := (rd s)(i := h'), rg := r'\<rparr>)"
    using s(1) h r(3) by (auto simp: client_system_def Let_def split: prod.splits)
  then have "follows key nb bz n i ((es @ fs) @ [Waits i]) ?st'"
    using reachable_step [OF s(2) ex] fs(1) by (auto simp: follows_def)
  moreover have "read_by i ((es @ fs) @ [Waits i]) = read_by i (es @ fs)" by (simp add: read_by_def)
  moreover have "\<not> client_eod ?st'" using r(2) by (simp add: client_eod_def ipcbuf_eod_def)
  ultimately show ?thesis using fs(2) by (intro exI [of _ "es @ fs @ [Waits i]"]) (simp add: st')
qed

context file_sink
begin

lemma empty_header_crashes:
  assumes "follows key nb bz n i es st" "\<not> client_eod st" "idle (dc_context st)" "dc_header st = Copied m"
    "dc_header_size st = 0" "\<not> client_quit st"
  shows "read_transfers F f offset st \<noteq> Done () st'"
proof
  assume d: "read_transfers F f offset st = Done () st'"
  then obtain f' where f: "f = Suc f'" by (cases f) auto
  from data_ended_follows [OF acts assms(1)] have e: "data_ended F st = Done (client_eod st) (others_act F st)" .
  with d assms(2) obtain st1 x st2 where so: "set_offset offset (others_act F st) = Done () st1"
      and t: "dada_client_transfer F f' st1 = Done x st2"
    by (auto simp: f outcome_simps split: if_splits)
  from so assms(3-6) have st1: "idle (dc_context st1)" "dc_header_size st1 = 0" "\<not> client_quit st1" "\<exists>m. dc_header st1 = Copied m"
    by (auto simp: set_offset_def set_header_entry_def dc_header_memory_def set_dc_header_def split: option.splits)
  from transfer_opened [OF t] obtain g res sto where g: "open_function F = Some g" "g st1 = Done res sto" "0 \<le> res" .
  from st1(4) obtain mem where "dc_header st1 = Copied mem" by blast
  with opens st1(1) g have "same_rings st1 sto" unfolding opens_files_def by fastforce
  with st1 have "\<not> client_quit sto" "dc_header_size sto = 0" by (simp_all add: same_rings_def)
  with t g show False
    by (auto simp: dada_client_transfer_def callback_def transfer_header_def split: option.splits)
qed

lemma client_read_takes:
  assumes st: "follows key nb bz n i es st" "\<not> client_eod st" "idle (dc_context st)" "own_header st"
      "direction st = dada_client_reader" "\<not> client_quit st"
    and f: "dada_client_read F f st = Done () st'"
  shows "\<exists>parts es'. follows key nb bz n i es' st' \<and> prefix es es' \<and> \<not> client_eod st' \<and> idle (dc_context st') \<and>
    own_header st' \<and> read_by i es' = complete (add_bytes (concat (map snd parts)) (read_by i es)) \<and>
    (length (concat (map snd parts)) < 2 ^ 64 \<longrightarrow>
       files (dc_context st') = files (dc_context st) @ map (\<lambda>(h, d). h @ d) parts)"
proof -
  from f obtain off st1 st2 st3 where 1: "get_header F f st = Done () st1" and 2: "header_offset st1 = Done off st2"
    and 3: "read_transfers F f off st2 = Done () st3" and 4: "ignore (on_data_block F ipcbuf_reset st3) = Done () st'"
    by (auto simp: dada_client_read_def outcome_simps)
  have mem: "length (fresh_memory F n) = n" for n using memory by (simp add: plain_memory_def)
  obtain es1 m where s1: "follows key nb bz n i es1 st1" "prefix es es1" "read_by i es1 = read_by i es"
    "client_eod st1 = client_eod st" "dc_context st1 = dc_context st" "direction st1 = direction st"
    "client_quit st1 = client_quit st" "dc_header st1 = Copied m" "unat (dc_header_size st1) \<le> length m"
    by (rule get_header_keeps [OF acts mem st(1,4) 1])
  have st2: "st2 = st1" using 2 by (auto simp: header_offset_def split: option.splits prod.splits)
  have "dc_header_size st1 \<noteq> 0"
    using 3 empty_header_crashes [OF s1(1) _ _ s1(8)] s1(4,5,7) st(2,3,6) by (auto simp: st2)
  then have "between_files idle st1" using s1 st(3,5,6) by (simp add: between_files_def with_header_def)
  from read_transfers_takes [OF s1(1) this 3 [unfolded st2]] obtain parts es2 where
    p: "follows key nb bz n i es2 st3" "prefix es1 es2" "between_files idle st3" "client_eod st3"
    "moved False (read_by i es) (concat (map snd parts)) True (read_by i es2)"
    "length (concat (map snd parts)) < 2 ^ 64 \<longrightarrow>
       files (dc_context st3) = files (dc_context st) @ map (\<lambda>(h, d). h @ d) parts"
    using s1(3-5) st(2) by auto
  from reset_follows [OF acts p(1,4) 4] obtain es' where
    q: "follows key nb bz n i es' st'" "prefix es2 es'" "read_by i es' = read_by i es2" "\<not> client_eod st'"
    "dc_context st' = dc_context st3" "direction st' = direction st3" "client_quit st' = client_quit st3"
    "dc_header st' = dc_header st3" "dc_header_size st' = dc_header_size st3" by blast
  have "prefix es es'" using s1(2) p(2) q(2) by (metis prefix_order.trans)
  with p q show ?thesis
    by (intro exI [of _ parts] exI [of _ es'])
      (auto simp: between_files_def with_header_def own_header_def moved_def ending_def)
qed

end

end
