(* ===== verification/Dada_Dbdisk.thy ===== *)
theory Dada_Dbdisk
  imports Disk_Array Client_Read
begin

text \<open>
  src/apps/dada_dbdisk.c: the client that writes the data of a ring to files on an array of disks. Its callbacks,
  and their contract: on disks that accept what is written they are a \<open>file_sink\<close>.
\<close>

section \<open>The callbacks\<close>

record dada_dbdisk =
  array :: disk_array
  db_utc_start :: string
  db_obs_offset :: u64
  file_name :: string
  file_number :: u32
  o_direct :: bool
  chunk_bytes :: u64
  disk_files :: file_system

definition DADA_DBDISK_INIT :: "disk_array \<Rightarrow> file_system \<Rightarrow> dada_dbdisk" where
  "DADA_DBDISK_INIT a fs = \<lparr>array = a, db_utc_start = [], db_obs_offset = 0, file_name = [], file_number = 0,
     o_direct = False, chunk_bytes = 0, disk_files = fs\<rparr>"

definition set_files :: "file_system \<Rightarrow> (dada_dbdisk, 'w) dada_client_t \<Rightarrow> (dada_dbdisk, 'w) dada_client_t" where
  "set_files fs st = st\<lparr>dc_context := (dc_context st)\<lparr>disk_files := fs\<rparr>\<rparr>"

text \<open>A number of the header, \<open>d\<close> without one.\<close>

definition header_number :: "string \<Rightarrow> string \<Rightarrow> u64 \<Rightarrow> u64" where
  "header_number t key d = (case ascii_header_get t key scanf_d of (n, Some v) \<Rightarrow> of_int v | (n, None) \<Rightarrow> d)"

definition zero_padded :: "nat \<Rightarrow> nat \<Rightarrow> string" where
  "zero_padded n k = replicate (n - length (decimal k)) (CHR ''0'') @ decimal k"

definition data_file_name :: "string \<Rightarrow> u64 \<Rightarrow> u32 \<Rightarrow> string" where
  "data_file_name utc offset n =
     utc @ ''_'' @ zero_padded 16 (unat offset) @ ''.'' @ zero_padded 6 (unat n) @ ''.dada''"

text \<open>
  The size of a file, so that it ends on a multiple of what cannot be split; for a multiple of 0, which only a
  product that wraps around gives, the division traps.
\<close>

definition aligned_size :: "u64 \<Rightarrow> u64 \<Rightarrow> u64 \<Rightarrow> u64 option" where
  "aligned_size offset n multiple =
    (if multiple = 0 then None
     else let gap = (offset + n) mod multiple; n = n - gap
          in Some (if gap > multiple div 2 then n + multiple else n))"

definition byte_multiple :: "bool \<Rightarrow> u64 \<Rightarrow> u64" where
  "byte_multiple direct resolution =
    (let m = (if direct then 512 else 1) in if resolution > 0 then m * resolution else m)"

text \<open>Whether the file goes on with the observation of the one before.\<close>

definition next_file_number :: "string \<Rightarrow> u64 \<Rightarrow> dada_dbdisk \<Rightarrow> u32" where
  "next_file_number utc offset c =
    (if utc \<noteq> db_utc_start c \<or> offset \<noteq> db_obs_offset c then 0 else file_number c + 1)"

definition file_size :: "bool \<Rightarrow> u64 \<Rightarrow> string \<Rightarrow> u64 option" where
  "file_size direct offset t =
    (let n = header_number t ''FILE_SIZE'' 0; rate = header_number t ''BYTES_PER_SECOND'' 64000000;
         n = (if n = 0 then rate * 10 else n)
     in aligned_size offset n (byte_multiple direct (header_number t ''RESOLUTION'' 0)))"

definition open_data_file :: "os \<Rightarrow> u64 \<Rightarrow> (int, dada_dbdisk, 'w) client_call" where
  "open_data_file os n st =
    (let c = dc_context st
     in case disk_array_open os (array c) (file_name c) n (if o_direct c then {O_DIRECT} else {}) (disk_files c) of
          Done (d, full, bsize) fs \<Rightarrow>
            (let st = st\<lparr>dc_context := c\<lparr>file_name := full, disk_files := fs\<rparr>\<rparr>
             in if d < 0 then Done (-1) st
                else Done 0 (st\<lparr>fd := d, transfer_bytes := n,
                  optimal_bytes := 512 * (case bsize of None \<Rightarrow> 0 | Some b \<Rightarrow> b)\<rparr>))
        | _ \<Rightarrow> Crash)"

text \<open>The name of the start time has room for 63 characters.\<close>

definition file_open_function :: "os \<Rightarrow> (int, dada_dbdisk, 'w) client_call" where
  "file_open_function os st =
    (case dc_header_text st of
       None \<Rightarrow> Crash
     | Some t \<Rightarrow>
         (let utc = (case ascii_header_get t ''UTC_START'' scanf_s of (n, Some u) \<Rightarrow> u | (n, None) \<Rightarrow> ''UNKNOWN'');
              offset = header_number t ''OBS_OFFSET'' 0;
              n = next_file_number utc offset (dc_context st);
              c = (dc_context st)\<lparr>file_number := n\<rparr>
          in if 64 \<le> length utc then Crash
             else
               andthen (set_header_entry ''FILE_NUMBER'' (ucast n) (st\<lparr>dc_context := c\<rparr>)) (\<lambda>_ st.
               let st = st\<lparr>dc_context := c\<lparr>db_utc_start := utc, db_obs_offset := offset,
                                           file_name := data_file_name utc offset n\<rparr>\<rparr>
               in case Option.bind (dc_header_text st) (file_size (o_direct c) offset) of
                    None \<Rightarrow> Crash
                  | Some n \<Rightarrow> andthen (set_header_entry ''FILE_SIZE'' n st) (\<lambda>_. open_data_file os n))))"

text \<open>
  One call of \<open>write\<close>; bytes behind the end of the data are not the client's to write. The count is an
  unsigned number, also when it is an error.
\<close>

definition write_bytes :: "os \<Rightarrow> u8 list \<Rightarrow> u64 \<Rightarrow> u64 \<Rightarrow> (u64, dada_dbdisk, 'w) client_call" where
  "write_bytes os d from n st =
    (if length d < unat from + unat n then Crash
     else let (k, fs) = fs_write os (fd st) (take (unat n) (drop (unat from) d)) (disk_files (dc_context st))
          in Done (of_int k) (set_files fs st))"

definition chunk_size :: "u64 \<Rightarrow> u64 \<Rightarrow> u64 \<Rightarrow> u64" where
  "chunk_size chunk data_size sofar =
    (if chunk = 0 then data_size
     else if sofar + chunk > data_size then data_size - sofar else chunk)"

text \<open>
  The last bytes of a file sofar with \<open>O_DIRECT\<close>: whole blocks, then the rest after the file was opened
  again without it.
\<close>

definition write_tail :: "os \<Rightarrow> u8 list \<Rightarrow> u64 \<Rightarrow> u64 \<Rightarrow> (u64, dada_dbdisk, 'w) client_call" where
  "write_tail os d sofar to_write st =
     andthen (write_bytes os d sofar ((to_write div 512) * 512) st) (\<lambda>wrote st.
     let sofar = sofar + wrote; c = dc_context st;
         (fd', fs) = disk_array_reopen os (fd st) (file_name c) (disk_files c);
         st = (set_files fs st)\<lparr>fd := fd'\<rparr>
     in if fd' < 0 then Done sofar st
        else andthen (write_bytes os d sofar (to_write - wrote)
               (st\<lparr>dc_context := (dc_context st)\<lparr>o_direct := False\<rparr>\<rparr>)) (\<lambda>wrote. Done (sofar + wrote)))"

text \<open>The loop is given a number of turns; \<open>Wait\<close> means that more are needed, as for a disk that accepts nothing.\<close>

fun write_chunks :: "os \<Rightarrow> nat \<Rightarrow> u8 list \<Rightarrow> u64 \<Rightarrow> (u64, dada_dbdisk, 'w) client_call" where
  "write_chunks os n d sofar st =
    (let data_size = of_nat (length d); c = dc_context st; to_write = chunk_size (chunk_bytes c) data_size sofar
     in if \<not> sofar < data_size then Done sofar st
        else case n of
          0 \<Rightarrow> Wait st
        | Suc m \<Rightarrow>
            if o_direct c \<and> to_write mod 512 \<noteq> 0 then write_tail os d sofar to_write st
            else andthen (write_bytes os d sofar to_write st) (\<lambda>wrote. write_chunks os m d (sofar + wrote)))"

declare write_chunks.simps [simp del]

definition file_write_function :: "os \<Rightarrow> nat \<Rightarrow> u8 list \<Rightarrow> (u8 list \<times> int, dada_dbdisk, 'w) client_call" where
  "file_write_function os n d st = andthen (write_chunks os n d 0 st) (\<lambda>k. Done (d, sint k))"

text \<open>The block version is given an address in the data block.\<close>

definition file_write_block_function :: "os \<Rightarrow> nat \<Rightarrow> address \<Rightarrow> u64 \<Rightarrow> u64 \<Rightarrow> (int, dada_dbdisk, 'w) client_call" where
  "file_write_block_function os n a data_size block_id st =
    (let d = take (unat data_size) (drop (unat (snd a)) (mem (dc_data_ring st) (fst a)))
     in if length d < unat data_size then Crash
        else andthen (file_write_function os n d st) (\<lambda>(d, k). Done k))"

text \<open>Failures to close, to change the mode or to remove are only logged.\<close>

definition file_close_function :: "u64 \<Rightarrow> (int, dada_dbdisk, 'w) client_call" where
  "file_close_function bytes_written st =
    (let c = dc_context st; fs = snd (fs_close (fd st) (disk_files c));
         fs = (if bytes_written = 0 then fs_remove (file_name c) fs else fs)
     in Done 0 (set_files fs st))"

text \<open>What \<open>main\<close> installs; \<open>zero_copy\<close> is the option z.\<close>

definition dbdisk_functions :: "os \<Rightarrow> (u8 list \<Rightarrow> nat) \<Rightarrow> bool \<Rightarrow> u64 \<Rightarrow> (nat \<Rightarrow> u8 list) \<Rightarrow>
    ('w \<times> ring \<times> ring \<Rightarrow> 'w \<times> ring \<times> ring) \<Rightarrow> (dada_dbdisk, 'w) client_functions" where
  "dbdisk_functions os turns zero_copy page fresh acts =
    \<lparr>open_function = Some (file_open_function os),
     io_function = Some (\<lambda>d. file_write_function os (turns d) d),
     io_block_function = (if zero_copy
       then Some (\<lambda>a n. file_write_block_function os (Suc (unat n)) a n) else None),
     close_function = Some file_close_function,
     page_size = page, fresh_memory = fresh, processes = acts\<rparr>"

section \<open>The contract\<close>

text \<open>Between files: nothing is overwritten, no \<open>O_DIRECT\<close>, blocks of a sensible size, and writes in one piece.\<close>

definition dbdisk_idle :: "dada_dbdisk \<Rightarrow> bool" where
  "dbdisk_idle c \<longleftrightarrow> distinct (map fst (dir (disk_files c))) \<and> \<not> o_direct c \<and> \<not> overwrite (array c) \<and>
     (\<forall>k \<in> set (disks (array c)). unat (f_bsize k) < 2 ^ 50) \<and> chunk_bytes c = 0"

text \<open>The file that is open is the newest, and the position is at its end.\<close>

definition dbdisk_ready :: "int \<Rightarrow> dada_dbdisk \<Rightarrow> bool" where
  "dbdisk_ready d c \<longleftrightarrow> dbdisk_idle c \<and> (\<exists>fs x. dir (disk_files c) = fs @ [(file_name c, x)] \<and>
     descriptor d (disk_files c) = Some (file_name c, length x))"

definition file_contents :: "dada_dbdisk \<Rightarrow> u8 list list" where
  "file_contents c = map snd (dir (disk_files c))"

abbreviation accepting :: "os \<Rightarrow> os" where
  "accepting os \<equiv> os\<lparr>accepts := (\<lambda>fs d n. int n)\<rparr>"

lemma update_last: "p \<notin> fst ` set fs \<Longrightarrow> AList.update p y (fs @ [(p, x)]) = fs @ [(p, y)]"
  by (induction fs) auto

lemma map_of_last: "p \<notin> fst ` set fs \<Longrightarrow> map_of (fs @ [(p, x)]) p = Some x"
  by (induction fs) auto

lemma write_at_end: "write_at (length x) d x = x @ d"
  by (simp add: write_at_def)

lemma descriptor_upd:
  "descriptor d fs = Some q \<Longrightarrow> descriptor d (fs\<lparr>dir := ds, descriptors := (descriptors fs)[nat d := Some p]\<rparr>) = Some p"
  by (auto simp: descriptor_def split: if_splits)

lemma write_bytes_appends:
  assumes r: "dbdisk_ready (fd st) (dc_context st)" and n: "length d < 2 ^ 64"
  obtains c where "write_bytes (accepting os) d 0 (of_nat (length d)) st = Done (of_nat (length d)) (st\<lparr>dc_context := c\<rparr>)"
    "dbdisk_ready (fd st) c" "file_contents c = add_last d (file_contents (dc_context st))"
proof -
  let ?c = "dc_context st"
  from r obtain fs x where f: "dir (disk_files ?c) = fs @ [(file_name ?c, x)]"
    "descriptor (fd st) (disk_files ?c) = Some (file_name ?c, length x)" and i: "dbdisk_idle ?c"
    by (auto simp: dbdisk_ready_def)
  then have p: "file_name ?c \<notin> fst ` set fs" by (simp add: dbdisk_idle_def)
  let ?fs = "(disk_files ?c)\<lparr>dir := fs @ [(file_name ?c, x @ d)],
    descriptors := (descriptors (disk_files ?c))[nat (fd st) := Some (file_name ?c, length (x @ d))]\<rparr>"
  have "map_of (dir (disk_files ?c)) (file_name ?c) = Some x" using map_of_last [OF p] f(1) by simp
  then have "fs_write (accepting os) (fd st) d (disk_files ?c) = (int (length d), ?fs)"
    using f p by (simp add: fs_write_def update_last write_at_end Let_def)
  then have "write_bytes (accepting os) d 0 (of_nat (length d)) st =
      Done (of_nat (length d)) (st\<lparr>dc_context := ?c\<lparr>disk_files := ?fs\<rparr>\<rparr>)"
    using n by (simp add: write_bytes_def set_files_def)
  moreover have "dbdisk_ready (fd st) (?c\<lparr>disk_files := ?fs\<rparr>)"
    using i f descriptor_upd [OF f(2), where ds = "fs @ [(file_name ?c, x @ d)]"]
    by (auto simp: dbdisk_ready_def dbdisk_idle_def)
  moreover have "file_contents (?c\<lparr>disk_files := ?fs\<rparr>) = add_last d (file_contents ?c)"
    by (simp add: file_contents_def f(1))
  ultimately show thesis by (rule that)
qed

lemma dbdisk_takes: "takes_bytes dbdisk_ready file_contents (dbdisk_functions (accepting os) (\<lambda>d. Suc (length d)) z page fresh acts)"
  unfolding takes_bytes_def
proof (intro exI [of _ "\<lambda>d. file_write_function (accepting os) (Suc (length d)) d"] conjI allI impI)
  fix d :: "u8 list" and st :: "(dada_dbdisk, 'a) dada_client_t"
  assume r: "dbdisk_ready (fd st) (dc_context st)"
  then show "file_contents (dc_context st) \<noteq> []" by (auto simp: dbdisk_ready_def file_contents_def)
  assume n: "length d < 2 ^ 64"
  obtain c where c: "write_bytes (accepting os) d 0 (of_nat (length d)) st = Done (of_nat (length d)) (st\<lparr>dc_context := c\<rparr>)"
    "dbdisk_ready (fd st) c" "file_contents c = add_last d (file_contents (dc_context st))"
    by (rule write_bytes_appends [OF r n])
  have i: "\<not> o_direct (dc_context st)" "chunk_bytes (dc_context st) = 0" "file_contents (dc_context st) \<noteq> []"
    using r by (auto simp: dbdisk_ready_def dbdisk_idle_def file_contents_def)
  show "\<exists>c. file_write_function (accepting os) (Suc (length d)) d st =
      Done (d, sint (of_nat (length d) :: u64)) (st\<lparr>dc_context := c\<rparr>) \<and> dbdisk_ready (fd st) c \<and>
      file_contents c = add_last d (file_contents (dc_context st))"
  proof (cases "d = []")
    case True
    then show ?thesis using r i
      by (intro exI [of _ "dc_context st"]) (simp add: file_write_function_def write_chunks.simps)
  next
    case False
    then have "(0 :: u64) < of_nat (length d)" using n by (simp add: word_less_nat_alt)
    moreover have "write_chunks (accepting os) (length d) d (of_nat (length d)) (st\<lparr>dc_context := c\<rparr>) =
        Done (of_nat (length d)) (st\<lparr>dc_context := c\<rparr>)"
      by (simp add: write_chunks.simps)
    ultimately have "file_write_function (accepting os) (Suc (length d)) d st =
        Done (d, sint (of_nat (length d) :: u64)) (st\<lparr>dc_context := c\<rparr>)"
      using c(1) i by (simp add: file_write_function_def write_chunks.simps [of _ "Suc _"] chunk_size_def Let_def)
    with c(2,3) show ?thesis by blast
  qed
qed (simp add: dbdisk_functions_def)

lemma dbdisk_closes: "closes_files dbdisk_idle dbdisk_ready file_contents (dbdisk_functions os turns z page fresh acts)"
  unfolding closes_files_def
proof (intro exI [of _ file_close_function] conjI allI impI)
  fix k :: u64 and st :: "(dada_dbdisk, 'a) dada_client_t"
  let ?c = "dc_context st"
  assume r: "dbdisk_ready (fd st) ?c"
  then obtain fs x where f: "dir (disk_files ?c) = fs @ [(file_name ?c, x)]" and i: "dbdisk_idle ?c"
    "descriptor (fd st) (disk_files ?c) = Some (file_name ?c, length x)"
    by (auto simp: dbdisk_ready_def)
  let ?fs = "snd (fs_close (fd st) (disk_files ?c))"
  have d: "dir ?fs = fs @ [(file_name ?c, x)]" using f i(2) by (simp add: fs_close_def)
  have p: "file_name ?c \<notin> fst ` set fs" using f i by (simp add: dbdisk_idle_def)
  have rm: "dir (fs_remove (file_name ?c) ?fs) = fs"
    using p by (auto simp: fs_remove_def d filter_id_conv image_iff)
  let ?c' = "?c\<lparr>disk_files := if k = 0 then fs_remove (file_name ?c) ?fs else ?fs\<rparr>"
  have "file_close_function k st = Done 0 (st\<lparr>dc_context := ?c'\<rparr>)"
    by (simp add: file_close_function_def set_files_def Let_def)
  moreover have "dbdisk_idle ?c'" using i(1) rm d f by (auto simp: dbdisk_idle_def)
  moreover have "file_contents ?c' = file_contents ?c \<or> k = 0 \<and> file_contents ?c' = butlast (file_contents ?c)"
    using rm d f by (auto simp: file_contents_def)
  ultimately show "\<exists>res c. file_close_function k st = Done res (st\<lparr>dc_context := c\<rparr>) \<and> 0 \<le> res \<and> dbdisk_idle c \<and>
      (file_contents c = file_contents ?c \<or> k = 0 \<and> file_contents c = butlast (file_contents ?c))"
    by (intro exI [of _ 0] exI [of _ ?c']) simp
qed (simp add: dbdisk_functions_def)

lemma free_descriptor_le: "free_descriptor ds \<le> length ds"
  by (induction ds rule: free_descriptor.induct) auto

lemma new_descriptor_opens:
  assumes "new_descriptor p fs = (d, fs')"
  shows "0 \<le> d" "dir fs' = dir fs" "descriptor d fs' = Some (p, 0)"
  using assms free_descriptor_le [of "descriptors fs"]
  by (auto simp: new_descriptor_def Let_def descriptor_def nth_append)

lemma array_open_new:
  assumes "disk_array_open os a name need flags fs = Done (d, full, b) fs'" "0 \<le> d" "\<not> overwrite a"
  shows "full \<notin> fst ` set (dir fs)" "dir fs' = dir fs @ [(full, [])]" "descriptor d fs' = Some (full, 0)"
    "\<exists>k \<in> set (disks a). b = Some (f_bsize k)"
proof -
  from assms obtain k where k: "find (\<lambda>d. get_available os fs (path d) > need) (disks a) = Some k"
    and o: "fs_open os full ({O_CREAT, O_TRUNC} \<union> flags \<union> {O_EXCL}) fs = (d, fs')" and b: "b = Some (f_bsize k)"
    by (auto simp: disk_array_open_def open_first_fit Let_def split: option.splits if_splits prod.splits)
  show "\<exists>k \<in> set (disks a). b = Some (f_bsize k)" using b k by (auto simp: find_Some_iff)
  from o assms(2) have m: "map_of (dir fs) full = None"
    and n: "new_descriptor full (fs\<lparr>dir := dir fs @ [(full, [])]\<rparr>) = (d, fs')"
    by (auto simp: fs_open_def split: if_splits option.splits)
  show "full \<notin> fst ` set (dir fs)" using m by (simp add: map_of_eq_None_iff)
  show "dir fs' = dir fs @ [(full, [])]" "descriptor d fs' = Some (full, 0)" using new_descriptor_opens [OF n] by simp_all
qed

lemma set_header_entry_copied:
  assumes "set_header_entry key n st = Done u st'" "dc_header st = Copied m"
  obtains m' where "st' = st\<lparr>dc_header := Copied m'\<rparr>" "length m' = length m"
  using assms
  by (auto simp: set_header_entry_def dc_header_memory_def set_dc_header_def store_string_length split: option.splits)

lemma open_data_file_opens:
  assumes "open_data_file os n st = Done res st'" "0 \<le> res" "dbdisk_idle (dc_context st)"
  obtains c d b where "st' = st\<lparr>dc_context := c, fd := d, transfer_bytes := n, optimal_bytes := b\<rparr>" "dbdisk_ready d c"
    "file_contents c = file_contents (dc_context st) @ [[]]" "unat b < 2 ^ 63"
proof -
  let ?c = "dc_context st"
  have i: "\<not> overwrite (array ?c)" "distinct (map fst (dir (disk_files ?c)))"
    "\<forall>k \<in> set (disks (array ?c)). unat (f_bsize k) < 2 ^ 50" "\<not> o_direct ?c" "chunk_bytes ?c = 0"
    using assms(3) by (simp_all add: dbdisk_idle_def)
  from assms(1,2) obtain d full b fs' where
    o: "disk_array_open os (array ?c) (file_name ?c) n {} (disk_files ?c) = Done (d, full, b) fs'" "0 \<le> d"
    and st': "st' = st\<lparr>dc_context := ?c\<lparr>file_name := full, disk_files := fs'\<rparr>, fd := d, transfer_bytes := n,
      optimal_bytes := 512 * (case b of None \<Rightarrow> 0 | Some b \<Rightarrow> b)\<rparr>"
    using i(4) by (auto simp: open_data_file_def Let_def split: outcome.splits if_splits)
  note O = array_open_new [OF o i(1)]
  from O(4) i(3) obtain k :: disk where k: "b = Some (f_bsize k)" "unat (f_bsize k) < 2 ^ 50" by blast
  then have "unat (512 * f_bsize k) < 2 ^ 63" by (simp add: unat_word_ariths)
  moreover have "dbdisk_ready d (?c\<lparr>file_name := full, disk_files := fs'\<rparr>)"
    using i O(1-3) by (auto simp: dbdisk_ready_def dbdisk_idle_def)
  ultimately show thesis using that st' O(2) k(1) by (simp add: file_contents_def)
qed

lemma dbdisk_opens: "opens_files dbdisk_idle dbdisk_ready file_contents (dbdisk_functions os turns z page fresh acts)"
  unfolding opens_files_def
proof (intro exI [of _ "file_open_function os"] conjI allI impI)
  fix st st' :: "(dada_dbdisk, 'a) dada_client_t" and m and res :: int
  assume i: "dbdisk_idle (dc_context st)" and m: "dc_header st = Copied m"
    and g: "file_open_function os st = Done res st'" "0 \<le> res"
  from g(1) obtain utc offset n st1 st3 k where
    1: "set_header_entry ''FILE_NUMBER'' (ucast n) (st\<lparr>dc_context := (dc_context st)\<lparr>file_number := n\<rparr>\<rparr>) = Done () st1"
    and 3: "set_header_entry ''FILE_SIZE'' k (st1\<lparr>dc_context := (dc_context st)\<lparr>file_number := n, db_utc_start := utc,
        db_obs_offset := offset, file_name := data_file_name utc offset n\<rparr>\<rparr>) = Done () st3"
    and o: "open_data_file os k st3 = Done res st'"
    by (auto simp: file_open_function_def outcome_simps Let_def split: option.splits if_splits)
  obtain m1 where st1: "st1 = st\<lparr>dc_context := (dc_context st)\<lparr>file_number := n\<rparr>, dc_header := Copied m1\<rparr>"
    "length m1 = length m" by (rule set_header_entry_copied [OF 1]) (use m in auto)
  obtain m3 where st3: "st3 = st\<lparr>dc_context := (dc_context st)\<lparr>file_number := n, db_utc_start := utc,
        db_obs_offset := offset, file_name := data_file_name utc offset n\<rparr>, dc_header := Copied m3\<rparr>"
    "length m3 = length m" by (rule set_header_entry_copied [OF 3]) (use st1 in auto)
  have "dbdisk_idle (dc_context st3)" using i by (simp add: st3 dbdisk_idle_def)
  from open_data_file_opens [OF o g(2) this] obtain c d b where
    st': "st' = st3\<lparr>dc_context := c, fd := d, transfer_bytes := k, optimal_bytes := b\<rparr>" "dbdisk_ready d c"
    "file_contents c = file_contents (dc_context st3) @ [[]]" "unat b < 2 ^ 63" .
  show "same_rings st st'" using m st3(2) by (simp add: same_rings_def st' st3(1))
  show "dbdisk_ready (fd st') (dc_context st')" "unat (optimal_bytes st') < 2 ^ 63"
    "file_contents (dc_context st') = file_contents (dc_context st) @ [[]]"
    using st'(2-4) by (simp_all add: st'(1) st3(1) file_contents_def)
qed (simp add: dbdisk_functions_def)

section \<open>The other parties\<close>

text \<open>
  The writer and the other readers take turns: \<open>pick\<close> chooses the next call from what they know. A call of reader
  \<open>i\<close> is not theirs to make, and one that cannot go on waits.
\<close>

fun call_by :: "io_call \<Rightarrow> nat option" where
  "call_by (Read i n) = Some i"
| "call_by (Next i) = Some i"
| "call_by c = None"

definition party_turn :: "nat \<Rightarrow> (parties \<times> ring \<Rightarrow> io_call) \<Rightarrow> parties \<times> ring \<times> ring \<Rightarrow> parties \<times> ring \<times> ring" where
  "party_turn i pick = (\<lambda>((w, f, H), dr, hr).
     let c = pick ((w, f, H), dr)
     in if call_by c = Some i then ((w, f, H), dr, hr)
        else case io_exec c \<lparr>wr = w, rd = f, rg = dr, holds = H\<rparr> of
               None \<Rightarrow> ((w, f, H), dr, hr)
             | Some (e, s) \<Rightarrow> ((wr s, rd s, holds s), rg s, hr))"

lemma party_exec:
  assumes "call_by c \<noteq> Some i"
  shows "io_exec c \<lparr>wr = w, rd = f(i := h), rg = r, holds = H(i := b)\<rparr> =
    map_option (\<lambda>(e, s). (e, s\<lparr>rd := (rd s)(i := h), holds := (holds s)(i := b)\<rparr>))
      (io_exec c \<lparr>wr = w, rd = f, rg = r, holds = H\<rparr>)"
  using assms by (cases c) (auto simp: fun_upd_twist split: option.splits)

lemma party_event: "io_exec c s = Some (e, s') \<Longrightarrow> call_by c \<noteq> Some i \<Longrightarrow> not_by i e"
  by (cases c) (auto simp: not_by_def split: if_splits option.splits)

lemma dbdisk_parties: "parties_act i (dbdisk_functions os turns z page fresh (party_turn i pick))"
  unfolding parties_act_def
proof (intro allI impI)
  fix st :: "(dada_dbdisk, parties) dada_client_t" and s
  let ?F = "dbdisk_functions os turns z page fresh (party_turn i pick)"
  assume s: "client_system i st = Some s"
  obtain w f H where w: "dc_world st = (w, f, H)" by (metis prod_cases3)
  with s obtain h where h: "dc_data_block st = Some h"
    and s': "s = \<lparr>wr = w, rd = f(i := h), rg = dc_data_ring st, holds = H(i := curbuf h \<noteq> None)\<rparr>"
    by (auto simp: client_system_def)
  let ?c = "pick ((w, f, H), dc_data_ring st)" and ?s0 = "\<lparr>wr = w, rd = f, rg = dc_data_ring st, holds = H\<rparr>"
  show "\<exists>es s'. client_system i (others_act ?F st) = Some s' \<and> run io_step s es s' \<and> list_all (not_by i) es"
  proof (cases "call_by ?c = Some i \<or> io_exec ?c ?s0 = None")
    case True
    then have "client_system i (others_act ?F st) = Some s"
      using s w by (auto simp: others_act_def dbdisk_functions_def party_turn_def client_system_def Let_def)
    then show ?thesis by (intro exI [of _ "[]"]) (auto intro: run.run_Nil)
  next
    case False
    then obtain e t where e: "io_exec ?c ?s0 = Some (e, t)" and c: "call_by ?c \<noteq> Some i" by auto
    let ?t = "t\<lparr>rd := (rd t)(i := h), holds := (holds t)(i := curbuf h \<noteq> None)\<rparr>"
    have ex: "io_exec ?c s = Some (e, ?t)" using party_exec [OF c, of w f h] e by (simp add: s')
    then have "run io_step s [e] ?t"
      by (intro run_Cons [where t = ?t] run.run_Nil) (auto simp: io_step_def)
    moreover have "client_system i (others_act ?F st) = Some ?t"
      using h c e w by (simp add: others_act_def dbdisk_functions_def party_turn_def client_system_def Let_def)
    moreover have "not_by i e" by (rule party_event [OF ex c])
    ultimately show ?thesis by (intro exI [of _ "[e]"] exI [of _ ?t]) simp
  qed
qed

lemma dbdisk_memory: "plain_memory (dbdisk_functions os turns False 4096 (fresh_bytes g) acts)"
  by (simp add: filled_memory dbdisk_functions_def)

abbreviation dbdisk_client :: "os \<Rightarrow> nat \<Rightarrow> (parties \<times> ring \<Rightarrow> io_call) \<Rightarrow> u8 \<Rightarrow>
    (dada_dbdisk, parties) client_functions" where
  "dbdisk_client os i pick g \<equiv>
     dbdisk_functions (accepting os) (\<lambda>d. Suc (length d)) False 4096 (fresh_bytes g) (party_turn i pick)"

interpretation dbdisk: file_sink "dbdisk_client os i pick g" i dbdisk_idle dbdisk_ready file_contents for os i pick g
  by unfold_locales (rule dbdisk_parties dbdisk_opens dbdisk_takes dbdisk_closes dbdisk_memory)+

end
