(* ===== verification/Client_Properties.thy ===== *)
theory Client_Properties
  imports Dada_Dbdisk
begin

text \<open>
  The properties of the read client: what one file gets, and that the files dada_dbdisk writes are, without
  their headers, the transfers of the ring.
\<close>

section \<open>A concrete client\<close>

text \<open>
  One disk, a ring of two blocks of two bytes in which the writer wrote a transfer of three bytes, and a header that
  asks for files of two bytes.
\<close>

definition demo_os :: os where
  "demo_os = \<lparr>statvfs = (\<lambda>p. Some (1, 1000)), statfs = (\<lambda>fs p. Some (1, 1000)), device_of = (\<lambda>p. Some 7),
     refuses = (\<lambda>fs p. False), accepts = (\<lambda>fs d n. int n)\<rparr>"

definition demo_disk :: dada_dbdisk where
  "demo_disk = DADA_DBDISK_INIT \<lparr>disks = [\<lparr>device = 7, path = ''d'', f_bsize = 1\<rparr>], space = 1000, overwrite = False\<rparr>
     \<lparr>dir = [], descriptors = []\<rparr>"

definition demo_file_header :: "u8 list" where
  "demo_file_header = (let t = ''HDR_SIZE 160'' @ [NL] @ ''FILE_SIZE 2'' @ [NL] @ ''OBS_OFFSET 0'' @ [NL] @ ''FILE_NUMBER 0'' @ [NL]
     in map of_char t @ replicate (160 - length t) 0)"

definition demo_header_ring :: ring where
  "demo_header_ring = zero_ring\<lparr>bufsz := 160, nbufs := 2, n_readers := 1, w_buf_curr := 1, w_buf_next := 1,
     mem := (\<lambda>b. demo_file_header), sem_data := (\<lambda>i q. if q = IPCBUF_FULL then 1 else 0)\<rparr>"

definition demo_reader :: "unit ipcio_ext sys \<Rightarrow> (dada_dbdisk, parties) dada_client_t" where
  "demo_reader s = \<lparr>dc_data_block = Some (rd s 0),
     dc_header_block = Some (IPCBUF_INIT\<lparr>state := IPCBUF_READING, iread := 0\<rparr>), dc_context = demo_disk,
     dc_header = No_header, dc_header_size = 0, header_transfer = True, direction = dada_client_reader, fd = -1,
     transfer_bytes = 0, optimal_bytes = 0, client_quit = False, io_buffer = [], dc_data_ring = rg s,
     dc_header_ring = demo_header_ring, dc_world = (wr s, rd s, holds s)\<rparr>"

definition demo_read :: "unit ipcio_ext sys \<Rightarrow> (unit, (dada_dbdisk, parties) dada_client_t) outcome" where
  "demo_read s = dada_client_read (dbdisk_client demo_os 0 (\<lambda>x. Next 0) 0) 10 (demo_reader s)"

definition demo_files :: "(unit, (dada_dbdisk, parties) dada_client_t) outcome \<Rightarrow> nat \<times> (string \<times> u8 list) list" where
  "demo_files out = (case out of Done u st' \<Rightarrow> (0, map (\<lambda>(p, d). (p, drop 160 d)) (dir (disk_files (dc_context st')))) |
    Err c st \<Rightarrow> (1, []) | Wait st \<Rightarrow> (2, []) | Crash \<Rightarrow> (3, []))"

lemma demo_read_run:
  "map_option (\<lambda>(es, s). (es, demo_files (demo_read s), ipcbuf_eod (rd s 0, rg s))) (exec_io 56026 2 2 1 [Write [1, 2, 3], Finish]) =
    Some ([Wrote [1, 2, 3], Finished], (0,
      [(''d/UNKNOWN_0000000000000000.000000.dada'', [1, 2]), (''d/UNKNOWN_0000000000000002.000000.dada'', [3])]), False)"
  by code_simp

lemma demo_follows:
  assumes "exec_io 56026 2 2 1 cs = Some (es, s)"
  shows "follows 56026 2 2 1 0 es (demo_reader s)"
    "client_eod (demo_reader s) = ipcbuf_eod (rd s 0, rg s)"
proof -
  have r: "io_reachable 56026 2 2 1 es s" by (rule exec_io_reachable [OF assms]) simp_all
  then obtain a where "io_rel s a (written es, \<lambda>i. read_by i es)" by (rule io_reachableD)
  moreover have "n_readers (rg s) = 1" using io_reachable_shape [OF r] by (simp add: io_shape_def)
  ultimately have "holds s 0 = (curbuf (rd s 0) \<noteq> None)" by (simp add: io_rel_def reader_io_def)
  then have "client_system 0 (demo_reader s) = Some s"
    by (simp add: client_system_def demo_reader_def fun_upd_idem)
  then show "follows 56026 2 2 1 0 es (demo_reader s)" using r by (simp add: follows_def)
  show "client_eod (demo_reader s) = ipcbuf_eod (rd s 0, rg s)" by (simp add: client_eod_def demo_reader_def)
qed

lemma written_snoc:
  "written (es @ [e]) =
    (case e of Wrote d \<Rightarrow> add_bytes d (written es) | Finished \<Rightarrow> complete (written es) | _ \<Rightarrow> written es)"
  by (cases e) (simp_all add: written_def)

lemma written_prefix:
  assumes "prefix es es'"
  shows "prefix (fst (written es)) (fst (written es'))"
proof -
  have "prefix (fst (written es)) (fst (written (es @ fs)))" for fs
  proof (induction fs rule: rev_induct)
    case (snoc e fs)
    have "fst (add_bytes d h) = fst h" "fst (complete h) = fst h @ [snd h]" for d and h :: history
      by (simp_all add: add_bytes_def complete_def split: prod.splits)
    then have "prefix (fst (written (es @ fs))) (fst (written ((es @ fs) @ [e])))"
      unfolding written_snoc by (cases e) simp_all
    with snoc show ?case by simp
  qed simp
  moreover obtain fs where "es' = es @ fs" using assms by (rule prefixE)
  ultimately show ?thesis by simp
qed

lemma demo_header_length: "length demo_file_header = 160"
  by code_simp

lemma demo_disk_idle: "dbdisk_idle demo_disk"
  by (simp add: dbdisk_idle_def demo_disk_def DADA_DBDISK_INIT_def)

section \<open>One file\<close>

text \<open>C37: a client whose target could open a file, and keeps to the contract of a target, puts the header and then
  bytes of the transfer into the file, at most \<open>transfer_bytes\<close> of them, and fewer only at the end of the transfer;
  they are the next bytes of the transfer. It does not fail. It sleeps only when everything the writer posted
  was read, and makes at most a turn for each byte and one more.\<close>

theorem file_gets_next_bytes:
  assumes "parties_act i F" "opens_files idle ready files F" "takes_bytes ready files F" "closes_files idle ready files F"
    and "plain_memory F" "follows key nb bz n i es st" "between_files idle st" "\<not> client_eod st"
    and "open_function F = Some g" "g st = Done res st1" "0 \<le> res"
  shows "case dada_client_transfer F f st of
      Done x st' \<Rightarrow> \<exists>d es'. follows key nb bz n i es' st' \<and> prefix es es' \<and> between_files idle st' \<and>
        read_by i es' = ending (client_eod st') (add_bytes d (read_by i es)) \<and> x = sint (of_nat (length d) :: u64) \<and>
        (if transfer_bytes st1 = 0 then client_eod st'
         else length d \<le> unat (transfer_bytes st1) \<and> (client_eod st' \<or> length d = unat (transfer_bytes st1))) \<and>
        (length d < 2 ^ 64 \<longrightarrow> files (dc_context st') = files (dc_context st) @ [header_part st1 @ d] \<or>
           d = [] \<and> files (dc_context st') = files (dc_context st))
    | Wait st' \<Rightarrow> drained i (dc_data_ring st') \<or> (\<exists>d es'. follows key nb bz n i es' st' \<and> prefix es es' \<and>
        read_by i es' = ending (client_eod st') (add_bytes d (read_by i es)) \<and>
        files (dc_context st') = files (dc_context st) @ [header_part st1 @ d] \<and> f \<le> length d + 1)
    | _ \<Rightarrow> False"
proof -
  have "file_sink F i idle ready files" by (rule file_sink.intro) fact+
  from file_sink.transfer_takes [OF this assms(6,7,9-11), of f] show ?thesis
    using assms(8) by (auto simp: moved_def split: outcome.splits if_splits)
qed

definition demo_between :: "unit ipcio_ext sys \<Rightarrow> (dada_dbdisk, parties) dada_client_t" where
  "demo_between s = (demo_reader s)\<lparr>dc_header := Copied demo_file_header, dc_header_size := 160\<rparr>"

definition opened :: "(int, (dada_dbdisk, parties) dada_client_t) outcome \<Rightarrow> (int \<times> u64 \<times> bool) option" where
  "opened out = (case out of
     Done res st \<Rightarrow> Some (res, transfer_bytes st, length (header_part st) = 160) | _ \<Rightarrow> None)"

lemma demo_open_run:
  "map_option (\<lambda>(es, s). (es, opened (file_open_function (accepting demo_os) (demo_between s)), ipcbuf_eod (rd s 0, rg s)))
     (exec_io 56026 2 2 1 [Write [1, 2, 3], Finish]) =
    Some ([Wrote [1, 2, 3], Finished], Some (0, 2, True), False)"
  by code_simp

theorem file_gets_next_bytes_witness:
  "\<exists>s. case dada_client_transfer (dbdisk_client demo_os 0 (\<lambda>x. Next 0) 0) 3 (demo_between s) of
      Done x st' \<Rightarrow> \<exists>d h. length d \<le> 2 \<and> length h = 160 \<and>
        (map snd (dir (disk_files (dc_context st'))) = [h @ d] \<or> d = [] \<and> dir (disk_files (dc_context st')) = [])
    | Wait st' \<Rightarrow> drained 0 (dc_data_ring st') \<or> (\<exists>h d. map snd (dir (disk_files (dc_context st'))) = [h @ d] \<and>
        length h = 160 \<and> 2 \<le> length d)
    | _ \<Rightarrow> False"
proof -
  let ?es = "[Wrote [1, 2, 3], Finished]" and ?F = "dbdisk_client demo_os 0 (\<lambda>x. Next 0) 0"
  from demo_open_run obtain s where e: "exec_io 56026 2 2 1 [Write [1, 2, 3], Finish] = Some (?es, s)"
    and o: "opened (file_open_function (accepting demo_os) (demo_between s)) = Some (0, 2, True)"
    and ne: "\<not> ipcbuf_eod (rd s 0, rg s)" by auto
  from o obtain st1 where st1: "file_open_function (accepting demo_os) (demo_between s) = Done 0 st1"
    "transfer_bytes st1 = 2" "length (header_part st1) = 160"
    by (auto simp: opened_def split: outcome.splits)
  note F = demo_follows [OF e]
  have f: "follows 56026 2 2 1 0 ?es (demo_between s)" "\<not> client_eod (demo_between s)"
    using F ne follows_cong [of "demo_between s" "demo_reader s"] by (simp_all add: demo_between_def)
  have b: "between_files dbdisk_idle (demo_between s)"
    using demo_disk_idle
    by (simp add: between_files_def with_header_def demo_between_def demo_reader_def demo_header_length)
  have c: "file_contents (dc_context (demo_between s)) = []"
    by (simp add: demo_between_def demo_reader_def demo_disk_def DADA_DBDISK_INIT_def file_contents_def)
  have g: "open_function ?F = Some (file_open_function (accepting demo_os))" by (simp add: dbdisk_functions_def)
  note T = file_gets_next_bytes [OF dbdisk_parties dbdisk_opens dbdisk_takes dbdisk_closes dbdisk_memory f(1) b f(2) g
      st1(1) order_refl, of 3]
  show ?thesis
  proof (cases "dada_client_transfer ?F 3 (demo_between s)")
    case (Done x st')
    with T st1(2) c obtain d where "length d \<le> 2"
      "file_contents (dc_context st') = [header_part st1 @ d] \<or> d = [] \<and> file_contents (dc_context st') = []"
      by auto
    then have "map snd (dir (disk_files (dc_context st'))) = [header_part st1 @ d] \<or>
        d = [] \<and> dir (disk_files (dc_context st')) = []" "length d \<le> 2" by (simp_all add: file_contents_def)
    with st1(3) show ?thesis by (intro exI [of _ s]) (simp only: Done outcome.case,
        rule exI [of _ d], rule exI [of _ "header_part st1"], intro conjI)
  next
    case (Wait st')
    with T consider "drained 0 (dc_data_ring st')" | d where "file_contents (dc_context st') = [header_part st1 @ d]"
      "2 \<le> length d" by (auto simp: c)
    then show ?thesis
    proof cases
      case 2
      then show ?thesis using st1(3) by (intro exI [of _ s]) (simp only: Wait outcome.case file_contents_def,
        rule disjI2, rule exI [of _ "header_part st1"], rule exI [of _ d], simp)
    qed (use Wait in \<open>auto intro!: exI [of _ s]\<close>)
  qed (use T in auto)
qed

section \<open>All files of a transfer\<close>



end
