(* ===== verification/Client_Source.thy ===== *)
theory Client_Source
  imports Client_Delivery
begin

text \<open>
  What a write client puts into a ring. The client is the writer of a ring in which readers act at any time; the target
  is a source of bytes behind the I/O function. The contract of a source is the locale \<open>byte_source\<close>.
\<close>

section \<open>The ring\<close>

text \<open>What the client knows of the readers; the system of the ring in which the client writes.\<close>

type_synonym ring_readers = "(nat \<Rightarrow> ipcio) \<times> (nat \<Rightarrow> bool)"

definition source_system :: "('c, ring_readers) dada_client_t \<Rightarrow> unit ipcio_ext sys option" where
  "source_system st = map_option (\<lambda>h. \<lparr>wr = h, rd = fst (dc_world st), rg = dc_data_ring st, holds = snd (dc_world st)\<rparr>)
     (dc_data_block st)"

definition client_readers_act :: "('c, ring_readers) client_functions \<Rightarrow> bool" where
  "client_readers_act F \<longleftrightarrow> (\<forall>st s. source_system st = Some s \<longrightarrow>
     (\<exists>es s'. source_system (others_act F st) = Some s' \<and> run io_step s es s' \<and> list_all reader_event es))"

definition feeds :: "u64 \<Rightarrow> nat \<Rightarrow> ('c, ring_readers) dada_client_t \<Rightarrow> bool" where
  "feeds nb n st \<longleftrightarrow> unat nb \<le> 32767 \<and> (\<exists>s. source_system st = Some s \<and> io_shape nb n s)"

text \<open>From \<open>st\<close> to \<open>st'\<close> the bytes \<open>d\<close> were added to the transfer in progress.\<close>

definition puts :: "('c, ring_readers) dada_client_t \<Rightarrow> u8 list \<Rightarrow> ('c, ring_readers) dada_client_t \<Rightarrow> bool" where
  "puts st d st' \<longleftrightarrow> (\<exists>s es s'. source_system st = Some s \<and> source_system st' = Some s' \<and> run io_step s es s' \<and>
     bytes_of es = d \<and> Finished \<notin> set es \<and>
     unat (w_buf_next (dc_data_ring st')) \<le> unat (w_buf_next (dc_data_ring st)) + length d)"

lemma source_system_rg: "source_system st = Some s \<Longrightarrow> rg s = dc_data_ring st"
  by (auto simp: source_system_def)

lemma puts_refl: "feeds nb n st \<Longrightarrow> puts st [] st"
  by (auto simp: feeds_def puts_def intro!: exI [of _ "[]"] run.run_Nil)

lemma puts_trans: "puts st d st' \<Longrightarrow> puts st' e st'' \<Longrightarrow> puts st (d @ e) st''"
  by (fastforce simp: puts_def dest: run_append)

lemma puts_feeds: "puts st d st' \<Longrightarrow> feeds nb n st \<Longrightarrow> feeds nb n st'"
  by (auto simp: puts_def feeds_def dest: io_const.run_inv)

lemma puts_next: "puts st d st' \<Longrightarrow> unat (w_buf_next (dc_data_ring st')) \<le> unat (w_buf_next (dc_data_ring st)) + length d"
  by (auto simp: puts_def)

lemma puts_written:
  "puts st d st' \<Longrightarrow> source_system st = Some s \<Longrightarrow> io_reachable key nb bz n es s \<Longrightarrow>
    \<exists>fs s'. source_system st' = Some s' \<and> io_reachable key nb bz n (es @ fs) s' \<and>
      written (es @ fs) = add_bytes d (written es)"
  unfolding puts_def io_reachable_def using written_bytes run_append by fastforce

text \<open>Whatever has the same data block, ring and readers.\<close>

definition same_ring :: "('c, ring_readers) dada_client_t \<Rightarrow> ('c, ring_readers) dada_client_t \<Rightarrow> bool" where
  "same_ring st st' \<longleftrightarrow> dc_data_block st' = dc_data_block st \<and> dc_data_ring st' = dc_data_ring st \<and>
     dc_world st' = dc_world st"

lemma same_ring_puts:
  "same_ring st st' \<Longrightarrow> puts st' d st'' = puts st d st''" "same_ring st st' \<Longrightarrow> puts st0 d st' = puts st0 d st"
  "same_ring st st' \<Longrightarrow> feeds nb n st' = feeds nb n st"
  by (simp_all add: same_ring_def puts_def feeds_def source_system_def)

lemma others_put:
  assumes "client_readers_act F" "feeds nb n st"
  shows "puts st [] (others_act F st)"
proof -
  from assms(2) obtain s where s: "source_system st = Some s" "io_shape nb n s" by (auto simp: feeds_def)
  with assms(1) obtain es s' where t: "source_system (others_act F st) = Some s'" "run io_step s es s'"
    "list_all reader_event es" unfolding client_readers_act_def by blast
  then show ?thesis
    using s reader_events_bytes [of es] reader_run_writer [OF t(2) s(2) t(3)]
      source_system_rg [OF s(1)] source_system_rg [OF t(1)]
    by (auto simp: puts_def intro!: exI [of _ es])
qed

lemma header_call_puts:
  assumes "client_readers_act F" "feeds nb n st" "final_state (on_header_block F f st) = Some st'"
  shows "puts st [] st'" "dc_context st' = dc_context st" "direction st' = direction st"
    "optimal_bytes st' = optimal_bytes st" "transfer_bytes st' = transfer_bytes st" "client_quit st' = client_quit st"
    "io_buffer st' = io_buffer st"
proof -
  from assms(3) obtain h r where st': "st' = (others_act F st)\<lparr>dc_header_block := Some h, dc_header_ring := r\<rparr>"
    by (cases "dc_header_block st"; cases "f (the (dc_header_block st), dc_header_ring (others_act F st))")
      (auto simp: on_header_block_def Let_def)
  then show "puts st [] st'" using others_put [OF assms(1,2)] same_ring_puts(2) [of "others_act F st" st']
    by (simp add: same_ring_def)
  show "dc_context st' = dc_context st" "direction st' = direction st"
    "optimal_bytes st' = optimal_bytes st" "transfer_bytes st' = transfer_bytes st" "client_quit st' = client_quit st"
    "io_buffer st' = io_buffer st" by (simp_all add: st')
qed

lemma write_puts:
  assumes acts: "client_readers_act F" and u: "feeds nb n st"
    and N: "unat (w_buf_next (dc_data_ring st)) + length d < 2 ^ 64 - 1"
  shows "case on_data_block F (ipcio_write d) st of
      Done k st' \<Rightarrow> k = length d \<and> puts st d st' \<and>
        (\<exists>h r. st' = (others_act F st)\<lparr>dc_data_block := Some h, dc_data_ring := r\<rparr>)
    | Wait st' \<Rightarrow> slow_reader (dc_data_ring st')
    | _ \<Rightarrow> False"
proof -
  let ?st = "others_act F st"
  have r: "puts st [] ?st" by (rule others_put [OF acts u])
  from puts_feeds [OF r u] obtain s where s: "source_system ?st = Some s" "io_shape nb n s" and nb: "unat nb \<le> 32767"
    by (auto simp: feeds_def)
  then obtain h where h: "dc_data_block st = Some h" "wr s = h" "rg s = dc_data_ring ?st"
    by (auto simp: source_system_def)
  have N': "unat (w_buf_next (rg s)) + length d < 2 ^ 64 - 1" using puts_next [OF r] N h(3) by simp
  have e: "on_data_block F (ipcio_write d) st = map_outcome id (\<lambda>(h, r). ?st\<lparr>dc_data_block := Some h, dc_data_ring := r\<rparr>)
      (ipcio_write d (wr s, rg s))"
    using h by (simp add: on_data_block_def Let_def)
  note S = write_slow [OF s(2) nb N']
  show ?thesis
  proof (cases "ipcio_write d (wr s, rg s)")
    case (Done k hr)
    obtain h' r' where hr: "hr = (h', r')" by fastforce
    note W = write_step [OF s(2) N' Done [unfolded hr]]
    let ?st' = "?st\<lparr>dc_data_block := Some h', dc_data_ring := r'\<rparr>"
    have "source_system ?st' = Some (s\<lparr>wr := h', rg := r'\<rparr>)" using s(1) h by (auto simp: source_system_def)
    moreover have "run io_step s [Wrote d] (s\<lparr>wr := h', rg := r'\<rparr>)"
      by (rule run_Cons [where t = "s\<lparr>wr := h', rg := r'\<rparr>"]) (rule W(2), rule run.run_Nil)
    ultimately have "puts ?st d ?st'"
      using s(1) W(3) h(3) by (auto simp: puts_def intro!: exI [of _ "[Wrote d]"])
    with puts_trans [OF r this] W(1) show ?thesis by (auto simp: e Done hr)
  qed (use S in \<open>auto simp: e split: prod.splits\<close>)
qed

section \<open>Readers that take turns\<close>

text \<open>\<open>pick\<close> chooses the next call from what the readers know; one that cannot go on waits.\<close>

fun reader_call :: "io_call \<Rightarrow> bool" where
  "reader_call (Read i n) = True"
| "reader_call (Next i) = True"
| "reader_call c = False"

definition readers_turn :: "(ring_readers \<times> ring \<Rightarrow> io_call) \<Rightarrow> ring_readers \<times> ring \<times> ring \<Rightarrow>
    ring_readers \<times> ring \<times> ring" where
  "readers_turn pick = (\<lambda>((f, H), dr, hr).
     let c = pick ((f, H), dr)
     in if reader_call c then
          case io_exec c \<lparr>wr = IPCIO_INIT, rd = f, rg = dr, holds = H\<rparr> of
            None \<Rightarrow> ((f, H), dr, hr)
          | Some (e, s) \<Rightarrow> ((rd s, holds s), rg s, hr)
        else ((f, H), dr, hr))"

lemma reader_call_exec:
  assumes "reader_call c"
  shows "io_exec c \<lparr>wr = h, rd = f, rg = r, holds = H\<rparr> =
      map_option (\<lambda>(e, s). (e, s\<lparr>wr := h\<rparr>)) (io_exec c \<lparr>wr = h', rd = f, rg = r, holds = H\<rparr>)"
    "io_exec c s = Some (e, s') \<Longrightarrow> reader_event e"
  using assms by (cases c; auto split: option.splits if_splits)+

lemma readers_turn_act:
  fixes F :: "('c, ring_readers) client_functions"
  assumes F: "processes F = readers_turn pick"
  shows "client_readers_act F"
  unfolding client_readers_act_def
proof (intro allI impI)
  fix st :: "('c, ring_readers) dada_client_t" and s
  assume s: "source_system st = Some s"
  obtain f H where w: "dc_world st = (f, H)" by fastforce
  with s obtain h where h: "dc_data_block st = Some h"
    and s': "s = \<lparr>wr = h, rd = f, rg = dc_data_ring st, holds = H\<rparr>" by (auto simp: source_system_def)
  let ?c = "pick ((f, H), dc_data_ring st)" and ?s0 = "\<lparr>wr = IPCIO_INIT, rd = f, rg = dc_data_ring st, holds = H\<rparr>"
  show "\<exists>es s'. source_system (others_act F st) = Some s' \<and> run io_step s es s' \<and> list_all reader_event es"
  proof (cases "reader_call ?c \<and> io_exec ?c ?s0 \<noteq> None")
    case False
    then have "\<not> reader_call ?c \<or> io_exec ?c ?s0 = None" by blast
    then have "source_system (others_act F st) = Some s"
      using s w by (auto simp: others_act_def F readers_turn_def source_system_def Let_def)
    then show ?thesis by (intro exI [of _ "[]"]) (auto intro: run.run_Nil)
  next
    case True
    then obtain e t where e: "io_exec ?c ?s0 = Some (e, t)" and c: "reader_call ?c" by auto
    then have ex: "io_exec ?c s = Some (e, t\<lparr>wr := h\<rparr>)" by (simp add: s' reader_call_exec(1) [OF c, of h _ _ _ IPCIO_INIT])
    then have "run io_step s [e] (t\<lparr>wr := h\<rparr>)"
      by (intro run_Cons [where t = "t\<lparr>wr := h\<rparr>"] run.run_Nil) (auto simp: io_step_def)
    moreover have "source_system (others_act F st) = Some (t\<lparr>wr := h\<rparr>)"
      using h c e w by (simp add: others_act_def F readers_turn_def source_system_def Let_def)
    ultimately show ?thesis using reader_call_exec(2) [OF c ex] by (intro exI [of _ "[e]"]) auto
  qed
qed

section \<open>The contract of a source\<close>

text \<open>
  \<open>emits c n p c'\<close>: asked for \<open>n\<close> bytes, the source with state \<open>c\<close> gives \<open>p\<close>, nothing at its end. It can be
  asked for multiples of \<open>grain\<close> bytes. \<open>fresh\<close>: it is open and waits for the header, \<open>ready\<close>: it gives data.
\<close>

definition source_opens :: "('c \<Rightarrow> bool) \<Rightarrow> ('c \<Rightarrow> bool) \<Rightarrow> ('c, ring_readers) client_functions \<Rightarrow> bool" where
  "source_opens idle fresh F \<longleftrightarrow> (\<exists>g. open_function F = Some g \<and>
     (\<forall>st res st'. idle (dc_context st) \<longrightarrow> g st = Done res st' \<longrightarrow> 0 \<le> res \<longrightarrow>
        same_ring st st' \<and> direction st' = direction st \<and> fresh (dc_context st') \<and> unat (optimal_bytes st') < 2 ^ 63))"

definition source_gives :: "nat \<Rightarrow> ('c \<Rightarrow> bool) \<Rightarrow> ('c \<Rightarrow> bool) \<Rightarrow> ('c \<Rightarrow> nat \<Rightarrow> u8 list \<Rightarrow> 'c \<Rightarrow> bool) \<Rightarrow>
    ('c, ring_readers) client_functions \<Rightarrow> bool" where
  "source_gives grain fresh ready emits F \<longleftrightarrow> (\<exists>f. io_function F = Some f \<and>
     (\<forall>d st. fresh (dc_context st) \<longrightarrow> (\<exists>d' k c. f d st = Done (d', k) (st\<lparr>dc_context := c\<rparr>) \<and> ready c)) \<and>
     (\<forall>d st. ready (dc_context st) \<longrightarrow> grain dvd length d \<longrightarrow> d \<noteq> [] \<longrightarrow> length d < 2 ^ 63 \<longrightarrow>
        (\<exists>d' k c. f d st = Done (d', int k) (st\<lparr>dc_context := c\<rparr>) \<and> length d' = length d \<and> k \<le> length d \<and>
           grain dvd k \<and> emits (dc_context st) (length d) (take k d') c \<and> ready c)))"

definition source_closes :: "('c \<Rightarrow> bool) \<Rightarrow> ('c, ring_readers) client_functions \<Rightarrow> bool" where
  "source_closes ready F \<longleftrightarrow> (\<exists>g. close_function F = Some g \<and> (\<forall>k st. ready (dc_context st) \<longrightarrow>
     (\<exists>res st'. g k st = Done res st' \<and> 0 \<le> res \<and> same_ring st st')))"

locale byte_source =
  fixes F :: "('c, ring_readers) client_functions" and grain :: nat
    and idle fresh ready :: "'c \<Rightarrow> bool" and emits :: "'c \<Rightarrow> nat \<Rightarrow> u8 list \<Rightarrow> 'c \<Rightarrow> bool"
  assumes acts: "client_readers_act F" and opens: "source_opens idle fresh F"
    and gives: "source_gives grain fresh ready emits F" and closes: "source_closes ready F"
    and memory: "plain_memory F"

text \<open>Several pieces, none empty.\<close>

inductive emits_all :: "('c \<Rightarrow> nat \<Rightarrow> u8 list \<Rightarrow> 'c \<Rightarrow> bool) \<Rightarrow> 'c \<Rightarrow> u8 list \<Rightarrow> 'c \<Rightarrow> bool" for emits where
  none: "emits_all emits c [] c"
| more: "emits c n p c1 \<Longrightarrow> p \<noteq> [] \<Longrightarrow> emits_all emits c1 d c2 \<Longrightarrow> emits_all emits c (p @ d) c2"

definition source_ended :: "('c \<Rightarrow> nat \<Rightarrow> u8 list \<Rightarrow> 'c \<Rightarrow> bool) \<Rightarrow> 'c \<Rightarrow> 'c \<Rightarrow> bool" where
  "source_ended emits c c' \<longleftrightarrow> (\<exists>n. emits c n [] c')"

context byte_source
begin

lemma write_piece_puts:
  assumes u: "feeds nb n st" and r: "ready (dc_context st)" and m: "0 < unat m" "unat m \<le> length (io_buffer st)"
    "grain dvd unat m" and small: "length (io_buffer st) < 2 ^ 63"
    and N: "unat (w_buf_next (dc_data_ring st)) + unat m < 2 ^ 64 - 1"
  shows "case write_piece_from F m st of
      Done None st' \<Rightarrow> same_ring st st' \<and> emits (dc_context st) (unat m) [] (dc_context st') \<and> ready (dc_context st')
    | Done (Some k) st' \<Rightarrow> \<exists>p. k = of_nat (length p) \<and> p \<noteq> [] \<and> length p \<le> unat m \<and> grain dvd length p \<and> puts st p st' \<and>
        emits (dc_context st) (unat m) p (dc_context st') \<and> ready (dc_context st') \<and> same_client st st'
    | Wait st' \<Rightarrow> slow_reader (dc_data_ring st')
    | _ \<Rightarrow> False"
proof -
  let ?d = "take (unat m) (io_buffer st)"
  from gives obtain f where f: "io_function F = Some f" and
    G: "\<And>d st. ready (dc_context st) \<Longrightarrow> grain dvd length d \<Longrightarrow> d \<noteq> [] \<Longrightarrow> length d < 2 ^ 63 \<Longrightarrow>
        \<exists>d' k c. f d st = Done (d', int k) (st\<lparr>dc_context := c\<rparr>) \<and> length d' = length d \<and> k \<le> length d \<and>
           grain dvd k \<and> emits (dc_context st) (length d) (take k d') c \<and> ready c"
    unfolding source_gives_def by (elim exE conjE) (rule that, assumption, blast)
  have len: "length ?d = unat m" using m(2) by simp
  have "?d \<noteq> []" using m by auto
  moreover have "length ?d < 2 ^ 63" unfolding len using m(2) small by simp
  ultimately obtain d' k c where
    g: "f ?d st = Done (d', int k) (st\<lparr>dc_context := c\<rparr>)" "length d' = unat m" "k \<le> unat m" "grain dvd k"
    "emits (dc_context st) (unat m) (take k d') c" "ready c" using G [OF r, of ?d] m(3) len by auto
  let ?st = "st\<lparr>dc_context := c, io_buffer := d' @ drop (unat m) (io_buffer st)\<rparr>"
  have io: "io_call F ?d st = Done (d', int k) (st\<lparr>dc_context := c\<rparr>)"
    using g(1) by (simp add: io_call_def callback_def f)
  have sr: "same_ring st ?st" by (simp add: same_ring_def)
  show ?thesis
  proof (cases "k = 0")
    case True
    then have "write_piece_from F m st = Done None ?st" by (simp add: write_piece_from_def io)
    with sr g(5,6) True show ?thesis by simp
  next
    case False
    have t: "take k (d' @ drop (unat m) (io_buffer st)) = take k d'" "length (take k d') = k" using g(2,3) by simp_all
    have "unat (w_buf_next (dc_data_ring ?st)) + length (take k d') < 2 ^ 64 - 1" using N g(3) t(2) by simp
    from write_puts [OF acts _ this] u same_ring_puts(3) [OF sr]
    have W: "case on_data_block F (ipcio_write (take k d')) ?st of
        Done j st' \<Rightarrow> j = length (take k d') \<and> puts ?st (take k d') st' \<and>
          (\<exists>h r. st' = (others_act F ?st)\<lparr>dc_data_block := Some h, dc_data_ring := r\<rparr>)
      | Wait st' \<Rightarrow> slow_reader (dc_data_ring st')
      | _ \<Rightarrow> False" by blast
    have eq: "write_piece_from F m st =
        andthen (fail_as (-1) (on_data_block F (ipcio_write (take k d')) ?st)) (\<lambda>k. Done (Some (of_nat k)))"
      using False g(2,3) m(2) t(1) by (simp add: write_piece_from_def io)
    show ?thesis
    proof (cases "on_data_block F (ipcio_write (take k d')) ?st")
      case (Done j st')
      with W have j: "j = k" and p: "puts st (take k d') st'"
        and st': "\<exists>h r. st' = (others_act F ?st)\<lparr>dc_data_block := Some h, dc_data_ring := r\<rparr>"
        using t(2) same_ring_puts(1) [OF sr] by auto
      have "same_client st st'" "dc_context st' = c" using st' g(2) m(2) by (auto simp: same_client_def)
      with p g(3-6) t(2) False show ?thesis
        by (auto simp: eq Done j intro!: exI [of _ "take k d'"])
    qed (use W eq in auto)
  qed
qed

text \<open>The loop puts what the source gives, up to \<open>transfer_bytes\<close>.\<close>

lemma io_loop_puts:
  assumes "feeds nb n st" "ready (dc_context st)" "direction st = dada_client_writer"
    "io_buffer st \<noteq> []" "length (io_buffer st) < 2 ^ 63" "grain dvd length (io_buffer st)"
    "transfer_bytes st \<noteq> 0" "sofar \<le> transfer_bytes st" "left = unat (transfer_bytes st) - unat sofar" "grain dvd left"
    "unat (w_buf_next (dc_data_ring st)) + left < 2 ^ 64 - 1"
  shows "case io_loop F f sofar st of
      Done x st' \<Rightarrow> \<exists>d c. puts st d st' \<and> emits_all emits (dc_context st) d c \<and> ready (dc_context st') \<and>
        x = sint (sofar + of_nat (length d)) \<and> length d \<le> left \<and>
        (length d = left \<and> dc_context st' = c \<or> source_ended emits c (dc_context st'))
    | Wait st' \<Rightarrow> slow_reader (dc_data_ring st') \<or> f \<le> left
    | _ \<Rightarrow> False"
  using assms
proof (induction f arbitrary: st sofar left)
  case (Suc f)
  note dir = Suc.prems(3) and small = Suc.prems(5) and tb = Suc.prems(7) and so = Suc.prems(8) and left = Suc.prems(9)
  let ?room = "of_nat (length (io_buffer st)) :: u64"
  let ?m = "piece_size st ?room sofar"
  have room: "unat ?room = length (io_buffer st)" using small by simp
  show ?case
  proof (cases "io_done st sofar")
    case True
    with so tb have "left = 0" by (auto simp: io_done_def left)
    with True Suc.prems(1,2) show ?thesis
      by (auto intro!: exI [of _ "[]"] exI [of _ "dc_context st"] emits_all.none puts_refl)
  next
    case False
    have m: "unat ?m \<le> length (io_buffer st)" "0 < unat ?m" "unat sofar + unat ?m \<le> unat (transfer_bytes st)"
      using piece_size_bounds [OF False room Suc.prems(4)] so tb by blast+
    have du: "grain dvd unat ?m"
      using Suc.prems(6,10) tb room left unat_sub [OF so] by (simp add: piece_size_def)
    have N: "unat (w_buf_next (dc_data_ring st)) + unat ?m < 2 ^ 64 - 1" using Suc.prems(11) m(3) left by simp
    note P = write_piece_puts [OF Suc.prems(1,2) m(2,1) du small N]
    show ?thesis
    proof (cases "write_piece_from F ?m st")
      case (Done x st1)
      show ?thesis
      proof (cases x)
        case None
        with Done P have "same_ring st st1" "emits (dc_context st) (unat ?m) [] (dc_context st1)" "ready (dc_context st1)"
          by simp_all
        then have "puts st [] st1" "source_ended emits (dc_context st) (dc_context st1)"
          using same_ring_puts(2) puts_refl [OF Suc.prems(1)] by (auto simp: source_ended_def)
        with False Done None dir \<open>ready (dc_context st1)\<close> show ?thesis
          by (auto simp: io_turn_def intro!: exI [of _ "[]"] exI [of _ "dc_context st"] emits_all.none)
      next
        case (Some k)
        with Done P obtain p where p: "k = of_nat (length p)" "p \<noteq> []" "length p \<le> unat ?m" "grain dvd length p"
          "puts st p st1" "emits (dc_context st) (unat ?m) p (dc_context st1)" "ready (dc_context st1)" "same_client st st1"
          by auto
        let ?so = "sofar + of_nat (length p)"
        have so1: "unat ?so = unat sofar + length p"
          using m(3) p(3) unat_u64_bound [of "transfer_bytes st"] by (intro unat_add_of_nat) simp
        have left1: "left - length p = unat (transfer_bytes st) - unat ?so" by (simp add: left so1)
        have IH: "case io_loop F f ?so st1 of
            Done x st' \<Rightarrow> \<exists>d c. puts st1 d st' \<and> emits_all emits (dc_context st1) d c \<and> ready (dc_context st') \<and>
              x = sint (?so + of_nat (length d)) \<and> length d \<le> left - length p \<and>
              (length d = left - length p \<and> dc_context st' = c \<or> source_ended emits c (dc_context st'))
          | Wait st' \<Rightarrow> slow_reader (dc_data_ring st') \<or> f \<le> left - length p
          | _ \<Rightarrow> False"
        proof (rule Suc.IH [OF puts_feeds [OF p(5) Suc.prems(1)] p(7)])
          show "grain dvd left - length p" using Suc.prems(10) p(4) by (rule dvd_diff_nat)
          show "?so \<le> transfer_bytes st1" "left - length p = unat (transfer_bytes st1) - unat ?so"
            using p(8) so1 left1 m(3) p(3) by (simp_all add: same_client_def word_le_nat_alt)
          show "unat (w_buf_next (dc_data_ring st1)) + (left - length p) < 2 ^ 64 - 1"
            using puts_next [OF p(5)] Suc.prems(11) m(3) p(3) left by simp
        qed (use p(8) Suc.prems(3-7) in \<open>auto simp: same_client_def simp del: length_0_conv simp flip: length_greater_0_conv\<close>)
        have lp: "length p \<le> left" "0 < length p" using m(3) p(2,3) left by auto
        have eq: "io_loop F (Suc f) sofar st = io_loop F f ?so st1"
          using False Done Some dir by (simp add: io_turn_def p(1))
        show ?thesis
        proof (cases "io_loop F f ?so st1")
          case (Done x st')
          with IH obtain d c where d: "puts st1 d st'" "emits_all emits (dc_context st1) d c" "ready (dc_context st')"
            "x = sint (?so + of_nat (length d))" "length d \<le> left - length p"
            "length d = left - length p \<and> dc_context st' = c \<or> source_ended emits c (dc_context st')" by auto
          then show ?thesis
            unfolding eq Done using puts_trans [OF p(5) d(1)] emits_all.more [of emits, OF p(6,2) d(2)] lp
            by (auto simp: add.assoc intro!: exI [of _ "p @ d"] exI [of _ c])
        next
          case (Wait st')
          with IH have "slow_reader (dc_data_ring st') \<or> f \<le> left - length p" by simp
          then have "slow_reader (dc_data_ring st') \<or> Suc f \<le> left" using lp by linarith
          then show ?thesis unfolding eq Wait by simp
        qed (use IH eq in auto)
      qed
    qed (use P False dir in \<open>auto simp: io_turn_def\<close>)
  qed
qed simp


lemma start_loop:
  assumes "direction st = dada_client_writer" "optimal_bytes st \<noteq> 0" "unat (optimal_bytes st) < 2 ^ 63"
  obtains b where "dada_client_io_loop F f st = io_loop F f 0 (st\<lparr>io_buffer := b\<rparr>)" "b \<noteq> []"
    "length b = unat (optimal_bytes st)"
proof -
  have "unat (optimal_bytes st) \<noteq> 0" using assms(2) by (metis unat_eq_zero)
  moreover have "ensure_buffer F st = st\<lparr>io_buffer := io_buffer (ensure_buffer F st)\<rparr>"
    "length (io_buffer (ensure_buffer F st)) = unat (optimal_bytes st)"
    using memory by (auto simp: ensure_buffer_def plain_memory_def)
  moreover have "direction (ensure_buffer F st) = dada_client_writer" using assms(1) by (simp add: ensure_buffer_def)
  moreover from calculation have "io_buffer (ensure_buffer F st) \<noteq> []" by (metis list.size(3))
  ultimately show thesis
    using that [of "io_buffer (ensure_buffer F st)"] by (auto simp: dada_client_io_loop_def Let_def)
qed

text \<open>The header goes through the I/O function first.\<close>

lemma header_readies:
  assumes "fresh (dc_context st)" "header_transfer st" "transfer_header F st = Done () st'"
  shows "ready (dc_context st')" "same_ring st st'" "direction st' = direction st" "optimal_bytes st' = optimal_bytes st"
    "transfer_bytes st' = transfer_bytes st" "client_quit st' = client_quit st"
proof -
  from gives obtain h where h: "io_function F = Some h" and
    G: "\<And>d st. fresh (dc_context st) \<Longrightarrow> \<exists>d' k c. h d st = Done (d', k) (st\<lparr>dc_context := c\<rparr>) \<and> ready c"
    unfolding source_gives_def by (elim exE conjE) (rule that, assumption, blast)
  let ?d = "\<lambda>m. take (unat (dc_header_size st)) m"
  from assms(2,3) obtain m d' k c where "io_call F (?d m) st = Done (d', k) (st\<lparr>dc_context := c\<rparr>)" "ready c"
    and st': "\<exists>e. st' = set_dc_header e (st\<lparr>dc_context := c\<rparr>)"
    using G [OF assms(1)]
    by (auto simp: transfer_header_def io_call_def callback_def h outcome_simps Let_def split: option.splits if_splits)
      (metis outcome.inject(1))
  then show "ready (dc_context st')" "same_ring st st'" "direction st' = direction st"
    "optimal_bytes st' = optimal_bytes st" "transfer_bytes st' = transfer_bytes st" "client_quit st' = client_quit st"
    by (cases "dc_header st"; auto simp: set_dc_header_def same_ring_def)+
qed

lemma post_header_puts:
  assumes "feeds nb n st" "post_header F st = Done () st'"
  shows "puts st [] st'" "dc_context st' = dc_context st" "direction st' = direction st"
    "optimal_bytes st' = optimal_bytes st" "transfer_bytes st' = transfer_bytes st" "client_quit st' = client_quit st"
proof -
  have "puts st [] st' \<and> dc_context st' = dc_context st \<and> direction st' = direction st \<and>
    optimal_bytes st' = optimal_bytes st \<and> transfer_bytes st' = transfer_bytes st \<and> client_quit st' = client_quit st"
  proof (cases "direction st = dada_client_writer")
    case True
    with assms(2) obtain u v k st1 st2 where
      c: "on_header_block F ipcbuf_enable_eod st = Done u st1"
      "on_header_block F (\<lambda>s. Done (ipcbuf_get_bufsz s) s) st1 = Done k st2"
      "on_header_block F (ipcbuf_mark_filled k) st2 = Done v st'"
      by (auto simp: post_header_def outcome_simps)
    note 1 = header_call_puts [OF acts assms(1), of ipcbuf_enable_eod st1]
    have p1: "puts st [] st1" using 1 c(1) by simp
    note f1 = puts_feeds [OF p1 assms(1)]
    note 2 = header_call_puts [OF acts f1, of "\<lambda>s. Done (ipcbuf_get_bufsz s) s" st2]
    have p2: "puts st1 [] st2" using 2 c(2) by simp
    note f2 = puts_feeds [OF p2 f1]
    note 3 = header_call_puts [OF acts f2, of "ipcbuf_mark_filled k" st']
    show ?thesis using 1 2 3 c puts_trans [OF puts_trans [OF p1 p2], of "[]" st'] by simp
  next
    case False
    with assms show ?thesis by (auto simp: post_header_def intro: puts_refl)
  qed
  then show "puts st [] st'" "dc_context st' = dc_context st" "direction st' = direction st"
    "optimal_bytes st' = optimal_bytes st" "transfer_bytes st' = transfer_bytes st" "client_quit st' = client_quit st"
    by blast+
qed

text \<open>A whole transfer, when the source could be opened and the header could be posted.\<close>

lemma transfer_puts:
  assumes u: "feeds nb n st" and i: "idle (dc_context st)" and dir: "direction st = dada_client_writer"
    and g: "open_function F = Some g" "g st = Done res st1" "0 \<le> res" "\<not> client_quit st1" "header_transfer st1"
    and h: "transfer_header F st1 = Done () st2" "post_header F st2 = Done () st3"
    and tb: "transfer_bytes st1 \<noteq> 0" "grain dvd unat (transfer_bytes st1)"
    and ob: "grain dvd unat (if optimal_bytes st1 = 0 then page_size F * 128 else optimal_bytes st1)"
    and N: "unat (w_buf_next (dc_data_ring st)) + unat (transfer_bytes st1) < 2 ^ 64 - 1"
  shows "case dada_client_transfer F f st of
      Done x st' \<Rightarrow> \<exists>d c. puts st d st' \<and> emits_all emits (dc_context st2) d c \<and>
        x = sint (of_nat (length d) :: u64) \<and> length d \<le> unat (transfer_bytes st1) \<and>
        (length d = unat (transfer_bytes st1) \<or> (\<exists>c'. source_ended emits c c'))
    | Wait st' \<Rightarrow> slow_reader (dc_data_ring st') \<or> f \<le> unat (transfer_bytes st1)
    | _ \<Rightarrow> False"
proof -
  from opens g i have o: "same_ring st st1" "direction st1 = dada_client_writer" "fresh (dc_context st1)"
    "unat (optimal_bytes st1) < 2 ^ 63" using dir unfolding source_opens_def by fastforce+
  note H = header_readies [OF o(3) g(5) h(1)]
  have r2: "same_ring st st2" using o(1) H(2) by (simp add: same_ring_def)
  have u2: "feeds nb n st2" using u same_ring_puts(3) [OF r2] by simp
  note P = post_header_puts [OF u2 h(2)]
  have p3: "puts st [] st3" using P(1) same_ring_puts(1) [OF r2] by simp
  define st4 where "st4 = (if optimal_bytes st3 = 0 then st3\<lparr>optimal_bytes := page_size F * 128\<rparr> else st3)"
  have r4: "same_ring st3 st4" by (simp add: st4_def same_ring_def)
  have s4: "direction st4 = dada_client_writer" "ready (dc_context st4)" "dc_context st4 = dc_context st2"
    "transfer_bytes st4 = transfer_bytes st1" "optimal_bytes st4 \<noteq> 0" "unat (optimal_bytes st4) < 2 ^ 63"
    "optimal_bytes st4 = (if optimal_bytes st1 = 0 then page_size F * 128 else optimal_bytes st1)"
    using o H P memory by (simp_all add: st4_def plain_memory_def)
  obtain b where b: "dada_client_io_loop F f st4 = io_loop F f 0 (st4\<lparr>io_buffer := b\<rparr>)" "b \<noteq> []"
    "length b = unat (optimal_bytes st4)" by (rule start_loop [OF s4(1,5,6)])
  let ?st5 = "st4\<lparr>io_buffer := b\<rparr>"
  have r5: "same_ring st3 ?st5" using r4 by (simp add: same_ring_def)
  have u5: "feeds nb n ?st5" using same_ring_puts(3) [OF r5] puts_feeds [OF p3 u] by simp
  have "unat (w_buf_next (dc_data_ring ?st5)) + unat (transfer_bytes st1) < 2 ^ 64 - 1"
    using puts_next [OF p3] N r5 by (simp add: same_ring_def)
  with io_loop_puts [OF u5, of 0 "unat (transfer_bytes st1)" f] s4 b tb ob
  have L: "case io_loop F f 0 ?st5 of
      Done x st' \<Rightarrow> \<exists>d c. puts ?st5 d st' \<and> emits_all emits (dc_context st2) d c \<and> ready (dc_context st') \<and>
        x = sint (of_nat (length d) :: u64) \<and> length d \<le> unat (transfer_bytes st1) \<and>
        (length d = unat (transfer_bytes st1) \<and> dc_context st' = c \<or> source_ended emits c (dc_context st'))
    | Wait st' \<Rightarrow> slow_reader (dc_data_ring st') \<or> f \<le> unat (transfer_bytes st1)
    | _ \<Rightarrow> False" by (auto split: outcome.splits)
  from closes obtain k where k: "close_function F = Some k" and
    K: "\<And>n st. ready (dc_context st) \<Longrightarrow> \<exists>res st'. k n st = Done res st' \<and> 0 \<le> res \<and> same_ring st st'"
    unfolding source_closes_def by blast
  have T: "dada_client_transfer F f st = andthen (value_of (-1) (io_loop F f 0 ?st5)) (\<lambda>moved st.
      andthen (k (of_int moved) st) (\<lambda>res st. if res < 0 then Err (-1) st else Done moved st))"
    using g h b(1) memory
    by (simp add: dada_client_transfer_def callback_def plain_memory_def k st4_def Let_def)
  show ?thesis
  proof (cases "io_loop F f 0 ?st5")
    case (Done x st6)
    with L obtain d c where d: "puts ?st5 d st6" "emits_all emits (dc_context st2) d c" "ready (dc_context st6)"
      "x = sint (of_nat (length d) :: u64)" "length d \<le> unat (transfer_bytes st1)"
      "length d = unat (transfer_bytes st1) \<or> (\<exists>c'. source_ended emits c c')" by auto
    from K [OF d(3)] obtain res' st' where c: "k (of_int x) st6 = Done res' st'" "0 \<le> res'" "same_ring st6 st'" by blast
    have "puts st d st'"
      using puts_trans [OF p3, of d st6] d(1) same_ring_puts(1) [OF r5] same_ring_puts(2) [OF c(3)] by simp
    with d c T Done show ?thesis by auto
  qed (use L T in auto)
qed

end

end
