(* ===== verification/Dada_Num.thy ===== *)
theory Dada_Num
  imports Client_Source
begin

text \<open>
  src/apps/dada_numdb.c, a client that writes consecutive numbers to a ring, and src/apps/dada_dbnum.c, one that reads
  them and verifies them. Both skip as many numbers as they took after each \<open>interleave_num\<close> of them. The reader accepts
  what the writer wrote, however the data are cut, and nothing else.
\<close>

section \<open>Numbers in bytes\<close>

text \<open>The most significant byte comes first.\<close>

definition number_bytes :: "u64 \<Rightarrow> u8 list" where
  "number_bytes i = map (\<lambda>k. ucast (drop_bit (8 * (7 - k)) i)) [0..<8]"

definition bytes_number :: "u8 list \<Rightarrow> u64" where
  "bytes_number d = foldl (\<lambda>seq j. or seq (push_bit (8 * j) (ucast (d ! (7 - j))))) 0 [0..<8]"

lemma length_number_bytes [simp]: "length (number_bytes i) = 8"
  by (simp add: number_bytes_def)

lemma bit_foldl_or: "bit (foldl (\<lambda>s j. or s (f j)) a js) n \<longleftrightarrow> bit a n \<or> (\<exists>j \<in> set js. bit (f j) n)"
  for a :: u64
  by (induction js arbitrary: a) (auto simp: bit_or_iff)

lemma bit_bytes_number: "bit (bytes_number d) n \<longleftrightarrow> n < 64 \<and> bit (d ! (7 - n div 8)) (n mod 8)"
proof -
  have "bit (push_bit (8 * j) (ucast (d ! (7 - j))) :: u64) n \<longleftrightarrow>
      n < 64 \<and> j = n div 8 \<and> bit (d ! (7 - j)) (n mod 8)" if "j < 8" for j
  proof -
    have "bit (d ! (7 - j)) (n - 8 * j) \<Longrightarrow> n - 8 * j < 8" using bit_imp_le_length [of "d ! (7 - j)"] by simp
    moreover have "8 * j \<le> n \<and> n - 8 * j < 8 \<longleftrightarrow> j = n div 8" by arith
    moreover have "j = n div 8 \<Longrightarrow> n - 8 * j = n mod 8" by (simp add: minus_mult_div_eq_mod)
    ultimately show ?thesis
      by (auto simp: bit_push_bit_iff bit_ucast_iff)
  qed
  then have "bit (bytes_number d) n \<longleftrightarrow> (\<exists>j < 8. n < 64 \<and> j = n div 8 \<and> bit (d ! (7 - j)) (n mod 8))"
    unfolding bytes_number_def bit_foldl_or by auto
  then show ?thesis by auto
qed

lemma bytes_number_bytes: "bytes_number (number_bytes i @ r) = i"
proof (rule bit_word_eqI)
  fix n assume "n < LENGTH(64)"
  then have n: "n < 64" by simp
  then have k: "7 - n div 8 < 8" "7 - (7 - n div 8) = n div 8" by simp_all
  have "bit ((number_bytes i @ r) ! (7 - n div 8)) (n mod 8) \<longleftrightarrow> bit i (8 * (n div 8) + n mod 8)"
    using k by (simp add: nth_append number_bytes_def bit_ucast_iff bit_drop_bit_eq)
  then show "bit (bytes_number (number_bytes i @ r)) n = bit i n"
    using n by (simp add: bit_bytes_number)
qed

lemma number_bytes_number: "length d = 8 \<Longrightarrow> number_bytes (bytes_number d) = d"
proof (rule nth_equalityI)
  fix k assume d: "length d = 8" and k: "k < length (number_bytes (bytes_number d))"
  then have k: "k < 8" by simp
  show "number_bytes (bytes_number d) ! k = d ! k"
  proof (rule bit_word_eqI)
    fix n assume "n < LENGTH(8)"
    then have n: "n < 8" by simp
    then have e: "(8 * (7 - k) + n) div 8 = 7 - k" "(8 * (7 - k) + n) mod 8 = n" "8 * (7 - k) + n < 64"
      using k by auto
    have "7 - (7 - k) = k" using k by simp
    then show "bit (number_bytes (bytes_number d) ! k) n = bit (d ! k) n"
      using k n e by (simp add: number_bytes_def bit_ucast_iff bit_drop_bit_eq bit_bytes_number)
  qed
qed simp

section \<open>The writer\<close>

record dada_numdb =
  nd_start_num :: u64
  nd_interleave_num :: u64
  nd_index :: u64
  nd_write_bytes :: u64
  nd_header_read :: bool

text \<open>The number after \<open>i\<close>; the remainder of a division by 0 traps.\<close>

definition number_after :: "u64 \<Rightarrow> u64 \<Rightarrow> u64" where
  "number_after interleave i = (if (i + 1) mod interleave = 0 then i + 1 + interleave else i + 1)"

fun put_numbers :: "u64 \<Rightarrow> nat \<Rightarrow> u64 \<Rightarrow> u8 list \<times> u64" where
  "put_numbers interleave 0 i = ([], i)"
| "put_numbers interleave (Suc n) i =
    (let (d, k) = put_numbers interleave n (number_after interleave i) in (number_bytes i @ d, k))"

definition dada_numdb_io :: "u8 list \<Rightarrow> (u8 list \<times> int, dada_numdb, 'w) client_call" where
  "dada_numdb_io d st =
    (let c = dc_context st; size = sint (of_nat (length d) :: u64); n = length d div 8
     in if \<not> nd_header_read c then Done (d, size) (st\<lparr>dc_context := c\<lparr>nd_header_read := True\<rparr>\<rparr>)
        else if n \<noteq> 0 \<and> nd_interleave_num c = 0 then Crash
        else
          let (b, i) = put_numbers (nd_interleave_num c) n (nd_index c)
          in Done (b @ drop (8 * n) d, size) (st\<lparr>dc_context := c\<lparr>nd_index := i\<rparr>\<rparr>))"

definition dada_numdb_close :: "u64 \<Rightarrow> (int, dada_numdb, 'w) client_call" where
  "dada_numdb_close bytes_written st = Done 0 st"

definition dada_numdb_open :: "(int, dada_numdb, 'w) client_call" where
  "dada_numdb_open st =
    (let c = dc_context st
     in Done 0 (st\<lparr>dc_context := c\<lparr>nd_index := nd_start_num c\<rparr>, optimal_bytes := nd_interleave_num c * 8 * 8,
                   transfer_bytes := nd_write_bytes c\<rparr>))"

definition numdb_functions :: "u64 \<Rightarrow> (nat \<Rightarrow> u8 list) \<Rightarrow> ('w \<times> ring \<times> ring \<Rightarrow> 'w \<times> ring \<times> ring) \<Rightarrow>
    (dada_numdb, 'w) client_functions" where
  "numdb_functions page fresh acts =
    \<lparr>open_function = Some dada_numdb_open, io_function = Some dada_numdb_io, io_block_function = None,
     close_function = Some dada_numdb_close, page_size = page, fresh_memory = fresh, processes = acts\<rparr>"

section \<open>The reader\<close>

text \<open>\<open>dn_exited\<close>: the function has called \<open>exit\<close>, which does not return.\<close>

record dada_dbnum =
  dn_start_num :: u64
  dn_interleave_skip_num :: u64
  dn_index :: u64
  dn_xfer_skip_num :: u64
  dn_header_read :: bool
  dn_exited :: bool

definition dbnum_after :: "u64 \<Rightarrow> u64 \<Rightarrow> u64" where
  "dbnum_after skip i = (if skip \<noteq> 0 then number_after skip i else i + 1)"

text \<open>The number reached, and whether all numbers were the expected ones up to there.\<close>

fun check_numbers :: "u64 \<Rightarrow> nat \<Rightarrow> u8 list \<Rightarrow> u64 \<Rightarrow> u64 \<times> bool" where
  "check_numbers skip 0 d i = (i, True)"
| "check_numbers skip (Suc n) d i =
    (if bytes_number d \<noteq> i then (i, False) else check_numbers skip n (drop 8 d) (dbnum_after skip i))"

definition dada_dbnum_io :: "u8 list \<Rightarrow> (u8 list \<times> int, dada_dbnum, 'w) client_call" where
  "dada_dbnum_io d st =
    (let c = dc_context st; size = sint (of_nat (length d) :: u64)
     in if \<not> dn_header_read c then Done (d, size) (st\<lparr>dc_context := c\<lparr>dn_header_read := True\<rparr>\<rparr>)
        else
          let (i, ok) = check_numbers (dn_interleave_skip_num c) (length d div 8) d (dn_index c)
          in if ok then Done (d, size) (st\<lparr>dc_context := c\<lparr>dn_index := i\<rparr>\<rparr>)
             else Wait (st\<lparr>dc_context := c\<lparr>dn_index := i, dn_exited := True\<rparr>\<rparr>))"

definition dada_dbnum_close :: "u64 \<Rightarrow> (int, dada_dbnum, 'w) client_call" where
  "dada_dbnum_close bytes_written st =
    (let c = dc_context st
     in Done 0 (st\<lparr>dc_context := c\<lparr>dn_index := dn_index c + dn_xfer_skip_num c, dn_header_read := False\<rparr>\<rparr>))"

definition dada_dbnum_open :: "(int, dada_dbnum, 'w) client_call" where
  "dada_dbnum_open st =
    (let c = dc_context st;
         c = (if dn_index c = 0 \<or> dn_xfer_skip_num c = 0 then c\<lparr>dn_index := dn_start_num c\<rparr> else c);
         st = st\<lparr>dc_context := c\<rparr>
     in Done 0 (if dn_interleave_skip_num c \<noteq> 0 then st\<lparr>optimal_bytes := dn_interleave_skip_num c * 8 * 8\<rparr> else st))"

definition dbnum_functions :: "u64 \<Rightarrow> (nat \<Rightarrow> u8 list) \<Rightarrow> ('w \<times> ring \<times> ring \<Rightarrow> 'w \<times> ring \<times> ring) \<Rightarrow>
    (dada_dbnum, 'w) client_functions" where
  "dbnum_functions page fresh acts =
    \<lparr>open_function = Some dada_dbnum_open, io_function = Some dada_dbnum_io, io_block_function = None,
     close_function = Some dada_dbnum_close, page_size = page, fresh_memory = fresh, processes = acts\<rparr>"

section \<open>Writing and verifying\<close>

lemma length_put_numbers: "length (fst (put_numbers il n i)) = 8 * n"
  by (induction n arbitrary: i) (simp_all add: case_prod_beta Let_def)

lemma put_numbers_add:
  "put_numbers il (m + n) i =
    (let (d, k) = put_numbers il m i; (e, l) = put_numbers il n k in (d @ e, l))"
  by (induction m arbitrary: i) (auto split: prod.splits)

text \<open>The numbers are accepted exactly when they are those the writer puts from the same number on.\<close>

lemma check_numbers_iff:
  assumes "il \<noteq> 0" "length d = 8 * n"
  shows "check_numbers il n d i = (k, True) \<longleftrightarrow> put_numbers il n i = (d, k)"
  using assms(2)
proof (induction n arbitrary: d i)
  case (Suc n)
  have t: "length (take 8 d) = 8" "d = take 8 d @ drop 8 d" using Suc.prems by simp_all
  have "bytes_number d = i \<longleftrightarrow> take 8 d = number_bytes i"
  proof
    assume "bytes_number d = i"
    moreover have "bytes_number d = bytes_number (take 8 d)"
      using t(1) by (auto simp: bytes_number_def upt_rec)
    ultimately show "take 8 d = number_bytes i" using number_bytes_number [OF t(1)] by simp
  qed (use t(2) bytes_number_bytes [of i "drop 8 d"] in simp)
  moreover have "check_numbers il n (drop 8 d) (number_after il i) = (k, True) \<longleftrightarrow>
      put_numbers il n (number_after il i) = (drop 8 d, k)"
    using Suc.prems by (intro Suc.IH) simp
  ultimately show ?case
    using assms(1) Suc.prems t by (auto simp: dbnum_after_def append_eq_conv_conj split: prod.splits)
qed auto

lemma length_check: "length d = 8 * n \<Longrightarrow> length d div 8 = n"
  by simp

text \<open>An I/O function is called with one piece of data after another.\<close>

fun io_pieces :: "(u8 list \<Rightarrow> (u8 list \<times> int, 'c, 'w) client_call) \<Rightarrow> u8 list list \<Rightarrow> ('c, 'w) dada_client_t \<Rightarrow>
    (u8 list list, ('c, 'w) dada_client_t) outcome" where
  "io_pieces f [] st = Done [] st"
| "io_pieces f (d # ds) st =
     andthen (f d st) (\<lambda>(e, k) st. andthen (io_pieces f ds st) (\<lambda>es. Done (e # es)))"

lemma numdb_pieces:
  assumes "nd_header_read (dc_context st)" "nd_interleave_num (dc_context st) \<noteq> 0" "\<forall>d \<in> set ds. 8 dvd length d"
  shows "\<exists>es st'. io_pieces dada_numdb_io ds st = Done es st' \<and> map length es = map length ds \<and>
    put_numbers (nd_interleave_num (dc_context st)) (length (concat ds) div 8) (nd_index (dc_context st)) =
      (concat es, nd_index (dc_context st'))"
  using assms
proof (induction ds arbitrary: st)
  case (Cons d ds)
  let ?c = "dc_context st" and ?n = "length d div 8"
  obtain b i where b: "put_numbers (nd_interleave_num ?c) ?n (nd_index ?c) = (b, i)" by fastforce
  have d: "8 * ?n = length d" using Cons.prems(3) by simp
  have lb: "length b = length d" using length_put_numbers [of "nd_interleave_num ?c" ?n "nd_index ?c"] b d by simp
  let ?st = "st\<lparr>dc_context := ?c\<lparr>nd_index := i\<rparr>\<rparr>"
  have io: "dada_numdb_io d st = Done (b, sint (of_nat (length d) :: u64)) ?st"
    using Cons.prems b d by (simp add: dada_numdb_io_def)
  from Cons.IH [of ?st] Cons.prems obtain es st' where es: "io_pieces dada_numdb_io ds ?st = Done es st'"
    "map length es = map length ds"
    "put_numbers (nd_interleave_num ?c) (length (concat ds) div 8) i = (concat es, nd_index (dc_context st'))" by auto
  have "8 dvd length (concat ds)" using Cons.prems(3) by (induction ds) auto
  moreover have "8 dvd length d" using Cons.prems(3) by simp
  ultimately have "length (concat (d # ds)) div 8 = ?n + length (concat ds) div 8" by simp
  then show ?case using io es b lb by (auto simp: put_numbers_add)
qed simp

lemma dbnum_pieces:
  assumes "dn_header_read (dc_context st)" "dn_interleave_skip_num (dc_context st) \<noteq> 0" "\<forall>d \<in> set ds. 8 dvd length d"
  shows "(\<exists>st'. io_pieces dada_dbnum_io ds st = Done ds st' \<and> dn_index (dc_context st') = k) \<longleftrightarrow>
    put_numbers (dn_interleave_skip_num (dc_context st)) (length (concat ds) div 8) (dn_index (dc_context st)) =
      (concat ds, k)"
  using assms
proof (induction ds arbitrary: st)
  case (Cons d ds)
  let ?c = "dc_context st" and ?n = "length d div 8"
  have d: "8 * ?n = length d" using Cons.prems(3) by simp
  have "8 dvd length (concat ds)" using Cons.prems(3) by (induction ds) auto
  moreover have "8 dvd length d" using Cons.prems(3) by simp
  ultimately have n: "length (concat (d # ds)) div 8 = ?n + length (concat ds) div 8" by simp
  obtain b i where b: "put_numbers (dn_interleave_skip_num ?c) ?n (dn_index ?c) = (b, i)" by fastforce
  have lb: "length b = length d" using length_put_numbers [of "dn_interleave_skip_num ?c" ?n "dn_index ?c"] b d by simp
  obtain j ok where c: "check_numbers (dn_interleave_skip_num ?c) ?n d (dn_index ?c) = (j, ok)" by fastforce
  have "ok \<and> j = l \<longleftrightarrow> b = d \<and> i = l" for l
    using check_numbers_iff [OF Cons.prems(2) d [symmetric], of "dn_index ?c" l] b c by auto
  then have ok: "ok \<longleftrightarrow> b = d" "ok \<Longrightarrow> j = i" by auto
  let ?st = "st\<lparr>dc_context := ?c\<lparr>dn_index := i\<rparr>\<rparr>"
  have eq: "put_numbers (dn_interleave_skip_num ?c) (length (concat (d # ds)) div 8) (dn_index ?c) = (concat (d # ds), k) \<longleftrightarrow>
      b = d \<and> put_numbers (dn_interleave_skip_num ?c) (length (concat ds) div 8) i = (concat ds, k)"
    unfolding n put_numbers_add using b lb by (auto split: prod.splits)
  show ?case
  proof (cases ok)
    case True
    then have "dada_dbnum_io d st = Done (d, sint (of_nat (length d) :: u64)) ?st"
      using Cons.prems(1) c ok(2) by (simp add: dada_dbnum_io_def Let_def)
    then have "(\<exists>st'. io_pieces dada_dbnum_io (d # ds) st = Done (d # ds) st' \<and> dn_index (dc_context st') = k) \<longleftrightarrow>
        (\<exists>st'. io_pieces dada_dbnum_io ds ?st = Done ds st' \<and> dn_index (dc_context st') = k)"
      by (auto simp: outcome_simps)
    then show ?thesis using Cons.IH [of ?st] Cons.prems True ok(1) eq by simp
  next
    case False
    then have "io_pieces dada_dbnum_io (d # ds) st \<noteq> Done (d # ds) st'" for st'
      using Cons.prems(1) c by (simp add: dada_dbnum_io_def Let_def)
    then show ?thesis using False ok(1) eq by simp
  qed
qed auto

section \<open>The contract of the writer\<close>

text \<open>A buffer takes a multiple of 64 bytes, and its size fits a signed number.\<close>

definition numdb_idle :: "dada_numdb \<Rightarrow> bool" where
  "numdb_idle c \<longleftrightarrow> \<not> nd_header_read c \<and> nd_interleave_num c \<noteq> 0 \<and> unat (nd_interleave_num c) * 64 < 2 ^ 63"

definition numdb_ready :: "dada_numdb \<Rightarrow> bool" where
  "numdb_ready c \<longleftrightarrow> nd_header_read c \<and> nd_interleave_num c \<noteq> 0"

definition numdb_emits :: "dada_numdb \<Rightarrow> nat \<Rightarrow> u8 list \<Rightarrow> dada_numdb \<Rightarrow> bool" where
  "numdb_emits c n p c' \<longleftrightarrow> 0 < n \<and> 8 dvd n \<and> nd_interleave_num c' = nd_interleave_num c \<and>
     put_numbers (nd_interleave_num c) (n div 8) (nd_index c) = (p, nd_index c')"

abbreviation numdb_client :: "(ring_readers \<times> ring \<Rightarrow> io_call) \<Rightarrow> u8 \<Rightarrow> (dada_numdb, ring_readers) client_functions" where
  "numdb_client pick g \<equiv> numdb_functions 4096 (fresh_bytes g) (readers_turn pick)"

lemma numdb_room:
  assumes "numdb_idle c"
  shows "unat (nd_interleave_num c * 8 * 8) = unat (nd_interleave_num c) * 64"
proof -
  have "nd_interleave_num c * 8 * 8 = of_nat (unat (nd_interleave_num c) * 64)" by simp
  then show ?thesis using assms by (simp only: numdb_idle_def unat_of_nat) simp
qed

lemma numdb_opens: "source_opens numdb_idle numdb_idle (numdb_client pick g)"
  using numdb_room
  by (auto simp: source_opens_def numdb_functions_def dada_numdb_open_def same_ring_def Let_def numdb_idle_def)

lemma numdb_gives: "source_gives 8 numdb_idle numdb_ready numdb_emits (numdb_client pick g)"
proof -
  have "\<exists>d' k c. dada_numdb_io d st = Done (d', k) (st\<lparr>dc_context := c\<rparr>) \<and> numdb_ready c"
    if "numdb_idle (dc_context st)" for d and st :: "(dada_numdb, ring_readers) dada_client_t"
    using that by (auto simp: dada_numdb_io_def numdb_idle_def numdb_ready_def Let_def)
  moreover have "\<exists>d' k c. dada_numdb_io d st = Done (d', int k) (st\<lparr>dc_context := c\<rparr>) \<and> length d' = length d \<and>
      k \<le> length d \<and> 8 dvd k \<and> numdb_emits (dc_context st) (length d) (take k d') c \<and> numdb_ready c"
    if r: "numdb_ready (dc_context st)" "8 dvd length d" "d \<noteq> []" "length d < 2 ^ 63"
    for d and st :: "(dada_numdb, ring_readers) dada_client_t"
  proof -
    let ?c = "dc_context st" and ?n = "length d div 8"
    obtain b i where b: "put_numbers (nd_interleave_num ?c) ?n (nd_index ?c) = (b, i)" by fastforce
    have d: "8 * ?n = length d" using r(2) by simp
    have lb: "length b = length d"
      using length_put_numbers [of "nd_interleave_num ?c" ?n "nd_index ?c"] b d by simp
    have "sint (of_nat (length d) :: u64) = int (length d)"
      using r(4) sint_small [of "of_nat (length d)"] by simp
    then show ?thesis
      using r b lb d
      by (intro exI [of _ b] exI [of _ "length d"] exI [of _ "?c\<lparr>nd_index := i\<rparr>"])
        (simp add: dada_numdb_io_def numdb_ready_def numdb_emits_def)
  qed
  ultimately show ?thesis by (simp add: source_gives_def numdb_functions_def)
qed

lemma numdb_closes: "source_closes numdb_ready (numdb_client pick g)"
  by (auto simp: source_closes_def numdb_functions_def dada_numdb_close_def same_ring_def)

interpretation numdb: byte_source "numdb_client pick g" 8 numdb_idle numdb_idle numdb_ready numdb_emits for pick g
  by unfold_locales (rule numdb_opens numdb_gives numdb_closes readers_turn_act filled_memory; simp add: numdb_functions_def)+

lemma numdb_emits_all:
  "emits_all numdb_emits c d c' \<Longrightarrow> 8 dvd length d \<and> nd_interleave_num c' = nd_interleave_num c \<and>
     put_numbers (nd_interleave_num c) (length d div 8) (nd_index c) = (d, nd_index c')"
proof (induction rule: emits_all.induct)
  case (more c n p c1 d c2)
  then have n: "8 dvd n" "nd_interleave_num c1 = nd_interleave_num c"
    "put_numbers (nd_interleave_num c) (n div 8) (nd_index c) = (p, nd_index c1)" by (simp_all add: numdb_emits_def)
  then have "length p = n" using length_put_numbers [of "nd_interleave_num c" "n div 8" "nd_index c"] by simp
  with n more.IH show ?case by (auto simp: put_numbers_add)
qed simp

lemma numdb_never_ends: "\<not> source_ended numdb_emits c c'"
proof
  assume "source_ended numdb_emits c c'"
  then obtain n where "0 < n" "8 dvd n" "put_numbers (nd_interleave_num c) (n div 8) (nd_index c) = ([], nd_index c')"
    by (auto simp: source_ended_def numdb_emits_def)
  then show False using length_put_numbers [of "nd_interleave_num c" "n div 8" "nd_index c"] by auto
qed

end
