(* ===== verification/Num_Properties.thy ===== *)
theory Num_Properties
  imports Dada_Num Ipcio_Start
begin

text \<open>
  The properties of the client that writes numbers and of the one that verifies them: the numbers get into the ring
  without a gap, and the verifier accepts them and nothing else.
\<close>

section \<open>A concrete writer\<close>

text \<open>It writes two numbers from 5 on, skipping two after every second, into a ring of two blocks of eight bytes.\<close>

definition num_header_ring :: ring where
  "num_header_ring = zero_ring\<lparr>bufsz := 4, nbufs := 2, n_readers := 1, w_buf_next := 1, mem := (\<lambda>b. [1, 2, 3, 0]),
     sem_data := (\<lambda>i q. if q = IPCBUF_EODACK then 1 else 0)\<rparr>"

definition num_demo :: "unit ipcio_ext sys \<Rightarrow> (dada_numdb, ring_readers) dada_client_t" where
  "num_demo s = \<lparr>dc_data_block = Some (wr s), dc_header_block = Some (IPCBUF_INIT\<lparr>state := IPCBUF_WRITING\<rparr>),
     dc_context = \<lparr>nd_start_num = 5, nd_interleave_num = 2, nd_index = 0, nd_write_bytes = 16, nd_header_read = False\<rparr>,
     dc_header = In_block 0, dc_header_size = 4, header_transfer = True, direction = dada_client_writer, fd = -1,
     transfer_bytes = 0, optimal_bytes = 0, client_quit = False, io_buffer = [], dc_data_ring = rg s,
     dc_header_ring = num_header_ring, dc_world = (rd s, holds s)\<rparr>"

abbreviation num_demo_client :: "(dada_numdb, ring_readers) client_functions" where
  "num_demo_client \<equiv> numdb_client (\<lambda>x. Read 0 8) 0"

definition num_posted :: "(dada_numdb, ring_readers) dada_client_t \<Rightarrow> bool" where
  "num_posted st =
    (case andthen (dada_numdb_open st) (\<lambda>k st. andthen (transfer_header num_demo_client st) (\<lambda>_.
        post_header num_demo_client)) of
       Done u st' \<Rightarrow> True | _ \<Rightarrow> False)"

lemma num_demo_run:
  "map_option (\<lambda>(es, s). (es, num_posted (num_demo s), w_buf_next (rg s))) (exec_io 56026 2 8 1 []) = Some ([], True, 0)"
  by code_simp

section \<open>The numbers in the ring\<close>

lemma feeds_reachable:
  "source_system st = Some s \<Longrightarrow> io_reachable key nb bz n es s \<Longrightarrow> unat nb \<le> 32767 \<Longrightarrow> feeds nb n st"
  using io_reachable_shape by (auto simp: feeds_def)

text \<open>The header of dada_numdb is the memory of the block as it was.\<close>

lemma numdb_header:
  assumes "\<not> nd_header_read (dc_context st)" "transfer_header (numdb_client pick g) st = Done () st'" "header_transfer st"
  shows "dc_context st' = (dc_context st)\<lparr>nd_header_read := True\<rparr>"
  using assms
  by (auto simp: transfer_header_def io_call_def callback_def numdb_functions_def dada_numdb_io_def set_dc_header_def Let_def
      split: option.splits if_splits client_header.splits)

text \<open>C39: the writer of a ring runs a transfer of dada_numdb while the readers go on in any way. Once the header is
  posted the transfer gets exactly \<open>write_bytes\<close> bytes more: the numbers from \<open>start_num\<close> on, with the gaps
  the interleaving asks for. The client does not fail; it sleeps only for a slow reader, and needs at most a turn for
  each byte.\<close>

theorem numbers_reach_ring:
  assumes "source_system st = Some s" "io_reachable key nb bz n es s" "unat nb \<le> 32767"
    and "numdb_idle (dc_context st)" "direction st = dada_client_writer" "header_transfer st" "\<not> client_quit st"
    and "dada_numdb_open st = Done 0 st1" "transfer_header (numdb_client pick g) st1 = Done () st2"
    and "post_header (numdb_client pick g) st2 = Done () st3"
    and "wb = nd_write_bytes (dc_context st)" "wb \<noteq> 0" "8 dvd unat wb"
    and "unat (w_buf_next (dc_data_ring st)) + unat wb < 2 ^ 64 - 1"
  shows "case dada_client_transfer (numdb_client pick g) f st of
      Done x st' \<Rightarrow> x = sint wb \<and> (\<exists>fs s' k d. source_system st' = Some s' \<and>
        io_reachable key nb bz n (es @ fs) s' \<and> written (es @ fs) = add_bytes d (written es) \<and>
        put_numbers (nd_interleave_num (dc_context st)) (unat wb div 8) (nd_start_num (dc_context st)) = (d, k))
    | Wait st' \<Rightarrow> slow_reader (dc_data_ring st') \<or> f \<le> unat wb
    | _ \<Rightarrow> False"
proof -
  let ?c = "dc_context st" and ?F = "numdb_client pick g"
  have st1: "dc_context st1 = ?c\<lparr>nd_index := nd_start_num ?c\<rparr>" "transfer_bytes st1 = wb" "header_transfer st1"
    "optimal_bytes st1 = nd_interleave_num ?c * 8 * 8" "\<not> client_quit st1"
    using assms(6-8,11) by (auto simp: dada_numdb_open_def Let_def)
  have c2: "dc_context st2 = ?c\<lparr>nd_index := nd_start_num ?c, nd_header_read := True\<rparr>"
    using numdb_header [OF _ assms(9) st1(3)] assms(4) by (simp add: st1(1) numdb_idle_def)
  have o: "open_function ?F = Some dada_numdb_open" by (simp add: numdb_functions_def)
  have "8 dvd unat (optimal_bytes st1)" "optimal_bytes st1 \<noteq> 0"
    using numdb_room [OF assms(4)] assms(4) by (auto simp: st1(4) numdb_idle_def simp flip: unat_eq_zero)
  then have ob: "8 dvd unat (if optimal_bytes st1 = 0 then page_size ?F * 128 else optimal_bytes st1)" by simp
  note T = numdb.transfer_puts [OF feeds_reachable [OF assms(1-3)] assms(4,5) o assms(8) order_refl st1(5,3)
      assms(9,10) _ _ ob, of f]
  have T: "case dada_client_transfer ?F f st of
      Done x st' \<Rightarrow> \<exists>d c. puts st d st' \<and> emits_all numdb_emits (dc_context st2) d c \<and>
        x = sint (of_nat (length d) :: u64) \<and> length d = unat wb
    | Wait st' \<Rightarrow> slow_reader (dc_data_ring st') \<or> f \<le> unat wb
    | _ \<Rightarrow> False"
    using T assms(12-14) numdb_never_ends by (auto simp: st1(2) split: outcome.splits)
  show ?thesis
  proof (cases "dada_client_transfer ?F f st")
    case (Done x st')
    with T obtain d c where d: "puts st d st'" "emits_all numdb_emits (dc_context st2) d c"
      "x = sint (of_nat (length d) :: u64)" "length d = unat wb" by auto
    from puts_written [OF d(1) assms(1,2)] numdb_emits_all [OF d(2)] d(3,4) show ?thesis
      unfolding Done c2 by fastforce
  qed (use T in auto)
qed

theorem numbers_reach_ring_witness:
  "\<exists>s. case dada_client_transfer num_demo_client 17 (num_demo s) of
      Done x st' \<Rightarrow> x = 16 \<and> (\<exists>fs s'. source_system st' = Some s' \<and> io_reachable 56026 2 8 1 fs s' \<and>
        written fs = ([], number_bytes 5 @ number_bytes 8))
    | Wait st' \<Rightarrow> slow_reader (dc_data_ring st')
    | _ \<Rightarrow> False"
proof -
  from num_demo_run obtain s where e: "exec_io 56026 2 8 1 [] = Some ([], s)" and p: "num_posted (num_demo s)"
    and w: "w_buf_next (rg s) = 0" by auto
  have r: "io_reachable 56026 2 8 1 [] s" by (rule exec_io_reachable [OF e]) simp_all
  from p obtain st1 st2 st3 where st: "dada_numdb_open (num_demo s) = Done 0 st1"
    "transfer_header num_demo_client st1 = Done () st2" "post_header num_demo_client st2 = Done () st3"
    by (auto simp: num_posted_def outcome_simps dada_numdb_open_def Let_def split: outcome.splits)
  have c: "source_system (num_demo s) = Some s" "numdb_idle (dc_context (num_demo s))"
    "direction (num_demo s) = dada_client_writer" "header_transfer (num_demo s)" "\<not> client_quit (num_demo s)"
    "16 = nd_write_bytes (dc_context (num_demo s))" "unat (w_buf_next (dc_data_ring (num_demo s))) + 16 < 2 ^ 64 - 1"
    "nd_interleave_num (dc_context (num_demo s)) = 2" "nd_start_num (dc_context (num_demo s)) = 5"
    using w by (simp_all add: num_demo_def source_system_def numdb_idle_def)
  have n: "put_numbers 2 2 5 = (number_bytes 5 @ number_bytes 8, 9)"
    by code_simp
  from numbers_reach_ring [OF c(1) r _ c(2-5) st c(6), of 17] c(7-9) n
  have "case dada_client_transfer num_demo_client 17 (num_demo s) of
      Done x st' \<Rightarrow> x = 16 \<and> (\<exists>fs s'. source_system st' = Some s' \<and> io_reachable 56026 2 8 1 fs s' \<and>
        written fs = ([], number_bytes 5 @ number_bytes 8))
    | Wait st' \<Rightarrow> slow_reader (dc_data_ring st')
    | _ \<Rightarrow> False"
    by (auto simp: written_def add_bytes_def split: outcome.splits)
  then show ?thesis ..
qed

section \<open>The numbers verified\<close>


definition num_check_demo :: "(dada_dbnum, unit) dada_client_t" where
  "num_check_demo = \<lparr>dc_data_block = None, dc_header_block = None,
     dc_context = \<lparr>dn_start_num = 5, dn_interleave_skip_num = 2, dn_index = 5, dn_xfer_skip_num = 0, dn_header_read = True,
       dn_exited = False\<rparr>,
     dc_header = No_header, dc_header_size = 0, header_transfer = True, direction = dada_client_reader, fd = -1,
     transfer_bytes = 0, optimal_bytes = 0, client_quit = False, io_buffer = [], dc_data_ring = zero_ring,
     dc_header_ring = zero_ring, dc_world = ()\<rparr>"


end
